(* ===== verification/Etr_Prelude.thy ===== *)
theory Etr_Prelude
  imports Main "HOL-Library.Word" "HOL-Library.Sublist"
begin

text \<open>
  Shared vocabulary of the development: the machine-integer types of the Rust sources, the
  \<open>io::ErrorKind\<close> values callers dispatch on, panics as values, and the parts of the Rust
  standard library the program uses on strings and integers (\<open>strip_prefix\<close>, \<open>split\<close>,
  \<open>lines\<close>, \<open>trim\<close>, \<open>parse::<uN>\<close>, \<open>to_be_bytes\<close>, \<open>format!("{}")\<close>).

  A Rust \<open>str\<close> is its UTF-8 byte sequence, so it is modelled as a \<open>char list\<close> whose
  characters are bytes: \<open>len\<close> is \<open>length\<close>, comparison with an ASCII character is
  comparison with its byte, and slicing works on byte offsets, with the panic of a slice that
  is not on a character boundary modelled where the source can reach it.
\<close>

type_synonym u8 = "8 word"
type_synonym u16 = "16 word"
type_synonym u32 = "32 word"
type_synonym u64 = "64 word"
type_synonym bytes = "u8 list"

named_theorems io_simps \<open>defining equations of the byte-stream operations\<close>
named_theorems state_simps \<open>defining equations of the session and stream operations\<close>

text \<open>The error kinds of \<open>std::io::Error\<close> that the sources construct or test.\<close>

datatype error_kind =
    NotFound | PermissionDenied | InvalidInput | InvalidData | BrokenPipe
  | UnexpectedEof | ConnectionAborted | AddrNotAvailable | OtherError

type_synonym 'a io_result = "error_kind + 'a"

text \<open>A computation that may panic (slice out of a character boundary, arithmetic overflow
  with checks enabled).\<close>

datatype 'a outcome = Returns 'a | Panics

section \<open>Strings\<close>

definition strip_prefix_str :: "'a list \<Rightarrow> 'a list \<Rightarrow> 'a list option" where
  "strip_prefix_str p s = (if take (length p) s = p then Some (drop (length p) s) else None)"

definition strip_suffix_str :: "'a list \<Rightarrow> 'a list \<Rightarrow> 'a list option" where
  "strip_suffix_str p s =
     (if length p \<le> length s \<and> drop (length s - length p) s = p
      then Some (take (length s - length p) s) else None)"

definition starts_with :: "'a list \<Rightarrow> 'a list \<Rightarrow> bool" where
  "starts_with p s \<longleftrightarrow> take (length p) s = p"

text \<open>\<open>str::split(c)\<close>: the pieces between the separators, one more than there are separators.\<close>

fun split_on :: "'a \<Rightarrow> 'a list \<Rightarrow> 'a list list" where
  "split_on c [] = [[]]"
| "split_on c (x # xs) =
     (if x = c then [] # split_on c xs
      else (case split_on c xs of [] \<Rightarrow> [[x]] | p # ps \<Rightarrow> (x # p) # ps))"

text \<open>\<open>str::split_once(c)\<close>.\<close>

fun split_once :: "'a \<Rightarrow> 'a list \<Rightarrow> ('a list \<times> 'a list) option" where
  "split_once c [] = None"
| "split_once c (x # xs) =
     (if x = c then Some ([], xs) else map_option (\<lambda>(k, v). (x # k, v)) (split_once c xs))"

text \<open>\<open>str::rfind(c)\<close> followed by slicing past the match: the text after the last \<open>c\<close>.\<close>

definition after_last :: "'a \<Rightarrow> 'a list \<Rightarrow> 'a list option" where
  "after_last c s = (if c \<in> set s then Some (last (split_on c s)) else None)"

text \<open>\<open>str::find(c)\<close> followed by slicing past the match: the text after the first \<open>c\<close>.\<close>

definition after_first :: "'a \<Rightarrow> 'a list \<Rightarrow> 'a list option" where
  "after_first c s = map_option snd (split_once c s)"

abbreviation newline :: char where "newline \<equiv> CHR 0x0A"
abbreviation carriage_return :: char where "carriage_return \<equiv> CHR 0x0D"
abbreviation nul :: char where "nul \<equiv> CHR 0x00"

definition strip_cr :: "string \<Rightarrow> string" where
  "strip_cr l = (case strip_suffix_str [carriage_return] l of Some l' \<Rightarrow> l' | None \<Rightarrow> l)"

text \<open>\<open>str::lines\<close>: a final empty piece is not a line, and a carriage return is dropped from
  a line only when a newline ends it.\<close>

definition str_lines :: "string \<Rightarrow> string list" where
  "str_lines s =
     (let ps = split_on newline s
      in map strip_cr (butlast ps) @ (if last ps = [] then [] else [last ps]))"

definition join_with :: "'a list \<Rightarrow> 'a list list \<Rightarrow> 'a list" where
  "join_with sep ss = concat (case ss of [] \<Rightarrow> [] | x # xs \<Rightarrow> x # map (\<lambda>y. sep @ y) xs)"

text \<open>The UTF-8 encodings of the code points with the Unicode \<open>White_Space\<close> property, which
  \<open>trim\<close> and \<open>split_whitespace\<close> use.\<close>

definition ws_seqs :: "string list" where
  "ws_seqs =
     [[CHR 0x20], [CHR 0x09], [CHR 0x0A], [CHR 0x0B], [CHR 0x0C], [CHR 0x0D],
      [CHR 0xC2, CHR 0x85], [CHR 0xC2, CHR 0xA0], [CHR 0xE1, CHR 0x9A, CHR 0x80],
      [CHR 0xE2, CHR 0x80, CHR 0x80], [CHR 0xE2, CHR 0x80, CHR 0x81],
      [CHR 0xE2, CHR 0x80, CHR 0x82], [CHR 0xE2, CHR 0x80, CHR 0x83],
      [CHR 0xE2, CHR 0x80, CHR 0x84], [CHR 0xE2, CHR 0x80, CHR 0x85],
      [CHR 0xE2, CHR 0x80, CHR 0x86], [CHR 0xE2, CHR 0x80, CHR 0x87],
      [CHR 0xE2, CHR 0x80, CHR 0x88], [CHR 0xE2, CHR 0x80, CHR 0x89],
      [CHR 0xE2, CHR 0x80, CHR 0x8A], [CHR 0xE2, CHR 0x80, CHR 0xA8],
      [CHR 0xE2, CHR 0x80, CHR 0xA9], [CHR 0xE2, CHR 0x80, CHR 0xAF],
      [CHR 0xE2, CHR 0x81, CHR 0x9F], [CHR 0xE3, CHR 0x80, CHR 0x80]]"

text \<open>Drop one white-space encoding at the front, if there is one.\<close>

fun strip_one :: "string list \<Rightarrow> string \<Rightarrow> string option" where
  "strip_one [] s = None"
| "strip_one (w # ws) s =
     (if w \<noteq> [] \<and> starts_with w s then Some (drop (length w) s) else strip_one ws s)"

lemma strip_one_shorter: "strip_one ws s = Some r \<Longrightarrow> length r < length s"
proof (induction ws)
  case (Cons w ws)
  show ?case
  proof (cases "w \<noteq> [] \<and> starts_with w s")
    case True
    then have "s \<noteq> []" by (auto simp: starts_with_def)
    with True Cons.prems show ?thesis by (auto intro: diff_less)
  next
    case False
    with Cons show ?thesis by auto
  qed
qed simp

function trim_front :: "string list \<Rightarrow> string \<Rightarrow> string" where
  "trim_front ws s = (case strip_one ws s of None \<Rightarrow> s | Some r \<Rightarrow> trim_front ws r)"
  by pat_completeness auto
termination
  by (relation "measure (\<lambda>(ws, s). length s)") (auto dest: strip_one_shorter)

declare trim_front.simps [simp del]

definition trim :: "string \<Rightarrow> string" where
  "trim s = rev (trim_front (map rev ws_seqs) (rev (trim_front ws_seqs s)))"

definition trim_end :: "string \<Rightarrow> string" where
  "trim_end s = rev (trim_front (map rev ws_seqs) (rev s))"

text \<open>\<open>str::split_whitespace\<close>: maximal runs without white space (\<open>acc\<close> is the current run,
  reversed).\<close>

function split_ws_from :: "string \<Rightarrow> string \<Rightarrow> string list" where
  "split_ws_from acc s =
     (case strip_one ws_seqs s of
        Some r \<Rightarrow> (if acc = [] then [] else [rev acc]) @ split_ws_from [] r
      | None \<Rightarrow> (case s of
          [] \<Rightarrow> (if acc = [] then [] else [rev acc])
        | c # cs \<Rightarrow> split_ws_from (c # acc) cs))"
  by pat_completeness auto
termination
  by (relation "measure (\<lambda>(acc, s). length s)") (auto dest: strip_one_shorter)

declare split_ws_from.simps [simp del]

definition split_whitespace :: "string \<Rightarrow> string list" where
  "split_whitespace s = split_ws_from [] s"

text \<open>\<open>to_ascii_lowercase\<close>, \<open>is_ascii_alphanumeric\<close>, \<open>eq_ignore_ascii_case\<close>.\<close>

definition ascii_lower :: "char \<Rightarrow> char" where
  "ascii_lower c =
     (if 65 \<le> (of_char c :: nat) \<and> (of_char c :: nat) \<le> 90 then char_of (of_char c + 32 :: nat) else c)"

definition to_ascii_lowercase :: "string \<Rightarrow> string" where
  "to_ascii_lowercase s = map ascii_lower s"

definition eq_ignore_ascii_case :: "string \<Rightarrow> string \<Rightarrow> bool" where
  "eq_ignore_ascii_case a b \<longleftrightarrow> to_ascii_lowercase a = to_ascii_lowercase b"

definition is_ascii_alphanumeric :: "char \<Rightarrow> bool" where
  "is_ascii_alphanumeric c \<longleftrightarrow>
     (let n = (of_char c :: nat)
      in 48 \<le> n \<and> n \<le> 57 \<or> 65 \<le> n \<and> n \<le> 90 \<or> 97 \<le> n \<and> n \<le> 122)"

text \<open>\<open>s.contains(['\n', '\r', '\0'])\<close>.\<close>

definition has_line_breaker :: "string \<Rightarrow> bool" where
  "has_line_breaker s \<longleftrightarrow> newline \<in> set s \<or> carriage_return \<in> set s \<or> nul \<in> set s"

definition as_bytes :: "string \<Rightarrow> bytes" where
  "as_bytes s = map (\<lambda>c. word_of_nat (of_char c)) s"

section \<open>Integers as text\<close>

text \<open>\<open>char::to_digit(radix)\<close>.\<close>

definition to_digit :: "nat \<Rightarrow> char \<Rightarrow> nat option" where
  "to_digit radix c =
     (let n = (of_char c :: nat);
          d = (if 48 \<le> n \<and> n \<le> 57 then Some (n - 48)
               else if 97 \<le> n \<and> n \<le> 122 then Some (n - 87)
               else if 65 \<le> n \<and> n \<le> 90 then Some (n - 55)
               else None)
      in case d of Some v \<Rightarrow> (if v < radix then Some v else None) | None \<Rightarrow> None)"

fun parse_digits :: "nat \<Rightarrow> nat \<Rightarrow> string \<Rightarrow> nat option" where
  "parse_digits radix acc [] = Some acc"
| "parse_digits radix acc (c # cs) =
     (case to_digit radix c of
        None \<Rightarrow> None
      | Some d \<Rightarrow> parse_digits radix (acc * radix + d) cs)"

text \<open>\<open>uN::from_str_radix\<close>: an empty string, a lone sign, a bad digit and a value that does not
  fit are errors; one leading \<open>+\<close> is accepted and skipped.\<close>

definition from_str_radix :: "nat \<Rightarrow> nat \<Rightarrow> string \<Rightarrow> nat option" where
  "from_str_radix w radix s =
     (let ds = (case s of c # cs \<Rightarrow> if c = CHR ''+'' then cs else s | [] \<Rightarrow> [])
      in if ds = [] then None
         else (case parse_digits radix 0 ds of
                 Some n \<Rightarrow> (if n < 2 ^ w then Some n else None)
               | None \<Rightarrow> None))"

definition parse_u16 :: "string \<Rightarrow> u16 option" where
  "parse_u16 s = map_option word_of_nat (from_str_radix 16 10 s)"

definition parse_u64 :: "string \<Rightarrow> u64 option" where
  "parse_u64 s = map_option word_of_nat (from_str_radix 64 10 s)"

definition digit_char :: "nat \<Rightarrow> char" where
  "digit_char d = char_of (if d < 10 then d + 48 else d + 87)"

text \<open>\<open>format!("{n}")\<close>.\<close>

fun show_nat :: "nat \<Rightarrow> string" where
  "show_nat n = (if n < 10 then [digit_char n] else show_nat (n div 10) @ [digit_char (n mod 10)])"

declare show_nat.simps [simp del]

section \<open>Big-endian encodings\<close>

text \<open>\<open>uN::to_be_bytes\<close> with \<open>k\<close> bytes, and its inverse \<open>from_be_bytes\<close>.\<close>

fun be_bytes :: "nat \<Rightarrow> nat \<Rightarrow> bytes" where
  "be_bytes 0 n = []"
| "be_bytes (Suc k) n = be_bytes k (n div 256) @ [word_of_nat n]"

definition from_be_bytes :: "bytes \<Rightarrow> nat" where
  "from_be_bytes bs = foldl (\<lambda>a b. a * 256 + unat b) 0 bs"

section \<open>Lemmas on machine integers\<close>

lemma unat_lt: "unat (x :: 'a::len word) < 2 ^ LENGTH('a)"
  by (rule unsigned_less)

section \<open>Lemmas on strings\<close>

lemma strip_prefix_str_append [simp]: "strip_prefix_str p (p @ s) = Some s"
  by (simp add: strip_prefix_str_def)

lemma strip_prefix_str_Some_iff: "strip_prefix_str p s = Some r \<longleftrightarrow> s = p @ r"
  by (auto simp: strip_prefix_str_def) (metis append_take_drop_id)

lemma strip_prefix_str_None_iff: "strip_prefix_str p s = None \<longleftrightarrow> \<not> starts_with p s"
  by (simp add: strip_prefix_str_def starts_with_def)

lemma starts_with_iff_prefix: "starts_with p s \<longleftrightarrow> prefix p s"
  by (auto simp: starts_with_def prefix_def) (metis append_take_drop_id)

lemma starts_with_append [simp]: "starts_with p (p @ s)"
  by (simp add: starts_with_def)

lemma prefix_concat_mono: "prefix xs ys \<Longrightarrow> prefix (concat xs) (concat ys)"
  by (auto simp: prefix_def)

lemma strip_suffix_str_append [simp]: "strip_suffix_str p (s @ p) = Some s"
  by (simp add: strip_suffix_str_def)

lemma strip_suffix_str_Some_iff: "strip_suffix_str p s = Some r \<longleftrightarrow> s = r @ p"
  by (auto simp: strip_suffix_str_def) (metis append_take_drop_id)

lemma split_on_nonempty [simp]: "split_on c s \<noteq> []"
  by (induction s) (auto split: list.splits)

lemma split_on_no_sep: "c \<notin> set s \<Longrightarrow> split_on c s = [s]"
  by (induction s) auto

lemma split_on_append_sep:
  "c \<notin> set p \<Longrightarrow> split_on c (p @ c # s) = p # split_on c s"
  by (induction p) auto

lemma split_on_join: "concat (map (\<lambda>p. p @ [c]) (butlast (split_on c s))) @ last (split_on c s) = s"
  by (induction s) (auto split: list.splits)

lemma split_on_pieces: "p \<in> set (split_on c s) \<Longrightarrow> c \<notin> set p"
  by (induction s arbitrary: p) (fastforce split: list.splits if_splits)+

lemma length_split_on: "length (split_on c s) = Suc (length (filter ((=) c) s))"
  by (induction s) (auto split: list.splits)

lemma split_once_append: "c \<notin> set k \<Longrightarrow> split_once c (k @ c # v) = Some (k, v)"
  by (induction k) auto

lemma split_once_SomeD: "split_once c s = Some (k, v) \<Longrightarrow> s = k @ c # v \<and> c \<notin> set k"
  by (induction s arbitrary: k) (auto split: if_splits)

lemma split_once_Some_iff: "split_once c s = Some (k, v) \<longleftrightarrow> s = k @ c # v \<and> c \<notin> set k"
  using split_once_SomeD split_once_append by metis

lemma split_once_None_iff: "split_once c s = None \<longleftrightarrow> c \<notin> set s"
  by (induction s) auto

lemma split_on_append_last:
  "split_on c (s @ c # t) = split_on c s @ split_on c t"
  by (induction s) (auto split: list.splits)

lemma after_last_append: "c \<notin> set t \<Longrightarrow> after_last c (s @ c # t) = Some t"
  by (simp add: after_last_def split_on_append_last split_on_no_sep)

lemma str_lines_Nil [simp]: "str_lines [] = []"
  by (simp add: str_lines_def)

lemma str_lines_append_newline:
  "str_lines (l @ newline # s) = map strip_cr (split_on newline l) @ str_lines s"
  by (simp add: str_lines_def split_on_append_last Let_def butlast_append)

lemma strip_cr_id: "carriage_return \<notin> set l \<Longrightarrow> strip_cr l = l"
  by (auto simp: strip_cr_def strip_suffix_str_Some_iff split: option.splits)

lemma str_lines_Cons_line:
  "newline \<notin> set l \<Longrightarrow> carriage_return \<notin> set l \<Longrightarrow> str_lines (l @ newline # s) = l # str_lines s"
  by (simp add: str_lines_append_newline split_on_no_sep strip_cr_id)

lemma str_lines_concat:
  assumes "\<And>l. l \<in> set ls \<Longrightarrow> newline \<notin> set l \<and> carriage_return \<notin> set l"
  shows "str_lines (concat (map (\<lambda>l. l @ [newline]) ls)) = ls"
  using assms by (induction ls) (simp_all add: str_lines_Cons_line)

lemma trim_front_fixed: "strip_one ws s = None \<Longrightarrow> trim_front ws s = s"
  by (simp add: trim_front.simps)

lemma trim_front_stops: "strip_one ws (trim_front ws s) = None"
  by (induction ws s rule: trim_front.induct) (subst trim_front.simps, simp split: option.split)

lemma trim_front_idem [simp]: "trim_front ws (trim_front ws s) = trim_front ws s"
  by (rule trim_front_fixed) (rule trim_front_stops)

lemma trim_front_suffix: "suffix (trim_front ws s) s"
proof (induction ws s rule: trim_front.induct)
  case (1 ws s)
  have sx: "suffix r s" if "strip_one ws s = Some r" for r
    using that by (induction ws) (auto simp: suffix_drop split: if_splits)
  show ?case
    by (subst trim_front.simps) (auto split: option.split intro: suffix_order.trans[OF "1.IH"] sx)
qed

section \<open>Lemmas on integers as text\<close>

lemma of_char_digit_char: "d < 36 \<Longrightarrow> of_char (digit_char d) = (if d < 10 then d + 48 else d + 87)"
  by (simp add: digit_char_def)

lemma to_digit_digit_char: "d < r \<Longrightarrow> r \<le> 36 \<Longrightarrow> to_digit r (digit_char d) = Some d"
  by (simp add: to_digit_def of_char_digit_char Let_def)

lemma parse_digits_append:
  "parse_digits r a (xs @ ys) =
     (case parse_digits r a xs of None \<Rightarrow> None | Some b \<Rightarrow> parse_digits r b ys)"
  by (induction xs arbitrary: a) (auto split: option.splits)

lemma parse_digits_show_nat: "parse_digits 10 0 (show_nat n) = Some n"
proof (induction n rule: show_nat.induct)
  case (1 n)
  then show ?case
    by (subst show_nat.simps)
      (auto simp: to_digit_digit_char parse_digits_append)
qed

lemma set_show_nat: "c \<in> set (show_nat n) \<Longrightarrow> 48 \<le> (of_char c :: nat) \<and> (of_char c :: nat) \<le> 57"
proof (induction n rule: show_nat.induct)
  case (1 n)
  from "1.prems" show ?case
    by (subst (asm) show_nat.simps) (auto simp: of_char_digit_char dest: "1.IH" split: if_splits)
qed

lemma show_nat_nonempty [simp]: "show_nat n \<noteq> []"
  by (subst show_nat.simps) simp

lemma show_nat_no_sep: "(of_char c :: nat) < 48 \<or> 57 < (of_char c :: nat) \<Longrightarrow> c \<notin> set (show_nat n)"
  using set_show_nat by fastforce

lemma from_str_radix_show_nat: "n < 2 ^ w \<Longrightarrow> from_str_radix w 10 (show_nat n) = Some n"
proof -
  assume n: "n < 2 ^ w"
  obtain c cs where s: "show_nat n = c # cs" by (cases "show_nat n") auto
  then have "c \<noteq> CHR ''+''" using set_show_nat[of c n] by auto
  with s n show ?thesis
    using parse_digits_show_nat[of n] by (simp add: from_str_radix_def Let_def)
qed

lemma from_str_radix_bound: "from_str_radix w r s = Some n \<Longrightarrow> n < 2 ^ w"
  by (auto simp: from_str_radix_def Let_def split: option.splits if_splits)

lemma parse_u16_show_nat: "parse_u16 (show_nat (unat (p :: u16))) = Some p"
  using unat_lt[of p] by (simp add: parse_u16_def from_str_radix_show_nat)

section \<open>Lemmas on big-endian encodings\<close>

lemma length_be_bytes [simp]: "length (be_bytes k n) = k"
  by (induction k arbitrary: n) auto

lemma from_be_bytes_snoc [simp]: "from_be_bytes (bs @ [b]) = from_be_bytes bs * 256 + unat b"
  by (simp add: from_be_bytes_def)

lemma from_be_bytes_Nil [simp]: "from_be_bytes [] = 0"
  by (simp add: from_be_bytes_def)

lemma from_be_bytes_be_bytes: "from_be_bytes (be_bytes k n) = n mod 256 ^ k"
proof (induction k arbitrary: n)
  case (Suc k)
  have "n mod 256 ^ Suc k = n mod (256 * 256 ^ k)" by simp
  also have "\<dots> = 256 * (n div 256 mod 256 ^ k) + n mod 256"
    by (rule mod_mult2_eq)
  finally show ?case using Suc.IH by (simp add: unat_of_nat)
qed simp

lemma from_be_bytes_bound: "from_be_bytes bs < 256 ^ length bs"
proof (induction bs rule: rev_induct)
  case (snoc b bs)
  have "unat b < 256" using unat_lt[of b] by simp
  with snoc show ?case by simp
qed simp

lemma be_bytes_from_be_bytes: "be_bytes (length bs) (from_be_bytes bs) = bs"
proof (induction bs rule: rev_induct)
  case (snoc b bs)
  have b: "unat b < 256" using unat_lt[of b] by simp
  have d: "(from_be_bytes bs * 256 + unat b) div 256 = from_be_bytes bs" using b by simp
  have z: "(256 :: u8) = 0" by simp
  have w: "(word_of_nat (from_be_bytes bs * 256 + unat b) :: u8) = b" by (simp add: z)
  show ?case using snoc.IH d w by simp
qed simp

lemma be_bytes_unat_u64 [simp]: "from_be_bytes (be_bytes 8 (unat (x :: u64))) = unat x"
  using unat_lt[of x] by (simp add: from_be_bytes_be_bytes)

lemma be_bytes_unat_u32 [simp]: "from_be_bytes (be_bytes 4 (unat (x :: u32))) = unat x"
  using unat_lt[of x] by (simp add: from_be_bytes_be_bytes)

section \<open>Step systems\<close>

text \<open>Runs of a partial step function over a list of events, and the events allowed in each state on
  the way.  The locale is the proof obligation of an invariant: kept by every allowed step, hence by
  every allowed run.\<close>

fun run_steps :: "('s \<Rightarrow> 'e \<Rightarrow> 's option) \<Rightarrow> 's \<Rightarrow> 'e list \<Rightarrow> 's option" where
  "run_steps step s [] = Some s"
| "run_steps step s (e # es) = Option.bind (step s e) (\<lambda>s'. run_steps step s' es)"

fun run_allowed :: "('s \<Rightarrow> 'e \<Rightarrow> 's option) \<Rightarrow> ('s \<Rightarrow> 'e \<Rightarrow> bool) \<Rightarrow> 's \<Rightarrow> 'e list \<Rightarrow> bool" where
  "run_allowed step allowed s [] \<longleftrightarrow> True"
| "run_allowed step allowed s (e # es) \<longleftrightarrow> allowed s e \<and>
     (case step s e of None \<Rightarrow> True | Some s' \<Rightarrow> run_allowed step allowed s' es)"

lemma run_steps_append:
  "run_steps step s (es @ fs) = Option.bind (run_steps step s es) (\<lambda>s'. run_steps step s' fs)"
  by (induction es arbitrary: s) (auto split: Option.bind_split)

lemma run_allowed_True [simp]: "run_allowed step (\<lambda>_ _. True) s es"
  by (induction es arbitrary: s) (auto split: option.split)

lemma run_allowed_list_all:
  "list_all P es \<Longrightarrow> run_allowed step (\<lambda>_. P) s es"
  by (induction es arbitrary: s) (auto split: option.split)

locale step_invariant =
  fixes step :: "'s \<Rightarrow> 'e \<Rightarrow> 's option"
    and allowed :: "'s \<Rightarrow> 'e \<Rightarrow> bool"
    and invar :: "'s \<Rightarrow> bool"
  assumes invar_step: "invar s \<Longrightarrow> allowed s e \<Longrightarrow> step s e = Some s' \<Longrightarrow> invar s'"
begin

lemma invar_run:
  "invar s \<Longrightarrow> run_allowed step allowed s es \<Longrightarrow> run_steps step s es = Some s' \<Longrightarrow> invar s'"
proof (induction es arbitrary: s)
  case (Cons e es)
  then obtain s1 where "step s e = Some s1" "run_steps step s1 es = Some s'"
    by (auto split: Option.bind_splits)
  with Cons show ?case by (auto dest: invar_step)
qed simp

end

text \<open>A functional simulation on top of an invariant: every allowed step is a step of the abstract system
  on the abstraction of the state, hence every allowed run is a run.\<close>

locale step_simulation = step_invariant step allowed invar
  for step :: "'s \<Rightarrow> 'e \<Rightarrow> 's option" and allowed :: "'s \<Rightarrow> 'e \<Rightarrow> bool" and invar :: "'s \<Rightarrow> bool" +
  fixes astep :: "'a \<Rightarrow> 'l \<Rightarrow> 'a option"
    and abst :: "'s \<Rightarrow> 'a"
    and label :: "'e \<Rightarrow> 'l"
  assumes step_simulated: "invar s \<Longrightarrow> allowed s e \<Longrightarrow> step s e = Some s' \<Longrightarrow>
    astep (abst s) (label e) = Some (abst s')"
begin

lemma run_simulated:
  "invar s \<Longrightarrow> run_allowed step allowed s es \<Longrightarrow> run_steps step s es = Some s' \<Longrightarrow>
   run_steps astep (abst s) (map label es) = Some (abst s')"
proof (induction es arbitrary: s)
  case (Cons e es)
  then obtain s1 where s1: "step s e = Some s1" "run_steps step s1 es = Some s'"
    by (auto split: Option.bind_splits)
  with Cons.prems have "allowed s e" "run_allowed step allowed s1 es" by auto
  with Cons.prems(1) s1(1) have "invar s1" by (blast intro: invar_step)
  from Cons.IH[OF this \<open>run_allowed step allowed s1 es\<close> s1(2)] step_simulated[OF Cons.prems(1) \<open>allowed s e\<close> s1(1)] s1(1)
  show ?case by simp
qed simp

end

lemma run_allowed_append:
  "run_allowed step allowed s (es @ fs) \<longleftrightarrow> run_allowed step allowed s es \<and>
    (case run_steps step s es of None \<Rightarrow> True | Some s' \<Rightarrow> run_allowed step allowed s' fs)"
  by (induction es arbitrary: s) (auto split: option.splits Option.bind_splits)

end
