(* ===== verification/Protocol.thy ===== *)
theory Protocol
  imports Etr_Prelude
begin

text \<open>
  The wire messages of \<open>src/protocol/mod.rs\<close>: the two enumerations with their protobuf
  discriminants and one record per message, joined by the \<open>Payload\<close> sum inside \<open>Envelope\<close>.
  The protobuf encoding itself is derived by the \<open>prost\<close> crate and is a parameter of the
  theories that use it.  A \<open>HashMap\<close> field is a partial map.
\<close>

type_synonym i32 = "32 word"

datatype StreamType = Terminal | PortForward | X11

datatype ForwardProto = Tcp | Udp

text \<open>The \<open>as i32\<close> casts and the derived \<open>TryFrom<i32>\<close>.\<close>

fun stream_type_i32 :: "StreamType \<Rightarrow> i32" where
  "stream_type_i32 Terminal = 0"
| "stream_type_i32 PortForward = 1"
| "stream_type_i32 X11 = 2"

fun forward_proto_i32 :: "ForwardProto \<Rightarrow> i32" where
  "forward_proto_i32 Tcp = 0"
| "forward_proto_i32 Udp = 1"

definition forward_proto_try_from :: "i32 \<Rightarrow> ForwardProto option" where
  "forward_proto_try_from n = (if n = 0 then Some Tcp else if n = 1 then Some Udp else None)"

record SessionOpen =
  so_session_id :: bytes
  so_passkey :: string
  so_last_received_seq :: "u32 \<rightharpoonup> u64"
  so_reverse_forwards :: "string list"
  so_gateway_ports :: bool
  so_x11_enabled :: bool
  so_x11_auth_proto :: string
  so_x11_auth_cookie :: bytes

record SessionAccept =
  sa_last_received_seq :: "u32 \<rightharpoonup> u64"

record StreamOpen =
  sto_stream_id :: u32
  sto_stream_type :: i32
  sto_remote_host :: string
  sto_remote_port :: u32
  sto_forward_proto :: i32

record StreamClose =
  stc_stream_id :: u32
  stc_error_code :: u32

record TerminalResize =
  tr_rows :: u32
  tr_cols :: u32

record Heartbeat =
  hb_last_received_seq :: "u32 \<rightharpoonup> u64"

record UdpDatagram =
  dg_peer_addr :: string
  dg_peer_port :: u32
  dg_data :: bytes

datatype Payload =
    PStreamOpen StreamOpen
  | PStreamClose StreamClose
  | PTerminalResize TerminalResize
  | PHeartbeat Heartbeat
  | PDisconnect
  | PSessionOpen SessionOpen
  | PSessionAccept SessionAccept
  | PUdpDatagram UdpDatagram

record Envelope =
  payload :: "Payload option"

definition envelope_of :: "Payload \<Rightarrow> Envelope" where
  "envelope_of p = \<lparr>payload = Some p\<rparr>"

text \<open>The protobuf field number of each variant of the \<open>oneof\<close>.\<close>

fun payload_tag :: "Payload \<Rightarrow> nat" where
  "payload_tag (PStreamOpen _) = 3"
| "payload_tag (PStreamClose _) = 4"
| "payload_tag (PTerminalResize _) = 7"
| "payload_tag (PHeartbeat _) = 8"
| "payload_tag PDisconnect = 9"
| "payload_tag (PSessionOpen _) = 10"
| "payload_tag (PSessionAccept _) = 11"
| "payload_tag (PUdpDatagram _) = 12"

lemma forward_proto_round_trip [simp]: "forward_proto_try_from (forward_proto_i32 p) = Some p"
  by (cases p) (auto simp: forward_proto_try_from_def)

lemma forward_proto_try_from_Some_iff:
  "forward_proto_try_from n = Some p \<longleftrightarrow> n = forward_proto_i32 p"
  by (cases p) (auto simp: forward_proto_try_from_def)

lemma payload_of_envelope_of [simp]: "payload (envelope_of p) = Some p"
  by (simp add: envelope_of_def)

end
