(* ===== verification/Stream_State.thy ===== *)
theory Stream_State
  imports Protocol
begin

text \<open>
  \<open>src/session/stream.rs\<close>: the per-stream send history that makes replay after a reconnect
  possible.  Sequence numbers are \<open>u64\<close> and the byte counter is a 64-bit \<open>usize\<close>, both with
  wrap-around; the invariant shows that the counter never wraps.  The history is the list of a
  \<open>VecDeque\<close> from front (oldest) to back.

  The locale \<open>replay_log\<close> states what the rest of the program relies on: recording appends and
  may drop oldest entries, acknowledging drops the acknowledged front, replaying returns what is
  above the peer's watermark.  Its lemmas are proved once and interpreted on the code's operations.
\<close>

section \<open>The code\<close>

datatype StreamLifecycle = Opening | Open | Closing | Closed

definition MAX_HISTORY_BYTES :: u64 where "MAX_HISTORY_BYTES = 4 * 1024 * 1024"

type_synonym chunk = "u64 \<times> bytes"

record StreamState =
  stream_id :: u32
  stream_type :: StreamType
  next_out_seq :: u64
  next_in_seq :: u64
  send_history :: "chunk list"
  history_bytes :: u64
  lifecycle :: StreamLifecycle

definition new_stream :: "u32 \<Rightarrow> StreamType \<Rightarrow> StreamState" where
  "new_stream sid st =
     \<lparr>stream_id = sid, stream_type = st, next_out_seq = 1, next_in_seq = 1,
      send_history = [], history_bytes = 0, lifecycle = Open\<rparr>"

text \<open>The eviction loop of \<open>record_send\<close> on the history and the byte counter.\<close>

fun evict_loop :: "chunk list \<Rightarrow> u64 \<Rightarrow> chunk list \<times> u64" where
  "evict_loop [] hb = ([], hb)"
| "evict_loop ((q, evicted) # h) hb =
     (if MAX_HISTORY_BYTES < hb then evict_loop h (hb - word_of_nat (length evicted))
      else ((q, evicted) # h, hb))"

definition record_send :: "StreamState \<Rightarrow> u64 \<Rightarrow> bytes \<Rightarrow> StreamState" where
  "record_send s seq_num data =
     (let hb = history_bytes s + word_of_nat (length data);
          (h, hb') = evict_loop (send_history s @ [(seq_num, data)]) hb
      in s\<lparr>send_history := h, history_bytes := hb'\<rparr>)"

fun ack_loop :: "u64 \<Rightarrow> chunk list \<Rightarrow> u64 \<Rightarrow> chunk list \<times> u64" where
  "ack_loop ack_seq [] hb = ([], hb)"
| "ack_loop ack_seq ((q, data) # h) hb =
     (if q \<le> ack_seq then ack_loop ack_seq h (hb - word_of_nat (length data))
      else ((q, data) # h, hb))"

definition acknowledge_up_to :: "StreamState \<Rightarrow> u64 \<Rightarrow> StreamState" where
  "acknowledge_up_to s ack_seq =
     (let (h, hb) = ack_loop ack_seq (send_history s) (history_bytes s)
      in s\<lparr>send_history := h, history_bytes := hb\<rparr>)"

definition replay_from :: "StreamState \<Rightarrow> u64 \<Rightarrow> chunk list" where
  "replay_from s peer_last_received = filter (\<lambda>(q, _). peer_last_received < q) (send_history s)"

section \<open>The invariant\<close>

definition hist_total :: "chunk list \<Rightarrow> nat" where
  "hist_total h = sum_list (map (length \<circ> snd) h)"

definition hist_ok :: "StreamState \<Rightarrow> bool" where
  "hist_ok s \<longleftrightarrow> unat (history_bytes s) = hist_total (send_history s)
     \<and> history_bytes s \<le> MAX_HISTORY_BYTES"

text \<open>A \<open>Vec\<close> holds at most \<open>isize::MAX\<close> bytes.\<close>

definition vec_ok :: "bytes \<Rightarrow> bool" where
  "vec_ok d \<longleftrightarrow> length d < 2 ^ 63"

lemma hist_total_simps [simp]:
  "hist_total [] = 0" "hist_total (c # h) = length (snd c) + hist_total h" "hist_total (g @ h) = hist_total g + hist_total h"
  by (simp_all add: hist_total_def)

lemma unat_MAX [simp]: "unat MAX_HISTORY_BYTES = 4194304"
  by (simp add: MAX_HISTORY_BYTES_def)

lemma unat_sub_len: "n \<le> unat hb \<Longrightarrow> unat (hb - word_of_nat n :: u64) = unat hb - n"
proof -
  assume n: "n \<le> unat hb"
  then have "unat (word_of_nat n :: u64) = n"
    using unat_lt[of hb] by (simp add: unat_of_nat)
  with n show ?thesis by (simp add: unat_sub word_le_nat_alt)
qed

lemma unat_add_len: "unat hb + n < 2 ^ 64 \<Longrightarrow> unat (hb + word_of_nat n :: u64) = unat hb + n"
  by (simp add: unat_word_ariths unat_of_nat)

lemma evict_loop_spec:
  "unat hb = hist_total h \<Longrightarrow> evict_loop h hb = (h', hb') \<Longrightarrow>
   \<exists>g. h = g @ h' \<and> unat hb' = hist_total h' \<and> hb' \<le> MAX_HISTORY_BYTES
     \<and> (g \<noteq> [] \<longrightarrow> unat MAX_HISTORY_BYTES < hist_total (last g # h'))"
proof (induction h hb rule: evict_loop.induct)
  case (1 hb)
  then show ?case by (simp add: word_le_nat_alt)
next
  case (2 q d h hb)
  show ?case
  proof (cases "MAX_HISTORY_BYTES < hb")
    case True
    have t: "unat (hb - word_of_nat (length d)) = hist_total h"
      using "2.prems"(1) by (simp add: unat_sub_len)
    with "2.IH"[OF True t] "2.prems"(2) True obtain g where
      g: "h = g @ h'" "unat hb' = hist_total h'" "hb' \<le> MAX_HISTORY_BYTES"
        "g \<noteq> [] \<longrightarrow> unat MAX_HISTORY_BYTES < hist_total (last g # h')" by auto
    have "unat MAX_HISTORY_BYTES < length d + hist_total h"
      using True "2.prems"(1) by (simp add: word_less_nat_alt)
    then show ?thesis
      using g by (intro exI[of _ "(q, d) # g"]) (cases "g = []", auto)
  next
    case False
    then show ?thesis using "2.prems" by (intro exI[of _ "[]"]) auto
  qed
qed

lemma ack_loop_spec:
  "unat hb = hist_total h \<Longrightarrow> ack_loop a h hb = (h', hb') \<Longrightarrow>
   h' = dropWhile (\<lambda>(q, _). q \<le> a) h \<and> unat hb' = hist_total h' \<and> hb' \<le> hb"
proof (induction a h hb rule: ack_loop.induct)
  case (2 a q d h hb)
  show ?case
  proof (cases "q \<le> a")
    case True
    have t: "unat (hb - word_of_nat (length d)) = hist_total h"
      using "2.prems"(1) by (simp add: unat_sub_len)
    moreover have "hb - word_of_nat (length d) \<le> hb"
      using t "2.prems"(1) by (simp add: word_le_nat_alt)
    ultimately show ?thesis using "2.IH"[OF True t] "2.prems"(2) True by auto
  next
    case False
    then show ?thesis using "2.prems" by auto
  qed
qed simp

lemma record_send_frame [simp]:
  "stream_id (record_send s q d) = stream_id s" "next_in_seq (record_send s q d) = next_in_seq s"
  "next_out_seq (record_send s q d) = next_out_seq s" "lifecycle (record_send s q d) = lifecycle s"
  "stream_type (record_send s q d) = stream_type s"
  by (simp_all add: record_send_def Let_def split: prod.split)

lemma acknowledge_up_to_frame [simp]:
  "stream_id (acknowledge_up_to s a) = stream_id s"
  "next_in_seq (acknowledge_up_to s a) = next_in_seq s"
  "next_out_seq (acknowledge_up_to s a) = next_out_seq s"
  "lifecycle (acknowledge_up_to s a) = lifecycle s"
  "stream_type (acknowledge_up_to s a) = stream_type s"
  by (simp_all add: acknowledge_up_to_def split: prod.split)

lemma record_send_spec:
  assumes inv: "hist_ok s" and d: "vec_ok d"
  obtains g where "send_history s @ [(q, d)] = g @ send_history (record_send s q d)"
    and "hist_ok (record_send s q d)"
    and "g \<noteq> [] \<Longrightarrow> 4194304 < hist_total (last g # send_history (record_send s q d))"
proof -
  obtain h hb where e: "evict_loop (send_history s @ [(q, d)])
      (history_bytes s + word_of_nat (length d)) = (h, hb)" by fastforce
  have le: "unat (history_bytes s) \<le> 4194304"
    using inv by (simp add: hist_ok_def word_le_nat_alt)
  have "unat (history_bytes s + word_of_nat (length d)) = hist_total (send_history s @ [(q, d)])"
    using inv d le by (subst unat_add_len) (auto simp: hist_ok_def vec_ok_def)
  from evict_loop_spec[OF this e] obtain g where
    "send_history s @ [(q, d)] = g @ h" "unat hb = hist_total h" "hb \<le> MAX_HISTORY_BYTES"
    "g \<noteq> [] \<longrightarrow> unat MAX_HISTORY_BYTES < hist_total (last g # h)" by auto
  then show ?thesis
    using e by (intro that[of g]) (auto simp: record_send_def hist_ok_def)
qed

lemma acknowledge_up_to_spec:
  assumes "hist_ok s"
  shows "send_history (acknowledge_up_to s a) = dropWhile (\<lambda>(q, _). q \<le> a) (send_history s)"
    and "hist_ok (acknowledge_up_to s a)"
proof -
  obtain h hb where e: "ack_loop a (send_history s) (history_bytes s) = (h, hb)" by fastforce
  have "unat (history_bytes s) = hist_total (send_history s)" using assms by (simp add: hist_ok_def)
  from ack_loop_spec[OF this e] show
    "send_history (acknowledge_up_to s a) = dropWhile (\<lambda>(q, _). q \<le> a) (send_history s)"
    "hist_ok (acknowledge_up_to s a)"
    using e assms by (auto simp: acknowledge_up_to_def hist_ok_def)
qed

lemma hist_ok_new_stream [simp]: "hist_ok (new_stream sid st)"
  by (simp add: hist_ok_def new_stream_def MAX_HISTORY_BYTES_def)

lemma hist_ok_next_update [simp]:
  "hist_ok (s\<lparr>next_out_seq := a\<rparr>) = hist_ok s" "hist_ok (s\<lparr>next_in_seq := b\<rparr>) = hist_ok s"
  "hist_ok (s\<lparr>lifecycle := l\<rparr>) = hist_ok s"
  by (simp_all add: hist_ok_def)

section \<open>Numbered chunks\<close>

text \<open>The chunks a sender has produced, numbered from 1 as \<open>next_out_seq\<close> numbers them.\<close>

definition numbered :: "bytes list \<Rightarrow> chunk list" where
  "numbered xs = map (\<lambda>i. (word_of_nat (Suc i), xs ! i)) [0..<length xs]"

lemma length_numbered [simp]: "length (numbered xs) = length xs"
  by (simp add: numbered_def)

lemma map_snd_numbered [simp]: "map snd (numbered xs) = xs"
  by (simp add: numbered_def comp_def map_nth)

lemma nth_numbered: "i < length xs \<Longrightarrow> numbered xs ! i = (word_of_nat (Suc i), xs ! i)"
  by (simp add: numbered_def)

lemma numbered_snoc: "numbered (xs @ [x]) = numbered xs @ [(word_of_nat (Suc (length xs)), x)]"
  by (simp add: numbered_def nth_append)

lemma word_of_nat_less_iff_64:
  "m < 2 ^ 64 \<Longrightarrow> n < 2 ^ 64 \<Longrightarrow> (word_of_nat m < (word_of_nat n :: u64)) = (m < n)"
  by (simp add: word_less_nat_alt unat_of_nat)

lemma in_set_dropD: "x \<in> set (drop n xs) \<Longrightarrow> \<exists>i. n \<le> i \<and> i < length xs \<and> x = xs ! i"
proof -
  assume "x \<in> set (drop n xs)"
  then obtain i where "i < length xs - n" "x = drop n xs ! i" by (auto simp: in_set_conv_nth)
  then show ?thesis by (intro exI[of _ "n + i"]) auto
qed

lemma filter_above_eq_drop:
  assumes "length xs < 2 ^ 64 - 1" and "k \<le> length xs"
  shows "filter (\<lambda>(q, _). word_of_nat k < q) (drop j (numbered xs)) = drop (max j k) (numbered xs)"
proof -
  have above: "fst (numbered xs ! i) > word_of_nat k \<longleftrightarrow> k \<le> i" if "i < length xs" for i
    using that assms by (simp add: nth_numbered word_of_nat_less_iff_64 less_Suc_eq_le del: of_nat_Suc)
  let ?P = "\<lambda>c :: chunk. word_of_nat k < fst c"
  have eq: "drop j (numbered xs) = take (k - j) (drop j (numbered xs)) @ drop (max j k) (numbered xs)"
    using append_take_drop_id[of "k - j" "drop j (numbered xs)"]
    by (cases "j \<le> k") (simp_all add: max_def)
  have lo: "filter ?P (take (k - j) (drop j (numbered xs))) = []"
  proof -
    have "\<not> ?P c" if "c \<in> set (take (k - j) (drop j (numbered xs)))" for c
    proof -
      from that obtain i where "i + j < k" "i + j < length xs" "c = numbered xs ! (i + j)"
        by (auto simp: in_set_conv_nth less_diff_conv add.commute) blast
      then show ?thesis using above[of "i + j"] by simp
    qed
    then show ?thesis by (simp add: filter_empty_conv)
  qed
  have hi: "filter ?P (drop (max j k) (numbered xs)) = drop (max j k) (numbered xs)"
  proof -
    have "?P c" if "c \<in> set (drop (max j k) (numbered xs))" for c
    proof -
      from in_set_dropD[OF that] obtain i where "max j k \<le> i" "i < length xs" "c = numbered xs ! i"
        by auto
      then show ?thesis using above[of i] by simp
    qed
    then show ?thesis by (simp add: filter_id_conv)
  qed
  have "filter ?P (drop j (numbered xs)) = drop (max j k) (numbered xs)"
    by (subst eq) (simp only: filter_append lo hi append_Nil)
  then show ?thesis by (simp add: case_prod_unfold)
qed

lemma dropWhile_eq_filter:
  "sorted_wrt (\<lambda>x y. P y \<longrightarrow> P x) xs \<Longrightarrow> dropWhile P xs = filter (\<lambda>x. \<not> P x) xs"
proof (induction xs)
  case (Cons x xs)
  then show ?case by (cases "P x") (auto intro: filter_True[symmetric])
qed simp

definition increasing :: "chunk list \<Rightarrow> bool" where
  "increasing h \<longleftrightarrow> sorted_wrt (\<lambda>c d. fst c < fst d) h"

lemma increasing_numbered: "length xs < 2 ^ 64 - 1 \<Longrightarrow> increasing (numbered xs)"
  by (auto simp: increasing_def sorted_wrt_iff_nth_less nth_numbered word_of_nat_less_iff_64
      simp del: of_nat_Suc)

lemma increasing_drop: "increasing h \<Longrightarrow> increasing (drop n h)"
  by (simp add: increasing_def sorted_wrt_drop)

lemma dropWhile_acked: "increasing h \<Longrightarrow>
    dropWhile (\<lambda>(q, _). q \<le> a) h = filter (\<lambda>(q, _). a < q) h"
  unfolding increasing_def
  by (subst dropWhile_eq_filter)
    (auto elim!: sorted_wrt_mono_rel[rotated] simp: case_prod_unfold not_le)

section \<open>The replay-log interface\<close>

locale replay_log =
  fixes record_op :: "'s \<Rightarrow> u64 \<Rightarrow> bytes \<Rightarrow> 's"
    and ack_op :: "'s \<Rightarrow> u64 \<Rightarrow> 's"
    and replay_op :: "'s \<Rightarrow> u64 \<Rightarrow> chunk list"
    and log :: "'s \<Rightarrow> chunk list"
    and invar :: "'s \<Rightarrow> bool"
    and fits :: "bytes \<Rightarrow> bool"
    and capacity :: nat
  assumes log_record: "invar s \<Longrightarrow> fits d \<Longrightarrow> suffix (log (record_op s q d)) (log s @ [(q, d)])"
    and log_record_room: "invar s \<Longrightarrow> fits d \<Longrightarrow> hist_total (log s @ [(q, d)]) \<le> capacity
          \<Longrightarrow> log (record_op s q d) = log s @ [(q, d)]"
    and log_record_bound: "invar s \<Longrightarrow> fits d \<Longrightarrow> hist_total (log (record_op s q d)) \<le> capacity"
    and log_ack: "invar s \<Longrightarrow> log (ack_op s a) = dropWhile (\<lambda>(q, _). q \<le> a) (log s)"
    and replay_log_eq: "replay_op s w = filter (\<lambda>(q, _). w < q) (log s)"
    and invar_record: "invar s \<Longrightarrow> fits d \<Longrightarrow> invar (record_op s q d)"
    and invar_ack: "invar s \<Longrightarrow> invar (ack_op s a)"
begin

text \<open>Acknowledging up to \<open>a\<close> never changes what a peer with a watermark of at least \<open>a\<close> is
  replayed.\<close>

lemma replay_after_ack:
  assumes "invar s" and "increasing (log s)" and "a \<le> w"
  shows "replay_op (ack_op s a) w = replay_op s w"
proof -
  have "filter (\<lambda>(q, _). w < q) (filter (\<lambda>(q, _). a < q) (log s)) = filter (\<lambda>(q, _). w < q) (log s)"
    using assms(3) by (auto simp: filter_filter case_prod_unfold intro!: filter_cong)
  then show ?thesis
    using assms by (simp add: replay_log_eq log_ack dropWhile_acked)
qed

text \<open>A log tracks what was sent when it is the numbered list without its first \<open>j\<close> entries.\<close>

lemma tracks_record:
  assumes "invar s" and "fits d" and "j \<le> length sent" and "log s = drop j (numbered sent)"
  obtains j' where "j \<le> j'" and "j' \<le> Suc (length sent)"
    and "log (record_op s (word_of_nat (Suc (length sent))) d) = drop j' (numbered (sent @ [d]))"
proof -
  let ?q = "word_of_nat (Suc (length sent)) :: u64"
  have eq: "log s @ [(?q, d)] = drop j (numbered (sent @ [d]))"
    using assms(3,4) by (simp add: numbered_snoc)
  from log_record[OF assms(1,2), of ?q] obtain n where
    n: "log (record_op s ?q d) = drop n (drop j (numbered (sent @ [d])))"
    unfolding eq by (metis suffix_def append_eq_conv_conj)
  show ?thesis
  proof (rule that[of "min (n + j) (Suc (length sent))"])
    show "log (record_op s ?q d) = drop (min (n + j) (Suc (length sent))) (numbered (sent @ [d]))"
      using n by (simp add: min_def)
  qed (use assms(3) in auto)
qed

lemma tracks_record_room:
  assumes "invar s" and "fits d" and "j \<le> length sent" and "log s = drop j (numbered sent)"
    and "hist_total (log s) + length d \<le> capacity"
  shows "log (record_op s (word_of_nat (Suc (length sent))) d) = drop j (numbered (sent @ [d]))"
  using assms log_record_room[OF assms(1,2), of "word_of_nat (Suc (length sent))"]
  by (simp add: numbered_snoc)

lemma tracks_ack:
  assumes "invar s" and "length sent < 2 ^ 64 - 1" and "k \<le> length sent"
    and "log s = drop j (numbered sent)"
  shows "log (ack_op s (word_of_nat k)) = drop (max j k) (numbered sent)"
  using assms
  by (simp add: log_ack dropWhile_acked increasing_drop increasing_numbered filter_above_eq_drop)

text \<open>A peer that has received the first \<open>k\<close> chunks is replayed exactly the missing ones, as
  long as none of them was evicted.\<close>

lemma replay_missing:
  assumes "length sent < 2 ^ 64 - 1" and "k \<le> length sent" and "log s = drop j (numbered sent)"
  shows "replay_op s (word_of_nat k) = drop (max j k) (numbered sent)"
  using assms by (simp add: replay_log_eq filter_above_eq_drop)

end

lemma record_send_room:
  assumes "hist_ok s" and "vec_ok d" and "hist_total (send_history s @ [(q, d)]) \<le> 4194304"
  shows "send_history (record_send s q d) = send_history s @ [(q, d)]"
proof -
  obtain g where g: "send_history s @ [(q, d)] = g @ send_history (record_send s q d)"
    "g \<noteq> [] \<Longrightarrow> 4194304 < hist_total (last g # send_history (record_send s q d))"
    using record_send_spec[OF assms(1,2)] by metis
  have "g = []"
  proof (rule ccontr)
    assume ne: "g \<noteq> []"
    then obtain f x where f: "g = f @ [x]" by (cases g rule: rev_cases) auto
    have "hist_total (send_history s @ [(q, d)]) = hist_total (g @ send_history (record_send s q d))"
      by (simp only: g(1))
    with g(2)[OF ne] assms(3) show False by (simp add: f)
  qed
  with g(1) show ?thesis by simp
qed

lemma hist_ok_total: "hist_ok s \<Longrightarrow> hist_total (send_history s) \<le> 4194304"
  by (simp add: hist_ok_def word_le_nat_alt)

interpretation hist: replay_log record_send acknowledge_up_to replay_from send_history hist_ok
    vec_ok 4194304
proof unfold_locales
  fix s d q assume inv: "hist_ok s" and d: "vec_ok d"
  obtain g where "send_history s @ [(q, d)] = g @ send_history (record_send s q d)"
    and ok: "hist_ok (record_send s q d)"
    using record_send_spec[OF inv d] by metis
  then show "suffix (send_history (record_send s q d)) (send_history s @ [(q, d)])"
    by (auto simp: suffix_def)
  show "hist_ok (record_send s q d)" by (fact ok)
  show "hist_total (send_history (record_send s q d)) \<le> 4194304" using ok by (rule hist_ok_total)
qed (auto simp: record_send_room acknowledge_up_to_spec replay_from_def)

section \<open>Properties\<close>

text \<open>C16 (invariant): \<open>record_send\<close> keeps the byte counter equal to the size of the history and
  at most 4 MiB, without wrap-around, and evicts as little as possible: it drops entries from the
  front only, and the last one dropped did not fit beside the rest.\<close>

theorem record_send_retains:
  assumes "hist_ok s" and "vec_ok d"
  shows "hist_ok (record_send s q d) \<and>
    (\<exists>g. send_history s @ [(q, d)] = g @ send_history (record_send s q d) \<and>
       (g \<noteq> [] \<longrightarrow> unat MAX_HISTORY_BYTES < hist_total (last g # send_history (record_send s q d))))"
  using record_send_spec[OF assms] by (metis unat_MAX)

theorem record_send_retains_witness:
  "hist_ok (record_send (new_stream 0 Terminal) 1 [65, 66]) \<and>
    (\<exists>g. send_history (new_stream 0 Terminal) @ [(1, [65, 66])] =
         g @ send_history (record_send (new_stream 0 Terminal) 1 [65, 66]) \<and>
       (g \<noteq> [] \<longrightarrow> unat MAX_HISTORY_BYTES <
          hist_total (last g # send_history (record_send (new_stream 0 Terminal) 1 [65, 66]))))"
  by (rule record_send_retains) (simp_all add: vec_ok_def)

text \<open>C17 (functional): on a history with increasing sequence numbers, acknowledging up to \<open>a\<close>
  removes exactly the entries numbered at most \<open>a\<close>, keeps the byte counter exact, and does not
  change the replay of any peer whose watermark is at least \<open>a\<close>.\<close>

theorem acknowledge_up_to_correct:
  assumes "hist_ok s" and "increasing (send_history s)"
  shows "send_history (acknowledge_up_to s a) = filter (\<lambda>(q, _). a < q) (send_history s)
    \<and> hist_ok (acknowledge_up_to s a)
    \<and> (\<forall>w. a \<le> w \<longrightarrow> replay_from (acknowledge_up_to s a) w = replay_from s w)"
  using assms by (simp add: acknowledge_up_to_spec dropWhile_acked hist.replay_after_ack)

theorem acknowledge_up_to_correct_witness:
  "let s = record_send (record_send (new_stream 0 Terminal) 1 [65]) 2 [66]
   in send_history (acknowledge_up_to s 1) = filter (\<lambda>(q, _). 1 < q) (send_history s)
    \<and> hist_ok (acknowledge_up_to s 1)
    \<and> (\<forall>w. 1 \<le> w \<longrightarrow> replay_from (acknowledge_up_to s 1) w = replay_from s w)"
proof -
  let ?s = "record_send (record_send (new_stream 0 Terminal) 1 [65]) 2 [66]"
  have ok: "hist_ok ?s" by (intro hist.invar_record) (simp_all add: vec_ok_def)
  have inc: "increasing (send_history ?s)"
    by (simp add: record_send_def new_stream_def increasing_def MAX_HISTORY_BYTES_def)
  show ?thesis unfolding Let_def by (rule acknowledge_up_to_correct[OF ok inc])
qed

end
