(* ===== verification/Session_State.thy ===== *)
theory Session_State
  imports Stream_State
begin

text \<open>
  \<open>src/session/mod.rs\<close>: the state of a session across reconnects, a map from stream ids to
  streams.  A Rust \<open>HashMap\<close> is a partial map; where the code iterates over one, the model's
  pointwise definition is shown to be what the loop computes in every iteration order.
\<close>

record SessionState =
  session_id :: bytes
  passkey :: string
  streams :: "u32 \<rightharpoonup> StreamState"

definition new_session :: "bytes \<Rightarrow> string \<Rightarrow> SessionState" where
  "new_session sid pk =
     \<lparr>session_id = sid, passkey = pk, streams = Map.empty(0 \<mapsto> new_stream 0 Terminal)\<rparr>"

text \<open>\<open>open_stream\<close> returns a mutable reference to the entry: here the new session and the
  stream stored in it.\<close>

definition open_stream :: "SessionState \<Rightarrow> u32 \<Rightarrow> StreamType \<Rightarrow> SessionState \<times> StreamState" where
  "open_stream st i ty =
     (case streams st i of
        Some s \<Rightarrow> (st, s)
      | None \<Rightarrow> (let s = new_stream i ty in (st\<lparr>streams := (streams st)(i \<mapsto> s)\<rparr>, s)))"

definition stream :: "SessionState \<Rightarrow> u32 \<Rightarrow> StreamState option" where
  "stream st i = streams st i"

text \<open>\<open>stream_mut\<close> followed by an update through the reference.\<close>

definition stream_mut :: "SessionState \<Rightarrow> u32 \<Rightarrow> (StreamState \<Rightarrow> StreamState) \<Rightarrow> SessionState" where
  "stream_mut st i f =
     (case streams st i of
        None \<Rightarrow> st
      | Some s \<Rightarrow> st\<lparr>streams := (streams st)(i \<mapsto> f s)\<rparr>)"

definition close_stream :: "SessionState \<Rightarrow> u32 \<Rightarrow> SessionState" where
  "close_stream st i =
     (case streams st i of
        None \<Rightarrow> st
      | Some s \<Rightarrow> st\<lparr>streams := (streams st)(i \<mapsto> s\<lparr>lifecycle := Closed\<rparr>)\<rparr>)"

text \<open>\<open>next_in_seq.checked_sub(1)?\<close> inside the \<open>filter_map\<close>.\<close>

definition checked_pred :: "u64 \<Rightarrow> u64 option" where
  "checked_pred n = (if n = 0 then None else Some (n - 1))"

definition last_received_map :: "SessionState \<Rightarrow> (u32 \<rightharpoonup> u64)" where
  "last_received_map st = (\<lambda>i. Option.bind (streams st i) (\<lambda>s. checked_pred (next_in_seq s)))"

text \<open>The loop of \<open>apply_server_acks\<close> over the entries in some iteration order, and the map it
  computes.\<close>

fun apply_server_acks_loop :: "SessionState \<Rightarrow> (u32 \<times> u64) list \<Rightarrow> SessionState" where
  "apply_server_acks_loop st [] = st"
| "apply_server_acks_loop st ((i, a) # rest) =
     apply_server_acks_loop (stream_mut st i (\<lambda>s. acknowledge_up_to s a)) rest"

definition apply_server_acks :: "SessionState \<Rightarrow> (u32 \<rightharpoonup> u64) \<Rightarrow> SessionState" where
  "apply_server_acks st acks =
     st\<lparr>streams := (\<lambda>i. map_option (\<lambda>s. case acks i of
                          None \<Rightarrow> s | Some a \<Rightarrow> acknowledge_up_to s a) (streams st i))\<rparr>"

definition collect_replays :: "SessionState \<Rightarrow> (u32 \<rightharpoonup> u64) \<Rightarrow> (u32 \<rightharpoonup> chunk list)" where
  "collect_replays st peer =
     (\<lambda>i. Option.bind (streams st i) (\<lambda>s.
        let last = (case peer i of None \<Rightarrow> 0 | Some q \<Rightarrow> q);
            replays = replay_from s last
        in if replays = [] then None else Some replays))"

section \<open>Uses of stream 0\<close>

text \<open>The sender side of stream 0, in the PTY reader of \<open>etrs\<close> and the stdin task of \<open>etr\<close>:
  take \<open>next_out_seq\<close>, advance it, record the chunk.  \<open>None\<close> is the panic of
  \<open>expect("stream 0 always exists")\<close>.\<close>

definition send_chunk :: "SessionState \<Rightarrow> bytes \<Rightarrow> (u64 \<times> SessionState) option" where
  "send_chunk st data =
     (case streams st 0 of
        None \<Rightarrow> None
      | Some s \<Rightarrow>
          (let sq = next_out_seq s
           in Some (sq, stream_mut st 0
                (\<lambda>s. record_send (s\<lparr>next_out_seq := next_out_seq s + 1\<rparr>) sq data))))"

text \<open>The receiver side of stream 0, in both PTY reader tasks.\<close>

definition receive_chunk :: "SessionState \<Rightarrow> u64 \<Rightarrow> SessionState" where
  "receive_chunk st sq = stream_mut st 0 (\<lambda>s. s\<lparr>next_in_seq := sq + 1\<rparr>)"

text \<open>Only receiving moves the watermarks.\<close>

lemma next_in_acknowledge [simp]: "next_in_seq (acknowledge_up_to s a) = next_in_seq s"
  by (simp add: acknowledge_up_to_def Let_def split: prod.split)

lemma last_received_acks [simp]: "last_received_map (apply_server_acks st acks) = last_received_map st"
  by (rule ext) (auto simp: last_received_map_def apply_server_acks_def split: option.splits Option.bind_splits)

lemma next_in_record [simp]: "next_in_seq (record_send s q d) = next_in_seq s"
  by (simp add: record_send_def Let_def split: prod.split)

lemma last_received_send: "send_chunk st d = Some (q, st') \<Longrightarrow> last_received_map st' = last_received_map st"
  by (rule ext) (auto simp: send_chunk_def stream_mut_def last_received_map_def Let_def split: option.splits)

section \<open>Well-formed sessions\<close>

definition session_ok :: "SessionState \<Rightarrow> bool" where
  "session_ok st \<longleftrightarrow> streams st 0 \<noteq> None
     \<and> (\<forall>i s. streams st i = Some s \<longrightarrow> stream_id s = i \<and> hist_ok s)"

lemma session_ok_stream: "session_ok st \<Longrightarrow> streams st i = Some s \<Longrightarrow> hist_ok s \<and> stream_id s = i"
  by (simp add: session_ok_def)

lemma session_ok_new: "session_ok (new_session sid pk)"
  by (auto simp: session_ok_def new_session_def new_stream_def hist_ok_def MAX_HISTORY_BYTES_def
      split: if_splits)

lemma session_ok_stream_mut:
  assumes "session_ok st" and "\<And>s. hist_ok s \<Longrightarrow> hist_ok (f s) \<and> stream_id (f s) = stream_id s"
  shows "session_ok (stream_mut st i f)"
  using assms by (auto simp: session_ok_def stream_mut_def split: option.splits if_splits)

lemma session_ok_open: "session_ok st \<Longrightarrow> session_ok (fst (open_stream st i ty))"
  by (auto simp: session_ok_def open_stream_def Let_def new_stream_def hist_ok_def
      MAX_HISTORY_BYTES_def split: option.splits if_splits)

lemma session_ok_close: "session_ok st \<Longrightarrow> session_ok (close_stream st i)"
  by (auto simp: session_ok_def close_stream_def hist_ok_def split: option.splits if_splits)

lemma session_ok_acks: "session_ok st \<Longrightarrow> session_ok (apply_server_acks st acks)"
  by (auto simp: session_ok_def apply_server_acks_def acknowledge_up_to_spec split: option.splits)

lemma session_ok_receive: "session_ok st \<Longrightarrow> session_ok (receive_chunk st sq)"
  unfolding receive_chunk_def by (rule session_ok_stream_mut) auto

lemma send_chunk_Some:
  assumes "session_ok st"
  obtains s where "streams st 0 = Some s"
    and "send_chunk st d = Some (next_out_seq s,
      st\<lparr>streams := (streams st)(0 \<mapsto> record_send (s\<lparr>next_out_seq := next_out_seq s + 1\<rparr>) (next_out_seq s) d)\<rparr>)"
  using assms by (auto simp: session_ok_def send_chunk_def stream_mut_def Let_def)

lemma session_ok_send:
  assumes "session_ok st" and "vec_ok d" and "send_chunk st d = Some (q, st')"
  shows "session_ok st'"
proof -
  obtain s where s: "streams st 0 = Some s"
    "send_chunk st d = Some (next_out_seq s,
      st\<lparr>streams := (streams st)(0 \<mapsto> record_send (s\<lparr>next_out_seq := next_out_seq s + 1\<rparr>) (next_out_seq s) d)\<rparr>)"
    using assms(1) by (rule send_chunk_Some)
  have "hist_ok (record_send (s\<lparr>next_out_seq := next_out_seq s + 1\<rparr>) (next_out_seq s) d)"
    using assms(1,2) s(1) by (intro hist.invar_record) (auto dest: session_ok_stream)
  with assms s show ?thesis by (auto simp: session_ok_def split: if_splits)
qed

lemma stream_mut_twice:
  "i \<noteq> j \<Longrightarrow> stream_mut (stream_mut st i f) j g = stream_mut (stream_mut st j g) i f"
  by (auto simp: stream_mut_def fun_upd_twist split: option.splits)

lemma apply_server_acks_loop_eq:
  assumes "distinct (map fst es)" and "map_of es = acks"
  shows "apply_server_acks_loop st es = apply_server_acks st acks"
  using assms
proof (induction es arbitrary: st acks)
  case Nil
  then have "acks = Map.empty" by simp
  then show ?case by (simp add: apply_server_acks_def option.map_ident)
next
  case (Cons e es)
  obtain i a where e: "e = (i, a)" by (cases e)
  have ni: "map_of es i = None" using Cons.prems(1) by (simp add: e map_of_eq_None_iff)
  have "apply_server_acks_loop st (e # es) =
      apply_server_acks (stream_mut st i (\<lambda>s. acknowledge_up_to s a)) (map_of es)"
    using Cons.IH[of "map_of es"] Cons.prems by (simp add: e)
  also have "\<dots> = apply_server_acks st acks"
  proof (rule SessionState.equality)
    have acks: "acks = (map_of es)(i \<mapsto> a)" using Cons.prems(2) by (auto simp: e)
    show "streams (apply_server_acks (stream_mut st i (\<lambda>s. acknowledge_up_to s a)) (map_of es)) =
        streams (apply_server_acks st acks)"
      using ni by (auto simp: acks apply_server_acks_def stream_mut_def split: option.split)
  qed (simp_all add: apply_server_acks_def stream_mut_def split: option.split)
  finally show ?case .
qed

section \<open>Runs of session operations\<close>

datatype session_op =
    SendChunk bytes | ReceiveChunk u64 | ApplyAcks "u32 \<rightharpoonup> u64"
  | OpenStream u32 StreamType | CloseStream u32

fun session_step :: "SessionState \<Rightarrow> session_op \<Rightarrow> SessionState option" where
  "session_step st (SendChunk d) = map_option snd (send_chunk st d)"
| "session_step st (ReceiveChunk q) = Some (receive_chunk st q)"
| "session_step st (ApplyAcks m) = Some (apply_server_acks st m)"
| "session_step st (OpenStream i ty) = Some (fst (open_stream st i ty))"
| "session_step st (CloseStream i) = Some (close_stream st i)"

fun session_run :: "SessionState \<Rightarrow> session_op list \<Rightarrow> SessionState option" where
  "session_run st [] = Some st"
| "session_run st (x # xs) = Option.bind (session_step st x) (\<lambda>st'. session_run st' xs)"

fun op_vec_ok :: "session_op \<Rightarrow> bool" where
  "op_vec_ok (SendChunk d) = vec_ok d"
| "op_vec_ok _ = True"

lemma session_step_ok:
  assumes "session_ok st" and "op_vec_ok x"
  shows "\<exists>st'. session_step st x = Some st' \<and> session_ok st'"
proof (cases x)
  case (SendChunk d)
  obtain s where "send_chunk st d = Some (next_out_seq s,
      st\<lparr>streams := (streams st)(0 \<mapsto> record_send (s\<lparr>next_out_seq := next_out_seq s + 1\<rparr>) (next_out_seq s) d)\<rparr>)"
    using send_chunk_Some[OF assms(1)] by metis
  with SendChunk assms show ?thesis by (auto dest: session_ok_send)
qed (use assms in \<open>auto simp: session_ok_receive session_ok_acks session_ok_open session_ok_close\<close>)

lemma session_run_ok:
  "session_ok st \<Longrightarrow> list_all op_vec_ok xs \<Longrightarrow> \<exists>st'. session_run st xs = Some st' \<and> session_ok st'"
  by (induction xs arbitrary: st) (auto dest: session_step_ok)

section \<open>Properties\<close>

text \<open>C37 (type): from a new session, no sequence of sends, receives, acknowledgements, stream
  openings and closings reaches the panic "stream 0 always exists", and every reachable session
  has stream 0, has each stream filed under its own id, and has every history bounded by 4 MiB with
  an exact byte counter.\<close>

theorem session_never_panics:
  assumes "list_all op_vec_ok ops"
  shows "\<exists>st. session_run (new_session sid pk) ops = Some st \<and> session_ok st"
  using session_run_ok[OF session_ok_new assms] .

theorem session_never_panics_witness:
  "\<exists>st. session_run (new_session [1, 2] ''key'')
     [SendChunk [65], CloseStream 0, ApplyAcks [0 \<mapsto> 7], SendChunk [66], OpenStream 3 PortForward] = Some st
     \<and> session_ok st"
  by (rule session_never_panics) (simp add: vec_ok_def)

text \<open>(equivalence): whatever order the \<open>HashMap\<close> of acknowledgements is iterated in, the loop of
  \<open>apply_server_acks\<close> computes the same session: each stream acknowledged up to its own entry,
  unknown stream ids ignored.\<close>

theorem apply_server_acks_any_order:
  assumes "distinct (map fst entries)" and "map_of entries = acks"
  shows "apply_server_acks_loop st entries = apply_server_acks st acks"
  using assms by (rule apply_server_acks_loop_eq)

theorem apply_server_acks_any_order_witness:
  "apply_server_acks_loop (new_session [] []) [(0, 3), (5, 100)] =
     apply_server_acks (new_session [] []) [0 \<mapsto> 3, 5 \<mapsto> 100]"
  by (rule apply_server_acks_any_order) (auto simp: fun_eq_iff)

end
