(* ===== verification/Fifo_Spec.thy ===== *)
theory Fifo_Spec
  imports Etr_Prelude
begin

text \<open>
  What a stream of the program promises, with no connections, sequence numbers, histories or
  acknowledgements: a queue that sending extends and receiving shortens.  \<open>Hidden\<close> stands for everything
  else the program does.  \<open>Delivery\<close> and \<open>Duplex\<close> refine it.
\<close>

record fifo =
  queue :: "bytes list"
  received :: "bytes list"

definition empty_fifo :: fifo where
  "empty_fifo = \<lparr>queue = [], received = []\<rparr>"

datatype fifo_op = Send bytes | Recv | Hidden

fun fifo_step :: "fifo \<Rightarrow> fifo_op \<Rightarrow> fifo option" where
  "fifo_step f (Send d) = Some (f\<lparr>queue := queue f @ [d]\<rparr>)"
| "fifo_step f Recv =
     (case queue f of [] \<Rightarrow> None | d # ds \<Rightarrow> Some (f\<lparr>queue := ds, received := received f @ [d]\<rparr>))"
| "fifo_step f Hidden = Some f"

text \<open>The queue after \<open>n\<close> of the chunks sent have been received.\<close>

definition fifo_at :: "bytes list \<Rightarrow> nat \<Rightarrow> fifo" where
  "fifo_at sent n = \<lparr>queue = drop n sent, received = take n sent\<rparr>"

lemma fifo_at_Nil [simp]: "fifo_at [] n = empty_fifo"
  by (simp add: fifo_at_def empty_fifo_def)

lemma fifo_at_send: "n \<le> length sent \<Longrightarrow> fifo_step (fifo_at sent n) (Send d) = Some (fifo_at (sent @ [d]) n)"
  by (simp add: fifo_at_def)

lemma fifo_at_recv: "n < length sent \<Longrightarrow> fifo_step (fifo_at sent n) Recv = Some (fifo_at sent (Suc n))"
  by (simp add: fifo_at_def Cons_nth_drop_Suc[symmetric] take_Suc_conv_app_nth)

text \<open>A queue that starts empty gives out a prefix of what was put in, and holds the rest.\<close>

fun sends :: "fifo_op list \<Rightarrow> bytes list" where
  "sends [] = []"
| "sends (Send d # ops) = d # sends ops"
| "sends (_ # ops) = sends ops"

lemma fifo_run_conserves:
  "run_steps fifo_step f ops = Some f' \<Longrightarrow> received f' @ queue f' = received f @ queue f @ sends ops"
proof (induction ops arbitrary: f)
  case (Cons a ops)
  then obtain f1 where f1: "fifo_step f a = Some f1" "run_steps fifo_step f1 ops = Some f'"
    by (auto split: Option.bind_splits)
  then have "received f1 @ queue f1 @ sends ops = received f @ queue f @ sends (a # ops)"
    by (cases a) (auto split: list.splits)
  with Cons.IH[OF f1(2)] show ?case by simp
qed simp

end
