(* ===== verification/Delivery.thy ===== *)
theory Delivery
  imports Session_State Fifo_Spec "HOL-Library.Sublist"
begin

text \<open>
  Delivery of stream 0 across reconnects: how \<open>run_session\<close> of \<open>src/bin/etr.rs\<close> and
  \<open>handle_connection\<close> of \<open>src/bin/etrs.rs\<close> use the two sessions.  A link has a sending and a
  receiving session, the chunks in flight on the PTY stream, the heartbeat acknowledgements in
  flight on the control stream, whether the sender has a live connection, and two ghosts: the
  chunks produced and the numbered chunks handed on.

  The direction from client to server is modelled as it runs: the stdin task records and writes
  only while connected, and a reconnect replays before the stdin task starts.  An event is one
  task step; the interleaving is an arbitrary sequence of events.
\<close>

section \<open>The link\<close>

record link =
  sender :: SessionState
  receiver :: SessionState
  on_wire :: "chunk list"
  acks_on_wire :: "(u32 \<rightharpoonup> u64) list"
  up :: bool
  produced :: "bytes list"
  delivered :: "chunk list"

definition new_link :: "bytes \<Rightarrow> string \<Rightarrow> link" where
  "new_link sid pk =
     \<lparr>sender = new_session sid pk, receiver = new_session sid pk, on_wire = [], acks_on_wire = [],
      up = False, produced = [], delivered = []\<rparr>"

text \<open>\<open>produce\<close>: the stdin task of the client takes a sequence number, records the chunk and
  writes it.  \<open>deliver\<close>: the PTY reader of the server advances \<open>next_in_seq\<close> and hands the chunk
  to the PTY.  \<open>deliver_aborted\<close>: the reader is aborted by the end of the connection at the await
  between the two.  \<open>hb_send\<close>, \<open>hb_recv\<close>: the heartbeat task of the receiver and the control
  reader of the sender.  \<open>lose\<close>: the connection dies; some prefix of what is in flight still
  arrives.  \<open>reconnect\<close>: the handshake, after which nothing of the old connection arrives.\<close>

definition produce :: "link \<Rightarrow> bytes \<Rightarrow> link option" where
  "produce l d =
     (if \<not> up l then None
      else (case send_chunk (sender l) d of
              None \<Rightarrow> None
            | Some (q, st) \<Rightarrow>
                Some (l\<lparr>sender := st, on_wire := on_wire l @ [(q, d)], produced := produced l @ [d]\<rparr>)))"

definition deliver :: "link \<Rightarrow> link option" where
  "deliver l =
     (case on_wire l of
        [] \<Rightarrow> None
      | (q, d) # w \<Rightarrow>
          Some (l\<lparr>receiver := receive_chunk (receiver l) q, on_wire := w,
                  delivered := delivered l @ [(q, d)]\<rparr>))"

definition deliver_aborted :: "link \<Rightarrow> link option" where
  "deliver_aborted l =
     (case on_wire l of
        [] \<Rightarrow> None
      | (q, d) # w \<Rightarrow>
          Some (l\<lparr>receiver := receive_chunk (receiver l) q, on_wire := [], acks_on_wire := [], up := False\<rparr>))"

definition hb_send :: "link \<Rightarrow> link option" where
  "hb_send l = Some (l\<lparr>acks_on_wire := acks_on_wire l @ [last_received_map (receiver l)]\<rparr>)"

definition hb_recv :: "link \<Rightarrow> link option" where
  "hb_recv l =
     (case acks_on_wire l of
        [] \<Rightarrow> None
      | m # ms \<Rightarrow> Some (l\<lparr>sender := apply_server_acks (sender l) m, acks_on_wire := ms\<rparr>))"

definition lose :: "link \<Rightarrow> nat \<Rightarrow> nat \<Rightarrow> link option" where
  "lose l a b =
     Some (l\<lparr>up := False, on_wire := take a (on_wire l), acks_on_wire := take b (acks_on_wire l)\<rparr>)"

definition reconnect :: "link \<Rightarrow> link option" where
  "reconnect l =
     (if up l then None
      else (let server_acks = last_received_map (receiver l);
                st = apply_server_acks (sender l) server_acks;
                replays = (case collect_replays st server_acks 0 of None \<Rightarrow> [] | Some cs \<Rightarrow> cs)
            in Some (l\<lparr>sender := st, on_wire := replays, acks_on_wire := [], up := True\<rparr>)))"

datatype link_event =
  Produce bytes | Deliver | DeliverAborted | HbSend | HbRecv | Lose nat nat | Reconnect

fun link_step :: "link \<Rightarrow> link_event \<Rightarrow> link option" where
  "link_step l (Produce d) = produce l d"
| "link_step l Deliver = deliver l"
| "link_step l DeliverAborted = deliver_aborted l"
| "link_step l HbSend = hb_send l"
| "link_step l HbRecv = hb_recv l"
| "link_step l (Lose a b) = lose l a b"
| "link_step l Reconnect = reconnect l"

abbreviation link_run :: "link \<Rightarrow> link_event list \<Rightarrow> link option" where
  "link_run \<equiv> run_steps link_step"

text \<open>Which events are considered: fewer than \<open>2 ^ 64 - 2\<close> chunks, so that no sequence number
  wraps; and, in a lossless run, no eviction from the send history (at most 4 MiB unacknowledged)
  and no abort between receiving a chunk and handing it on.\<close>

definition unacked_bytes :: "link \<Rightarrow> nat" where
  "unacked_bytes l = (case streams (sender l) 0 of None \<Rightarrow> 0 | Some s \<Rightarrow> hist_total (send_history s))"

fun permitted :: "bool \<Rightarrow> link \<Rightarrow> link_event \<Rightarrow> bool" where
  "permitted lossless l (Produce d) \<longleftrightarrow> vec_ok d \<and> length (produced l) < 2 ^ 64 - 3
     \<and> (lossless \<longrightarrow> unacked_bytes l + length d \<le> unat MAX_HISTORY_BYTES)"
| "permitted lossless l DeliverAborted \<longleftrightarrow> \<not> lossless"
| "permitted lossless l _ \<longleftrightarrow> True"

inductive reachable :: "bool \<Rightarrow> link \<Rightarrow> bool" for lossless where
  init: "reachable lossless (new_link sid pk)"
| step: "reachable lossless l \<Longrightarrow> permitted lossless l e \<Longrightarrow> link_step l e = Some l'
     \<Longrightarrow> reachable lossless l'"

section \<open>The invariant\<close>

text \<open>\<open>j\<close> chunks have left the send history, the receiver's watermark is \<open>k\<close>, the wire holds
  at most \<open>n\<close> chunks from position \<open>m\<close> on, and no acknowledgement in flight is ahead of the
  watermark.\<close>

definition sender_at :: "link \<Rightarrow> StreamState \<Rightarrow> nat \<Rightarrow> bool" where
  "sender_at l s j \<longleftrightarrow>
     session_ok (sender l) \<and> streams (sender l) 0 = Some s
     \<and> length (produced l) < 2 ^ 64 - 2
     \<and> next_out_seq s = word_of_nat (Suc (length (produced l)))
     \<and> j \<le> length (produced l) \<and> send_history s = drop j (numbered (produced l))"

definition receiver_at :: "link \<Rightarrow> StreamState \<Rightarrow> nat \<Rightarrow> bool" where
  "receiver_at l r k \<longleftrightarrow>
     streams (receiver l) 0 = Some r \<and> next_in_seq r = word_of_nat (Suc k)
     \<and> subseq (delivered l) (take k (numbered (produced l)))"

definition wire_at :: "link \<Rightarrow> nat \<Rightarrow> nat \<Rightarrow> nat \<Rightarrow> bool" where
  "wire_at l k m n \<longleftrightarrow>
     k \<le> m \<and> m \<le> length (produced l) \<and> on_wire l = take n (drop m (numbered (produced l)))
     \<and> (up l \<longrightarrow> length (produced l) \<le> m + n)"

definition acks_at :: "link \<Rightarrow> nat \<Rightarrow> bool" where
  "acks_at l k \<longleftrightarrow> (\<forall>acks \<in> set (acks_on_wire l). \<exists>a \<le> k. acks 0 = Some (word_of_nat a))"

definition exact_at :: "link \<Rightarrow> nat \<Rightarrow> nat \<Rightarrow> nat \<Rightarrow> bool" where
  "exact_at l j k m \<longleftrightarrow> j \<le> k \<and> m = k \<and> delivered l = take k (numbered (produced l))"

definition link_at :: "bool \<Rightarrow> link \<Rightarrow> StreamState \<Rightarrow> StreamState \<Rightarrow> nat \<Rightarrow> nat \<Rightarrow> nat \<Rightarrow> nat \<Rightarrow> bool" where
  "link_at lossless l s r j k m n \<longleftrightarrow>
     sender_at l s j \<and> receiver_at l r k \<and> wire_at l k m n \<and> acks_at l k
     \<and> (lossless \<longrightarrow> exact_at l j k m)"

lemmas link_parts = sender_at_def receiver_at_def wire_at_def acks_at_def exact_at_def

lemma link_atD:
  assumes "link_at lossless l s r j k m n"
  shows "sender_at l s j" "receiver_at l r k" "wire_at l k m n" "acks_at l k"
    "lossless \<Longrightarrow> exact_at l j k m"
  using assms by (simp_all add: link_at_def)

lemma link_atI:
  "sender_at l s j \<Longrightarrow> receiver_at l r k \<Longrightarrow> wire_at l k m n \<Longrightarrow> acks_at l k
   \<Longrightarrow> (lossless \<Longrightarrow> exact_at l j k m) \<Longrightarrow> link_at lossless l s r j k m n"
  by (simp add: link_at_def)

lemma sender_atD:
  assumes "sender_at l s j"
  shows "session_ok (sender l)" "streams (sender l) 0 = Some s" "length (produced l) < 2 ^ 64 - 2"
    "next_out_seq s = word_of_nat (Suc (length (produced l)))" "j \<le> length (produced l)"
    "send_history s = drop j (numbered (produced l))" "hist_ok s"
  using assms by (auto simp: sender_at_def dest: session_ok_stream)

definition link_inv :: "bool \<Rightarrow> link \<Rightarrow> bool" where
  "link_inv lossless l \<longleftrightarrow> (\<exists>s r j k m n. link_at lossless l s r j k m n)"

lemma link_invI: "link_at lossless l s r j k m n \<Longrightarrow> link_inv lossless l"
  unfolding link_inv_def by blast

lemma link_inv_new: "link_inv lossless (new_link sid pk)"
proof (rule link_invI[OF link_atI])
  show "sender_at (new_link sid pk) (new_stream 0 Terminal) 0"
    by (simp add: sender_at_def new_link_def session_ok_new)
      (simp add: new_session_def new_stream_def numbered_def)
  show "receiver_at (new_link sid pk) (new_stream 0 Terminal) 0"
    by (simp add: receiver_at_def new_link_def new_session_def new_stream_def)
  show "wire_at (new_link sid pk) 0 0 0" by (simp add: wire_at_def new_link_def)
  show "acks_at (new_link sid pk) 0" by (simp add: acks_at_def new_link_def)
  show "exact_at (new_link sid pk) 0 0 0" by (simp add: exact_at_def new_link_def)
qed

lemma watermark_of:
  "streams st 0 = Some r \<Longrightarrow> next_in_seq r = word_of_nat (Suc k) \<Longrightarrow> k < 2 ^ 64 - 1 \<Longrightarrow>
   last_received_map st 0 = Some (word_of_nat k)"
proof -
  assume r: "streams st 0 = Some r" "next_in_seq r = word_of_nat (Suc k)" and k: "k < 2 ^ 64 - 1"
  have "(word_of_nat (Suc k) :: u64) \<noteq> 0"
    using k by (simp add: word_of_nat_eq_0_iff dvd_eq_mod_eq_0 del: of_nat_Suc)
  with r show ?thesis by (simp add: last_received_map_def checked_pred_def)
qed

lemma receive_chunk_stream:
  "streams st 0 = Some r \<Longrightarrow> streams (receive_chunk st q) 0 = Some (r\<lparr>next_in_seq := q + 1\<rparr>)"
  by (simp add: receive_chunk_def stream_mut_def)

lemma apply_acks_stream:
  "streams st 0 = Some s \<Longrightarrow> acks 0 = Some a \<Longrightarrow>
   streams (apply_server_acks st acks) 0 = Some (acknowledge_up_to s a)"
  by (simp add: apply_server_acks_def)

lemma wire_head:
  assumes "take n (drop m (numbered xs)) = (q, d) # w"
  shows "m < length xs" "n > 0" "q = word_of_nat (Suc m)" "d = xs ! m"
    "w = take (n - 1) (drop (Suc m) (numbered xs))" "numbered xs ! m = (q, d)"
proof -
  show m: "m < length xs" using assms by (metis drop_all length_numbered list.distinct(1) not_le take_Nil)
  show n: "n > 0" using assms by (cases n) auto
  have "take n (drop m (numbered xs)) = numbered xs ! m # take (n - 1) (drop (Suc m) (numbered xs))"
    using m n by (cases n) (simp_all add: Cons_nth_drop_Suc[symmetric])
  with assms m show "q = word_of_nat (Suc m)" "d = xs ! m"
    "w = take (n - 1) (drop (Suc m) (numbered xs))" "numbered xs ! m = (q, d)"
    by (auto simp: nth_numbered)
qed

lemma subseq_take_mono: "subseq ds (take k N) \<Longrightarrow> k \<le> m \<Longrightarrow> subseq ds (take m N)"
  by (metis min.absorb1 take_take subseq_order.trans prefix_imp_subseq take_is_prefix)

lemma send_chunk_stream0:
  assumes "session_ok st" and "streams st 0 = Some s" and "vec_ok d"
  shows "\<exists>st'. send_chunk st d = Some (next_out_seq s, st') \<and> session_ok st'
    \<and> streams st' 0 = Some (record_send (s\<lparr>next_out_seq := next_out_seq s + 1\<rparr>) (next_out_seq s) d)"
proof -
  let ?st' = "st\<lparr>streams := (streams st)(0 \<mapsto>
     record_send (s\<lparr>next_out_seq := next_out_seq s + 1\<rparr>) (next_out_seq s) d)\<rparr>"
  have "send_chunk st d = Some (next_out_seq s, ?st')"
    using assms(2) by (simp add: send_chunk_def stream_mut_def Let_def)
  then show ?thesis using session_ok_send[OF assms(1,3)] by auto
qed

section \<open>Preservation\<close>

lemma produce_inv:
  assumes "link_at ll l s r j k m n" and "permitted ll l (Produce d)" and "produce l d = Some l'"
  shows "link_inv ll l'"
proof -
  note at = link_atD[OF assms(1)] and sd = sender_atD[OF link_atD(1)[OF assms(1)]]
  let ?s = "s\<lparr>next_out_seq := next_out_seq s + 1\<rparr>"
  let ?s' = "record_send ?s (next_out_seq s) d"
  have up: "up l" using assms(3) by (auto simp: produce_def split: if_splits)
  have v: "vec_ok d" and len: "length (produced l) < 2 ^ 64 - 3" using assms(2) by auto
  have h: "send_history ?s = drop j (numbered (produced l))" and ok: "hist_ok ?s"
    using sd by simp_all
  obtain st where sc: "send_chunk (sender l) d = Some (next_out_seq s, st)"
    and st: "streams st 0 = Some ?s'" "session_ok st"
    using send_chunk_stream0[OF sd(1,2) v] by blast
  have l': "l' = l\<lparr>sender := st, on_wire := on_wire l @ [(next_out_seq s, d)], produced := produced l @ [d]\<rparr>"
    using assms(3) up by (simp add: produce_def sc)
  have "\<exists>j'. j' \<le> Suc (length (produced l)) \<and> send_history ?s' = drop j' (numbered (produced l @ [d]))
      \<and> (ll \<longrightarrow> j' = j)"
  proof (cases ll)
    case True
    then have "hist_total (send_history ?s) + length d \<le> 4194304"
      using assms(2) sd(2) by (simp add: unacked_bytes_def)
    then show ?thesis
      using hist.tracks_record_room[OF ok v sd(5) h] sd(5) unfolding sd(4) by (intro exI[of _ j]) auto
  next
    case False
    then show ?thesis using hist.tracks_record[OF ok v sd(5) h] unfolding sd(4) by metis
  qed
  then obtain j' where j': "j' \<le> Suc (length (produced l))"
    "send_history ?s' = drop j' (numbered (produced l @ [d]))" "ll \<longrightarrow> j' = j" by blast
  show ?thesis
  proof (rule link_invI[OF link_atI])
    show "sender_at l' ?s' j'" using st j' len sd(4) by (simp add: sender_at_def l')
    show "receiver_at l' r k"
      using at(2,3) by (simp add: receiver_at_def wire_at_def l' numbered_snoc)
    show "wire_at l' k m (Suc n)"
    proof -
      have "on_wire l = drop m (numbered (produced l))" using at(3) up by (auto simp: wire_at_def)
      then have "on_wire l' = drop m (numbered (produced l'))"
        using at(3) sd(4) by (simp add: wire_at_def l' numbered_snoc)
      then show ?thesis using at(3) up by (auto simp: wire_at_def l')
    qed
    show "acks_at l' k" using at(4) by (simp add: acks_at_def l')
    show "exact_at l' j' k m" if ll using at(3) at(5)[OF that] j'(3) that
      by (simp add: exact_at_def wire_at_def l' numbered_snoc)
  qed
qed

lemma acks_at_mono: "acks_at l k \<Longrightarrow> k \<le> m \<Longrightarrow> acks_on_wire l' = acks_on_wire l \<Longrightarrow> acks_at l' (Suc m)"
  unfolding acks_at_def
proof
  fix acks assume "\<forall>acks \<in> set (acks_on_wire l). \<exists>a \<le> k. acks 0 = Some (word_of_nat a)" "k \<le> m"
    "acks_on_wire l' = acks_on_wire l" "acks \<in> set (acks_on_wire l')"
  then obtain a where "a \<le> k" "acks 0 = Some (word_of_nat a)" by auto
  with \<open>k \<le> m\<close> show "\<exists>a \<le> Suc m. acks 0 = Some (word_of_nat a)" by (intro exI[of _ a]) simp
qed

lemma receive_at:
  assumes "receiver_at l r k" and "wire_at l k m n" and "on_wire l = (q, d) # w"
  shows "streams (receive_chunk (receiver l) q) 0 = Some (r\<lparr>next_in_seq := q + 1\<rparr>)"
    and "q + 1 = word_of_nat (Suc (Suc m))" and "Suc m \<le> length (produced l)"
    and "w = take (n - 1) (drop (Suc m) (numbered (produced l)))"
    and "take (Suc m) (numbered (produced l)) = take m (numbered (produced l)) @ [(q, d)]"
    and "subseq (delivered l) (take m (numbered (produced l)))" and "k \<le> m" and "0 < n"
proof -
  have "take n (drop m (numbered (produced l))) = (q, d) # w" using assms by (simp add: wire_at_def)
  note hd = wire_head[OF this]
  show "streams (receive_chunk (receiver l) q) 0 = Some (r\<lparr>next_in_seq := q + 1\<rparr>)"
    using assms(1) by (simp add: receiver_at_def receive_chunk_stream)
  show "q + 1 = word_of_nat (Suc (Suc m))" using hd(3) by simp
  show "Suc m \<le> length (produced l)" "0 < n" using hd(1,2) by simp_all
  show "w = take (n - 1) (drop (Suc m) (numbered (produced l)))" by (fact hd(5))
  show "take (Suc m) (numbered (produced l)) = take m (numbered (produced l)) @ [(q, d)]"
    using hd(1,6) by (simp add: take_Suc_conv_app_nth)
  show "subseq (delivered l) (take m (numbered (produced l)))" "k \<le> m"
    using assms(1,2) subseq_take_mono[of "delivered l" k] by (auto simp: receiver_at_def wire_at_def)
qed

lemma deliver_inv:
  assumes "link_at ll l s r j k m n" and "deliver l = Some l'"
  shows "link_inv ll l'"
proof -
  note at = link_atD[OF assms(1)]
  obtain q d w where w: "on_wire l = (q, d) # w"
    and l': "l' = l\<lparr>receiver := receive_chunk (receiver l) q, on_wire := w, delivered := delivered l @ [(q, d)]\<rparr>"
    using assms(2) by (auto simp: deliver_def split: list.splits)
  note rc = receive_at[OF at(2,3) w]
  show ?thesis
  proof (rule link_invI[OF link_atI])
    show "sender_at l' s j" using at(1) by (simp add: sender_at_def l')
    show "receiver_at l' (r\<lparr>next_in_seq := q + 1\<rparr>) (Suc m)"
      unfolding receiver_at_def l' using rc(1,2) rc(6)
      by (simp add: rc(5) list_emb_append_mono del: of_nat_Suc)
    show "wire_at l' (Suc m) (Suc m) (n - 1)"
      using at(3) rc(3,4,8) by (simp add: wire_at_def l')
    show "acks_at l' (Suc m)" using at(4) rc(7) by (rule acks_at_mono) (simp_all add: l')
    show "exact_at l' j (Suc m) (Suc m)" if ll
      using at(5)[OF that] rc(5) by (auto simp: exact_at_def l')
  qed
qed

lemma deliver_aborted_inv:
  assumes "link_at False l s r j k m n" and "deliver_aborted l = Some l'"
  shows "link_inv False l'"
proof -
  note at = link_atD[OF assms(1)]
  obtain q d w where w: "on_wire l = (q, d) # w"
    and l': "l' = l\<lparr>receiver := receive_chunk (receiver l) q, on_wire := [], acks_on_wire := [], up := False\<rparr>"
    using assms(2) by (auto simp: deliver_aborted_def split: list.splits)
  note rc = receive_at[OF at(2,3) w]
  show ?thesis
  proof (rule link_invI[OF link_atI])
    show "sender_at l' s j" using at(1) by (simp add: sender_at_def l')
    show "receiver_at l' (r\<lparr>next_in_seq := q + 1\<rparr>) (Suc m)"
      unfolding receiver_at_def l' using rc(1,2) subseq_take_mono[OF rc(6), of "Suc m"]
      by (simp del: of_nat_Suc)
    show "wire_at l' (Suc m) (Suc m) 0" using rc(3) by (simp add: wire_at_def l')
    show "acks_at l' (Suc m)" by (simp add: acks_at_def l')
  qed simp
qed

lemma watermark_at:
  assumes "link_at ll l s r j k m n"
  shows "last_received_map (receiver l) 0 = Some (word_of_nat k)" and "k \<le> length (produced l)"
  using link_atD(1,2,3)[OF assms] by (auto simp: link_parts intro!: watermark_of)

lemma hb_send_inv:
  assumes "link_at ll l s r j k m n" and "hb_send l = Some l'"
  shows "link_inv ll l'"
proof -
  have "link_at ll l' s r j k m n"
    using assms watermark_at[OF assms(1)] by (auto simp: link_at_def link_parts hb_send_def)
  then show ?thesis by (rule link_invI)
qed

lemma acked_stream:
  assumes "sender_at l s j" and "acks 0 = Some (word_of_nat a)" and "a \<le> length (produced l)"
  shows "sender_at (l\<lparr>sender := apply_server_acks (sender l) acks\<rparr>)
           (acknowledge_up_to s (word_of_nat a)) (max j a)"
proof -
  note sd = sender_atD[OF assms(1)]
  have "send_history (acknowledge_up_to s (word_of_nat a)) = drop (max j a) (numbered (produced l))"
    using sd assms(3) by (intro hist.tracks_ack) auto
  then show ?thesis
    using sd assms(2,3) by (simp add: sender_at_def session_ok_acks apply_acks_stream)
qed

lemma hb_recv_inv:
  assumes "link_at ll l s r j k m n" and "hb_recv l = Some l'"
  shows "link_inv ll l'"
proof -
  note at = link_atD[OF assms(1)]
  obtain acks ms where aw: "acks_on_wire l = acks # ms"
    and l': "l' = l\<lparr>sender := apply_server_acks (sender l) acks, acks_on_wire := ms\<rparr>"
    using assms(2) by (auto simp: hb_recv_def split: list.splits)
  have "\<exists>a \<le> k. acks 0 = Some (word_of_nat a)" using at(4) aw by (auto simp: acks_at_def)
  then obtain a where a: "a \<le> k" "acks 0 = Some (word_of_nat a)" by blast
  have st: "sender_at l' (acknowledge_up_to s (word_of_nat a)) (max j a)"
    using acked_stream[where acks = acks, OF at(1) a(2)] a(1) watermark_at(2)[OF assms(1)]
    by (simp add: l' sender_at_def)
  show ?thesis
    by (rule link_invI[OF link_atI[OF st, of r k m n]])
      (use at aw a(1) in \<open>auto simp: l' receiver_at_def wire_at_def acks_at_def exact_at_def\<close>)
qed

lemma lose_inv:
  assumes "link_at ll l s r j k m n" and "lose l a b = Some l'"
  shows "link_inv ll l'"
proof -
  note at = link_atD[OF assms(1)]
  have l': "l' = l\<lparr>up := False, on_wire := take a (on_wire l), acks_on_wire := take b (acks_on_wire l)\<rparr>"
    using assms(2) by (simp add: lose_def)
  show ?thesis
  proof (rule link_invI[OF link_atI])
    show "sender_at l' s j" using at(1) by (simp add: sender_at_def l')
    show "receiver_at l' r k" using at(2) by (simp add: receiver_at_def l')
    show "wire_at l' k m (min a n)" using at(3) by (simp add: wire_at_def l')
    show "acks_at l' k" using at(4) in_set_takeD unfolding acks_at_def l' by fastforce
    show "exact_at l' j k m" if ll using at(5)[OF that] by (simp add: exact_at_def l')
  qed
qed

lemma reconnect_at:
  assumes "link_at ll l s r j k m n" and "reconnect l = Some l'"
  shows "link_at ll l' (acknowledge_up_to s (word_of_nat k)) r (max j k) k (max j k) (length (produced l))
    \<and> up l' \<and> produced l' = produced l"
proof -
  note at = link_atD[OF assms(1)] and wm = watermark_at[OF assms(1)]
  let ?acks = "last_received_map (receiver l)"
  let ?st = "apply_server_acks (sender l) ?acks" and ?s = "acknowledge_up_to s (word_of_nat k)"
  note st = acked_stream[where acks = ?acks, OF at(1) wm]
  have s0: "streams ?st 0 = Some ?s" and h: "send_history ?s = drop (max j k) (numbered (produced l))"
    using sender_atD[OF st] by simp_all
  have "replay_from ?s (word_of_nat k) = drop (max j k) (numbered (produced l))"
    using sender_atD(3)[OF at(1)] wm(2) h hist.replay_missing[of "produced l" k ?s "max j k"] by simp
  then have rp: "(case collect_replays ?st ?acks 0 of None \<Rightarrow> [] | Some cs \<Rightarrow> cs)
      = drop (max j k) (numbered (produced l))"
    using s0 wm(1) by (simp add: collect_replays_def Let_def)
  have l': "l' = l\<lparr>sender := ?st, on_wire := drop (max j k) (numbered (produced l)),
      acks_on_wire := [], up := True\<rparr>"
    using assms(2) by (auto simp: reconnect_def Let_def rp split: if_splits)
  have "sender_at l' ?s (max j k)" using st by (simp add: l' sender_at_def)
  then show ?thesis
    using at wm(2) sender_atD(5)[OF at(1)]
    by (auto simp: link_at_def receiver_at_def wire_at_def acks_at_def exact_at_def l' max_def)
qed

lemma link_step_inv:
  assumes "link_inv ll l" and "permitted ll l e" and "link_step l e = Some l'"
  shows "link_inv ll l'"
proof -
  obtain s r j k m n where at: "link_at ll l s r j k m n" using assms(1) by (auto simp: link_inv_def)
  show ?thesis
  proof (cases e)
    case (Produce d)
    then show ?thesis using assms produce_inv[OF at, of d l'] by simp
  next
    case DeliverAborted
    then show ?thesis using assms at deliver_aborted_inv by simp
  next
    case Reconnect
    then show ?thesis using assms reconnect_at[OF at] link_invI by auto
  qed (use assms deliver_inv[OF at] hb_send_inv[OF at] hb_recv_inv[OF at] lose_inv[OF at] in auto)
qed

lemma reachable_inv: "reachable ll l \<Longrightarrow> link_inv ll l"
  by (induction rule: reachable.induct) (auto intro: link_inv_new link_step_inv)

lemma drain:
  "\<exists>l'. link_run l (replicate (length (on_wire l)) Deliver) = Some l' \<and> on_wire l' = []
     \<and> up l' = up l \<and> produced l' = produced l"
proof (induction "on_wire l" arbitrary: l)
  case Nil
  then show ?case by simp
next
  case (Cons c w)
  obtain q d where c: "c = (q, d)" by (cases c)
  let ?l = "l\<lparr>receiver := receive_chunk (receiver l) q, on_wire := w, delivered := delivered l @ [(q, d)]\<rparr>"
  have "deliver l = Some ?l" using Cons.hyps(2) by (simp add: deliver_def c Cons.hyps(2)[symmetric])
  moreover have "length (on_wire l) = Suc (length w)" using Cons.hyps(2)[symmetric] by simp
  ultimately show ?case using Cons.hyps(1)[of ?l] by simp
qed

abbreviation permitted_run :: "bool \<Rightarrow> link \<Rightarrow> link_event list \<Rightarrow> bool" where
  "permitted_run lossless \<equiv> run_allowed link_step (permitted lossless)"

interpretation reach: step_invariant link_step "permitted lossless" "reachable lossless" for lossless
  by unfold_locales (rule reachable.step)

lemmas reachable_run = reach.invar_run

lemma permitted_run_recovery: "set es \<subseteq> {Deliver, Reconnect} \<Longrightarrow> permitted_run ll l es"
  by (induction es arbitrary: l) (auto split: option.split)

lemma exact_when_drained:
  assumes "reachable True l" and "up l" and "on_wire l = []"
  shows "map snd (delivered l) = produced l"
proof -
  obtain s r j k m n where at: "link_at True l s r j k m n"
    using reachable_inv[OF assms(1)] by (auto simp: link_inv_def)
  have "m = k" "delivered l = take k (numbered (produced l))" "length (produced l) \<le> m + n"
    "take n (drop m (numbered (produced l))) = []" "m \<le> length (produced l)"
    using link_atD[OF at] assms by (auto simp: exact_at_def wire_at_def)
  then show ?thesis by auto
qed

lemmas link_eval = new_link_def new_session_def new_stream_def reconnect_def produce_def deliver_def
  deliver_aborted_def hb_send_def hb_recv_def lose_def send_chunk_def stream_mut_def receive_chunk_def
  record_send_def apply_server_acks_def acknowledge_up_to_def collect_replays_def replay_from_def
  last_received_map_def checked_pred_def unacked_bytes_def MAX_HISTORY_BYTES_def Let_def

section \<open>The abstract queue\<close>

fun link_op :: "link_event \<Rightarrow> fifo_op" where
  "link_op (Produce d) = Send d"
| "link_op Deliver = Recv"
| "link_op _ = Hidden"

definition fifo_of :: "link \<Rightarrow> fifo" where
  "fifo_of l = \<lparr>queue = drop (length (delivered l)) (produced l), received = map snd (delivered l)\<rparr>"

lemma link_step_ghosts:
  assumes "link_step l e = Some l'"
  shows "produced l' = (case e of Produce d \<Rightarrow> produced l @ [d] | _ \<Rightarrow> produced l)"
    and "delivered l' = (case e of Deliver \<Rightarrow> delivered l @ [hd (on_wire l)] | _ \<Rightarrow> delivered l)"
    and "e = Deliver \<Longrightarrow> on_wire l \<noteq> []"
  using assms
  by (cases e; auto simp: produce_def deliver_def deliver_aborted_def hb_send_def hb_recv_def lose_def
    reconnect_def Let_def split: if_splits option.splits list.splits)+

lemma link_step_simulates:
  assumes "reachable True l" and "permitted True l e" and "link_step l e = Some l'"
  shows "fifo_step (fifo_of l) (link_op e) = Some (fifo_of l')"
proof -
  obtain s r j k m n where at: "link_at True l s r j k m n"
    using reachable_inv[OF assms(1)] by (auto simp: link_inv_def)
  have k: "k \<le> length (produced l)" "delivered l = take k (numbered (produced l))"
    "on_wire l = take n (drop k (numbered (produced l)))"
    using link_atD[OF at] by (auto simp: exact_at_def wire_at_def)
  note ghosts = link_step_ghosts[OF assms(3)]
  show ?thesis
  proof (cases e)
    case (Produce d)
    then show ?thesis using ghosts k by (simp add: fifo_of_def)
  next
    case Deliver
    then obtain q d w where w: "on_wire l = (q, d) # w" using ghosts(3) by (cases "on_wire l") auto
    from wire_head[of n k "produced l" q d w] have "k < length (produced l)" "d = produced l ! k"
      using w k(3) by simp_all
    then show ?thesis
      using ghosts k(2) w Deliver
      by (simp add: fifo_of_def Cons_nth_drop_Suc[symmetric])
  qed (use ghosts assms(2) in \<open>simp_all add: fifo_of_def\<close>)
qed

interpretation link_fifo: step_simulation link_step "permitted True" "reachable True" fifo_step fifo_of link_op
  by unfold_locales (rule link_step_simulates)

section \<open>Properties\<close>

text \<open>C8 (safety): under any interleaving of input, delivery, heartbeats, connection losses, aborted
  readers, evictions and reconnects, what the receiver hands on is a subsequence of the numbered
  chunks the sender produced: nothing is duplicated, reordered, altered or made up.\<close>

theorem delivered_at_most_once:
  assumes "reachable False l"
  shows "subseq (delivered l) (numbered (produced l))"
proof -
  obtain s r j k m n where "link_at False l s r j k m n"
    using reachable_inv[OF assms] by (auto simp: link_inv_def)
  then have "subseq (delivered l) (take k (numbered (produced l)))"
    by (auto simp: link_at_def receiver_at_def)
  then show ?thesis using subseq_take_mono[of _ k "numbered (produced l)" "max k (length (produced l))"] by simp
qed

theorem delivered_at_most_once_witness:
  "\<exists>l. link_run (new_link [] []) [Reconnect, Produce [65], DeliverAborted, Reconnect, Produce [66], Deliver] = Some l
    \<and> delivered l = [(2, [66])] \<and> subseq (delivered l) (numbered (produced l))"
proof -
  let ?es = "[Reconnect, Produce [65], DeliverAborted, Reconnect, Produce [66], Deliver]"
  obtain l where l: "link_run (new_link [] []) ?es = Some l" "delivered l = [(2, [66])]"
    by (simp add: link_eval)
  have "permitted_run False (new_link [] []) ?es" by (simp add: link_eval vec_ok_def)
  from reachable_run[OF reachable.init this l(1)] have "reachable False l" .
  from l delivered_at_most_once[OF this] show ?thesis by blast
qed

text \<open>C5 (safety): as long as at most 4 MiB are unacknowledged when a chunk is produced and no reader
  is aborted between its two effects, delivery is exactly once and in order: what was handed on is
  a prefix of what was produced whatever connections were lost, and all of it once the link is up
  and the wire is empty.\<close>

theorem delivered_exactly_once:
  assumes "reachable True l"
  shows "prefix (map snd (delivered l)) (produced l)
    \<and> (up l \<and> on_wire l = [] \<longrightarrow> map snd (delivered l) = produced l)"
proof -
  obtain s r j k m n where "link_at True l s r j k m n"
    using reachable_inv[OF assms] by (auto simp: link_inv_def)
  then have "delivered l = take k (numbered (produced l))" by (simp add: link_at_def exact_at_def)
  then have "map snd (delivered l) = take k (produced l)" by (simp add: take_map[symmetric])
  then show ?thesis using exact_when_drained[OF assms] by (auto simp: take_is_prefix)
qed

theorem delivered_exactly_once_witness:
  "\<exists>l. link_run (new_link [] []) [Reconnect, Produce [65], Lose 0 0, Reconnect, HbSend, Deliver, HbSend, HbRecv,
       Produce [66], Lose 1 1, Deliver] = Some l
    \<and> prefix (map snd (delivered l)) (produced l) \<and> delivered l = [(1, [65]), (2, [66])]"
proof -
  let ?es = "[Reconnect, Produce [65], Lose 0 0, Reconnect, HbSend, Deliver, HbSend, HbRecv,
       Produce [66], Lose 1 1, Deliver]"
  obtain l where l: "link_run (new_link [] []) ?es = Some l" "delivered l = [(1, [65]), (2, [66])]"
    by (simp add: link_eval)
  have "permitted_run True (new_link [] []) ?es" by (simp add: link_eval vec_ok_def)
  from reachable_run[OF reachable.init this l(1)] have "reachable True l" .
  from l delivered_exactly_once[OF this] show ?thesis by blast
qed

text \<open>(liveness): from every state of a lossless run, whatever was lost with the connection, a
  reconnect if the link is down and then delivery steps alone bring every produced chunk to the
  receiver.\<close>

theorem reconnect_recovers_all:
  assumes "reachable True l"
  shows "\<exists>es l'. set es \<subseteq> {Deliver, Reconnect} \<and> link_run l es = Some l'
    \<and> produced l' = produced l \<and> map snd (delivered l') = produced l"
proof -
  obtain es1 l1 where l1: "set es1 \<subseteq> {Deliver, Reconnect}" "link_run l es1 = Some l1" "up l1"
    "produced l1 = produced l"
  proof (cases "up l")
    case True
    then show ?thesis using that[of "[]" l] by simp
  next
    case False
    obtain s r j k m n where at: "link_at True l s r j k m n"
      using reachable_inv[OF assms] by (auto simp: link_inv_def)
    obtain l1 where "reconnect l = Some l1" using False by (auto simp: reconnect_def Let_def)
    then show ?thesis using that[of "[Reconnect]" l1] reconnect_at[OF at] by simp
  qed
  obtain l2 where l2: "link_run l1 (replicate (length (on_wire l1)) Deliver) = Some l2"
    "on_wire l2 = []" "up l2" "produced l2 = produced l" using drain[of l1] l1 by auto
  let ?es = "es1 @ replicate (length (on_wire l1)) Deliver"
  have run: "link_run l ?es = Some l2" using l1 l2 by (simp add: run_steps_append)
  have es: "set ?es \<subseteq> {Deliver, Reconnect}" using l1(1) by auto
  from reachable_run[OF assms permitted_run_recovery[OF es] run] have "map snd (delivered l2) = produced l2"
    using l2 by (intro exact_when_drained) auto
  with run es l2 show ?thesis by metis
qed

theorem reconnect_recovers_all_witness:
  "\<exists>l. link_run (new_link [] []) [Reconnect, Produce [65], Produce [66], Deliver, Lose 0 0] = Some l
    \<and> delivered l = [(1, [65])]
    \<and> (\<exists>es l'. set es \<subseteq> {Deliver, Reconnect} \<and> link_run l es = Some l'
      \<and> produced l' = produced l \<and> map snd (delivered l') = produced l)"
proof -
  let ?es = "[Reconnect, Produce [65], Produce [66], Deliver, Lose 0 0]"
  obtain l where l: "link_run (new_link [] []) ?es = Some l" "delivered l = [(1, [65])]"
    by (simp add: link_eval)
  have "permitted_run True (new_link [] []) ?es" by (simp add: link_eval vec_ok_def)
  from reachable_run[OF reachable.init this l(1)] have "reachable True l" .
  from l reconnect_recovers_all[OF this] show ?thesis by blast
qed

text \<open>(refinement): the link implements a plain first-in first-out queue.  Any run of sessions,
  sequence numbers, histories, acknowledgements, losses and reconnects from a new session, with no
  eviction and no aborted reader, is step for step a run of the queue, and its final state abstracts
  to the queue's: connection losses, heartbeats and reconnects cannot be observed.\<close>

theorem link_refines_fifo:
  assumes "permitted_run True (new_link sid pk) es" and "link_run (new_link sid pk) es = Some l"
  shows "run_steps fifo_step empty_fifo (map link_op es) = Some (fifo_of l)"
proof -
  have "fifo_of (new_link sid pk) = empty_fifo" by (simp add: fifo_of_def new_link_def empty_fifo_def)
  with link_fifo.run_simulated[OF reachable.init assms] show ?thesis by simp
qed

theorem link_refines_fifo_witness:
  "\<exists>l. link_run (new_link [] []) [Reconnect, Produce [65], Produce [66], Lose 0 0, Reconnect, Deliver] = Some l
    \<and> fifo_of l = \<lparr>queue = [[66]], received = [[65]]\<rparr>
    \<and> run_steps fifo_step empty_fifo [Hidden, Send [65], Send [66], Hidden, Hidden, Recv] = Some (fifo_of l)"
proof -
  let ?es = "[Reconnect, Produce [65], Produce [66], Lose 0 0, Reconnect, Deliver]"
  obtain l where l: "link_run (new_link [] []) ?es = Some l" "fifo_of l = \<lparr>queue = [[66]], received = [[65]]\<rparr>"
    by (simp add: link_eval fifo_of_def)
  have "permitted_run True (new_link [] []) ?es" by (simp add: link_eval vec_ok_def)
  from link_refines_fifo[OF this l(1)] l show ?thesis by auto
qed

text \<open>The abort is a real loss: the watermark has moved past the chunk, so no reconnect replays it.\<close>

lemma aborted_reader_loses_chunk:
  "\<exists>l. link_run (new_link sid pk) [Reconnect, Produce [65], DeliverAborted, Reconnect] = Some l
    \<and> up l \<and> on_wire l = [] \<and> produced l = [[65]] \<and> delivered l = []"
  by (simp add: link_eval)

end
