(* ===== verification/Quic_Framing.thy ===== *)
theory Quic_Framing
  imports Protocol
begin

text \<open>
  The framing helpers of \<open>src/quic.rs\<close>.

  A \<open>quinn::RecvStream\<close> is what is left to read: the bytes that will still arrive and how the
  stream ends after them, with a FIN from the peer or with a transport error.  \<open>read_exact\<close>
  then either fills the buffer, or fails with \<open>FinishedEarly\<close> or with a \<open>ReadError\<close>; the bytes
  a failing read consumed are gone.  A \<open>quinn::SendStream\<close> is what the peer has been sent and how
  many more bytes the transport accepts before the connection is lost (\<open>None\<close>: no limit).
  The protobuf codec \<open>encode\<close>/\<open>decode\<close> of \<open>Envelope\<close> is a parameter.
\<close>

section \<open>Streams\<close>

datatype stream_end = Finished | Lost

record recv_stream =
  incoming :: bytes
  ending :: stream_end

record send_stream =
  outgoing :: bytes
  budget :: "nat option"

datatype read_exact_error = FinishedEarly | ReadError

definition read_exact :: "nat \<Rightarrow> recv_stream \<Rightarrow> (read_exact_error + bytes) \<times> recv_stream" where
  "read_exact n r =
     (if n \<le> length (incoming r)
      then (Inr (take n (incoming r)), r\<lparr>incoming := drop n (incoming r)\<rparr>)
      else (Inl (case ending r of Finished \<Rightarrow> FinishedEarly | Lost \<Rightarrow> ReadError), r\<lparr>incoming := []\<rparr>))"

definition write_all :: "bytes \<Rightarrow> send_stream \<Rightarrow> (unit io_result) \<times> send_stream" where
  "write_all bs s =
     (case budget s of
        None \<Rightarrow> (Inr (), s\<lparr>outgoing := outgoing s @ bs\<rparr>)
      | Some k \<Rightarrow>
          (if length bs \<le> k
           then (Inr (), s\<lparr>outgoing := outgoing s @ bs, budget := Some (k - length bs)\<rparr>)
           else (Inl BrokenPipe, s\<lparr>outgoing := outgoing s @ take k bs, budget := Some 0\<rparr>)))"

section \<open>Constants\<close>

definition TAG_CONTROL :: u8 where "TAG_CONTROL = 1"
definition TAG_PTY :: u8 where "TAG_PTY = 2"
definition TAG_FORWARD :: u8 where "TAG_FORWARD = 3"

definition STREAM_RECEIVE_WINDOW :: u32 where "STREAM_RECEIVE_WINDOW = 4 * 1024 * 1024"
definition QUINN_ASSEMBLER_CHUNK_CAP :: u32 where "QUINN_ASSEMBLER_CHUNK_CAP = 1024"
definition MIN_EXPECTED_FRAME_PAYLOAD :: u32 where "MIN_EXPECTED_FRAME_PAYLOAD = 1200"

text \<open>The transport parameters set by \<open>high_throughput_transport\<close>, in bytes and milliseconds.\<close>

record transport_config =
  stream_receive_window :: u32
  receive_window :: u32
  send_window :: u64
  max_idle_timeout_ms :: u32
  keep_alive_interval_ms :: u32

definition high_throughput_transport :: transport_config where
  "high_throughput_transport =
     \<lparr>stream_receive_window = STREAM_RECEIVE_WINDOW,
      receive_window = 32 * 1024 * 1024,
      send_window = 32 * 1024 * 1024,
      max_idle_timeout_ms = 30000,
      keep_alive_interval_ms = 10 * 1000\<rparr>"

text \<open>Both configurations install the same transport; \<open>None\<close> stands for the TLS library's
  refusal of the certificate or key, an \<open>InvalidData\<close> error.\<close>

definition server_config :: "('cert \<Rightarrow> 'key \<Rightarrow> 'tls option) \<Rightarrow> 'cert \<Rightarrow> 'key \<Rightarrow> ('tls \<times> transport_config) io_result" where
  "server_config with_single_cert cert key =
     (case with_single_cert cert key of
        None \<Rightarrow> Inl InvalidData
      | Some tls \<Rightarrow> Inr (tls, high_throughput_transport))"

text \<open>\<open>roots.add(cert)\<close> on an empty store, then \<open>with_root_certificates\<close>: the trusted roots are
  exactly the supplied certificate.\<close>

definition client_config ::
    "('cert list \<Rightarrow> 'cert \<Rightarrow> 'cert list option) \<Rightarrow> ('cert list \<Rightarrow> 'tls option) \<Rightarrow> 'cert
     \<Rightarrow> ('tls \<times> transport_config) io_result" where
  "client_config add_root with_roots cert =
     (case add_root [] cert of
        None \<Rightarrow> Inl InvalidData
      | Some roots \<Rightarrow>
          (case with_roots roots of
             None \<Rightarrow> Inl InvalidData
           | Some tls \<Rightarrow> Inr (tls, high_throughput_transport)))"

section \<open>Framing\<close>

definition read_tag :: "recv_stream \<Rightarrow> u8 io_result \<times> recv_stream" where
  "read_tag r =
     (case read_exact 1 r of
        (Inl _, r') \<Rightarrow> (Inl BrokenPipe, r')
      | (Inr bs, r') \<Rightarrow> (Inr (hd bs), r'))"

definition write_framed :: "bytes \<Rightarrow> send_stream \<Rightarrow> unit io_result \<times> send_stream" where
  "write_framed framed s = write_all framed s"

text \<open>\<open>body_len as u32\<close> truncates; the body is appended by \<open>encode\<close> into a growable buffer,
  which cannot run out of capacity.\<close>

definition write_msg :: "(Envelope \<Rightarrow> bytes) \<Rightarrow> Envelope \<Rightarrow> send_stream \<Rightarrow> unit io_result \<times> send_stream" where
  "write_msg encode env s =
     (let body_len = length (encode env);
          framed = be_bytes 4 (unat (word_of_nat body_len :: u32)) @ encode env
      in write_framed framed s)"

definition MAX_CONTROL_MSG :: nat where "MAX_CONTROL_MSG = 4 * 1024 * 1024"
definition MAX_PTY_CHUNK :: nat where "MAX_PTY_CHUNK = 1024 * 1024"

definition read_msg ::
    "(bytes \<Rightarrow> Envelope option) \<Rightarrow> recv_stream \<Rightarrow> Envelope option io_result \<times> recv_stream" where
  "read_msg decode r =
     (case read_exact 4 r of
        (Inl FinishedEarly, r1) \<Rightarrow> (Inr None, r1)
      | (Inl ReadError, r1) \<Rightarrow> (Inl BrokenPipe, r1)
      | (Inr len_buf, r1) \<Rightarrow>
          (let len = from_be_bytes len_buf
           in if MAX_CONTROL_MSG < len then (Inl InvalidData, r1)
              else (case read_exact len r1 of
                      (Inl _, r2) \<Rightarrow> (Inl BrokenPipe, r2)
                    | (Inr buf, r2) \<Rightarrow>
                        (case decode buf of
                           None \<Rightarrow> (Inl InvalidData, r2)
                         | Some env \<Rightarrow> (Inr (Some env), r2)))))"

definition write_pty_chunk :: "u64 \<Rightarrow> bytes \<Rightarrow> send_stream \<Rightarrow> unit io_result \<times> send_stream" where
  "write_pty_chunk sq data s =
     (let hdr = be_bytes 8 (unat sq) @ be_bytes 4 (unat (word_of_nat (length data) :: u32))
      in case write_all hdr s of
           (Inl e, s1) \<Rightarrow> (Inl e, s1)
         | (Inr _, s1) \<Rightarrow> write_all data s1)"

definition read_pty_chunk :: "recv_stream \<Rightarrow> (u64 \<times> bytes) option io_result \<times> recv_stream" where
  "read_pty_chunk r =
     (case read_exact 12 r of
        (Inl FinishedEarly, r1) \<Rightarrow> (Inr None, r1)
      | (Inl ReadError, r1) \<Rightarrow> (Inl BrokenPipe, r1)
      | (Inr hdr, r1) \<Rightarrow>
          (let sq = word_of_nat (from_be_bytes (take 8 hdr));
               len = from_be_bytes (drop 8 hdr)
           in if MAX_PTY_CHUNK < len then (Inl InvalidData, r1)
              else (case read_exact len r1 of
                      (Inl _, r2) \<Rightarrow> (Inl BrokenPipe, r2)
                    | (Inr data, r2) \<Rightarrow> (Inr (Some (sq, data)), r2))))"

text \<open>The reader loops call \<open>read_pty_chunk\<close> until it reports the end of the stream or an
  error; every chunk consumes at least its header, so the loop ends.\<close>

lemma read_exact_le: "snd (read_exact n r) = r' \<Longrightarrow> length (incoming r') \<le> length (incoming r)"
  by (auto simp: read_exact_def)

lemma read_exact_consumes:
  "read_exact n r = (Inr bs, r') \<Longrightarrow>
     length bs = n \<and> incoming r = bs @ incoming r' \<and> ending r' = ending r"
  by (auto simp: read_exact_def split: if_splits)

lemma read_pty_chunk_consumes:
  "read_pty_chunk r = (Inr (Some c), r') \<Longrightarrow> length (incoming r') < length (incoming r)"
  by (auto simp: read_pty_chunk_def Let_def dest!: read_exact_consumes
      split: prod.splits sum.splits read_exact_error.splits if_splits)

function read_pty_chunks :: "recv_stream \<Rightarrow> (u64 \<times> bytes) list \<times> unit io_result" where
  "read_pty_chunks r =
     (case read_pty_chunk r of
        (Inl e, _) \<Rightarrow> ([], Inl e)
      | (Inr None, _) \<Rightarrow> ([], Inr ())
      | (Inr (Some c), r') \<Rightarrow> (let (cs, res) = read_pty_chunks r' in (c # cs, res)))"
  by pat_completeness auto
termination
  by (relation "measure (\<lambda>r. length (incoming r))") (auto dest: read_pty_chunk_consumes[OF sym])

declare read_pty_chunks.simps [simp del]

fun write_pty_chunks :: "(u64 \<times> bytes) list \<Rightarrow> send_stream \<Rightarrow> unit io_result \<times> send_stream" where
  "write_pty_chunks [] s = (Inr (), s)"
| "write_pty_chunks ((sq, data) # cs) s =
     (case write_pty_chunk sq data s of
        (Inl e, s1) \<Rightarrow> (Inl e, s1)
      | (Inr _, s1) \<Rightarrow> write_pty_chunks cs s1)"

section \<open>Constant-time comparison\<close>

fun ct_diff :: "u8 \<Rightarrow> (u8 \<times> u8) list \<Rightarrow> u8" where
  "ct_diff diff [] = diff"
| "ct_diff diff ((x, y) # ps) = ct_diff (Bit_Operations.or diff (Bit_Operations.xor x y)) ps"

definition constant_time_eq :: "bytes \<Rightarrow> bytes \<Rightarrow> bool" where
  "constant_time_eq a b =
     (if length a \<noteq> length b then False else ct_diff 0 (zip a b) = 0)"

section \<open>Properties of the framing\<close>

text \<open>What one chunk looks like on the wire.\<close>

definition chunk_bytes :: "u64 \<times> bytes \<Rightarrow> bytes" where
  "chunk_bytes c =
     be_bytes 8 (unat (fst c)) @ be_bytes 4 (unat (word_of_nat (length (snd c)) :: u32)) @ snd c"

definition chunk_ok :: "u64 \<times> bytes \<Rightarrow> bool" where
  "chunk_ok c \<longleftrightarrow> length (snd c) \<le> MAX_PTY_CHUNK"

lemma length_chunk_bytes: "length (chunk_bytes c) = 12 + length (snd c)"
  by (simp add: chunk_bytes_def)

lemma unat_word_of_len: "n < 2 ^ 32 \<Longrightarrow> unat (word_of_nat n :: u32) = n"
  by (simp add: unat_of_nat)

lemma read_exact_append [io_simps]:
  "length bs = n \<Longrightarrow> read_exact n \<lparr>incoming = bs @ rest, ending = e\<rparr> =
     (Inr bs, \<lparr>incoming = rest, ending = e\<rparr>)"
  by (simp add: read_exact_def)

lemma read_exact_short [io_simps]:
  "length bs < n \<Longrightarrow> read_exact n \<lparr>incoming = bs, ending = e\<rparr> =
     (Inl (case e of Finished \<Rightarrow> FinishedEarly | Lost \<Rightarrow> ReadError), \<lparr>incoming = [], ending = e\<rparr>)"
  by (simp add: read_exact_def)

lemma read_pty_chunk_of_chunk:
  assumes "chunk_ok c"
  shows "read_pty_chunk \<lparr>incoming = chunk_bytes c @ rest, ending = e\<rparr> =
     (Inr (Some c), \<lparr>incoming = rest, ending = e\<rparr>)"
proof -
  have len: "length (snd c) \<le> 1048576" and lt: "length (snd c) < 2 ^ 32"
    using assms by (auto simp: chunk_ok_def MAX_PTY_CHUNK_def)
  let ?hdr = "be_bytes 8 (unat (fst c)) @ be_bytes 4 (length (snd c))"
  have hdr: "read_exact 12 \<lparr>incoming = chunk_bytes c @ rest, ending = e\<rparr> =
      (Inr ?hdr, \<lparr>incoming = snd c @ rest, ending = e\<rparr>)"
    using read_exact_append[of ?hdr 12 "snd c @ rest" e]
    by (simp add: chunk_bytes_def unat_word_of_len[OF lt])
  have l: "from_be_bytes (be_bytes 4 (length (snd c))) = length (snd c)"
    using lt by (simp add: from_be_bytes_be_bytes)
  show ?thesis
    using len by (simp add: read_pty_chunk_def hdr l MAX_PTY_CHUNK_def io_simps)
qed

lemma read_pty_chunk_short_header:
  "length bs < 12 \<Longrightarrow> fst (read_pty_chunk \<lparr>incoming = bs, ending = e\<rparr>) =
     (case e of Finished \<Rightarrow> Inr None | Lost \<Rightarrow> Inl BrokenPipe)"
  by (simp add: read_pty_chunk_def read_exact_short split: stream_end.split)

lemma read_pty_chunk_cut_body:
  assumes ok: "chunk_ok c" and p: "chunk_bytes c = bs @ z" and z: "z \<noteq> []"
    and long: "12 \<le> length bs"
  shows "fst (read_pty_chunk \<lparr>incoming = bs, ending = e\<rparr>) = Inl BrokenPipe"
proof -
  have lt: "length (snd c) < 2 ^ 32" and len: "length (snd c) \<le> 1048576"
    using ok by (auto simp: chunk_ok_def MAX_PTY_CHUNK_def)
  let ?hdr = "be_bytes 8 (unat (fst c)) @ be_bytes 4 (length (snd c))"
  have c: "chunk_bytes c = ?hdr @ snd c"
    by (simp add: chunk_bytes_def unat_word_of_len[OF lt])
  have "take 12 bs = ?hdr" and "snd c = drop 12 bs @ z"
    using arg_cong[OF p, of "take 12"] arg_cong[OF p, of "drop 12"] long by (simp_all add: c)
  then obtain d where d: "bs = ?hdr @ d" "snd c = d @ z"
    using append_take_drop_id[of 12 bs] by metis
  have h: "read_exact 12 \<lparr>incoming = bs, ending = e\<rparr> = (Inr ?hdr, \<lparr>incoming = d, ending = e\<rparr>)"
    using read_exact_append[of ?hdr 12 d e] d(1) by simp
  have l: "from_be_bytes (be_bytes 4 (length (snd c))) = length (snd c)"
    using lt by (simp add: from_be_bytes_be_bytes)
  have "length d < length (snd c)" using d(2) z by simp
  then show ?thesis
    using len by (simp add: read_pty_chunk_def h l MAX_PTY_CHUNK_def read_exact_short)
qed

lemma read_pty_chunks_of_chunks:
  "list_all chunk_ok cs \<Longrightarrow> length rest < 12 \<Longrightarrow>
   read_pty_chunks \<lparr>incoming = concat (map chunk_bytes cs) @ rest, ending = e\<rparr> =
     (cs, case e of Finished \<Rightarrow> Inr () | Lost \<Rightarrow> Inl BrokenPipe)"
proof (induction cs)
  case Nil
  then show ?case
    using read_pty_chunk_short_header[of rest e]
    by (subst read_pty_chunks.simps) (auto split: prod.splits stream_end.splits)
next
  case (Cons c cs)
  then show ?case
    by (subst read_pty_chunks.simps) (simp add: read_pty_chunk_of_chunk)
qed

lemma read_pty_chunks_of_prefix:
  "list_all chunk_ok cs \<Longrightarrow> concat (map chunk_bytes cs) = bs @ z \<Longrightarrow>
   prefix (fst (read_pty_chunks \<lparr>incoming = bs, ending = e\<rparr>)) cs"
proof (induction cs arbitrary: bs)
  case Nil
  then show ?case
    using read_pty_chunk_short_header[of "[]" e]
    by (subst read_pty_chunks.simps) (auto split: prod.splits stream_end.splits)
next
  case (Cons c cs)
  have split: "chunk_bytes c @ concat (map chunk_bytes cs) = bs @ z"
    using Cons.prems(2) by simp
  show ?case
  proof (cases "length (chunk_bytes c) \<le> length bs")
    case True
    then obtain d where d: "bs = chunk_bytes c @ d" "concat (map chunk_bytes cs) = d @ z"
      using split by (auto simp: append_eq_append_conv2)
    have "prefix (fst (read_pty_chunks \<lparr>incoming = d, ending = e\<rparr>)) cs"
      using Cons.IH[OF _ d(2)] Cons.prems(1) by simp
    then show ?thesis
      using Cons.prems(1) d(1)
      by (subst read_pty_chunks.simps) (auto simp: read_pty_chunk_of_chunk split: prod.split)
  next
    case False
    then obtain y where y: "chunk_bytes c = bs @ y" "y \<noteq> []"
      using split by (auto simp: append_eq_append_conv2)
    have "fst (read_pty_chunk \<lparr>incoming = bs, ending = e\<rparr>) \<in> {Inr None, Inl BrokenPipe}"
      using read_pty_chunk_short_header[of bs e] read_pty_chunk_cut_body[OF _ y] Cons.prems(1)
      by (cases "length bs < 12") (auto split: stream_end.split)
    then show ?thesis
      by (subst read_pty_chunks.simps) (auto split: prod.splits)
  qed
qed

lemma write_pty_chunk_outgoing:
  "outgoing (snd (write_pty_chunk sq data s)) = outgoing s @
     (case budget s of None \<Rightarrow> chunk_bytes (sq, data) | Some k \<Rightarrow> take k (chunk_bytes (sq, data)))"
  by (auto simp: write_pty_chunk_def write_all_def chunk_bytes_def Let_def split: option.split)

lemma write_pty_chunk_budget:
  "budget (snd (write_pty_chunk sq data s)) =
     map_option (\<lambda>k. k - length (chunk_bytes (sq, data))) (budget s)"
  by (auto simp: write_pty_chunk_def write_all_def length_chunk_bytes Let_def split: option.split)

lemma write_pty_chunk_result:
  "fst (write_pty_chunk sq data s) =
     (case budget s of None \<Rightarrow> Inr ()
      | Some k \<Rightarrow> if length (chunk_bytes (sq, data)) \<le> k then Inr () else Inl BrokenPipe)"
  by (auto simp: write_pty_chunk_def write_all_def length_chunk_bytes Let_def split: option.split)

lemma write_pty_chunks_outgoing:
  "outgoing (snd (write_pty_chunks cs s)) = outgoing s @
     (case budget s of None \<Rightarrow> concat (map chunk_bytes cs)
      | Some k \<Rightarrow> take k (concat (map chunk_bytes cs)))"
proof (induction cs arbitrary: s)
  case (Cons c cs)
  obtain sq data where c: "c = (sq, data)" by (cases c)
  obtain res s1 where w: "write_pty_chunk sq data s = (res, s1)" by fastforce
  show ?case
    using Cons.IH[of s1] write_pty_chunk_outgoing[of sq data s] write_pty_chunk_budget[of sq data s]
      write_pty_chunk_result[of sq data s]
    by (auto simp: c w split: option.splits sum.splits if_splits)
qed (simp split: option.split)

lemma ct_diff_or: "ct_diff d ps = Bit_Operations.or d (ct_diff 0 ps)"
proof (induction ps arbitrary: d)
  case (Cons p ps)
  obtain x y where p: "p = (x, y)" by (cases p)
  show ?case
    using Cons.IH[of "Bit_Operations.or d (Bit_Operations.xor x y)"]
      Cons.IH[of "Bit_Operations.xor x y"]
    by (simp add: p or.assoc)
qed simp

lemma or_eq_0_word: "Bit_Operations.or (a :: 'a::len word) b = 0 \<longleftrightarrow> a = 0 \<and> b = 0"
  by (auto simp: bit_eq_iff bit_simps)

lemma xor_eq_0_word: "Bit_Operations.xor (a :: 'a::len word) b = 0 \<longleftrightarrow> a = b"
  by (auto simp: bit_eq_iff bit_simps)

lemma ct_diff_0_iff: "ct_diff 0 ps = 0 \<longleftrightarrow> (\<forall>(x, y) \<in> set ps. x = y)"
proof (induction ps)
  case (Cons p ps)
  obtain x y where p: "p = (x, y)" by (cases p)
  have "ct_diff 0 (p # ps) = 0 \<longleftrightarrow> x = y \<and> ct_diff 0 ps = 0"
    by (simp add: p) (subst ct_diff_or, simp add: or_eq_0_word xor_eq_0_word)
  then show ?case using Cons.IH by (simp add: p)
qed simp

lemma constant_time_eq_iff_eq: "constant_time_eq a b \<longleftrightarrow> a = b"
proof (cases "length a = length b")
  case True
  then have "(\<forall>(x, y) \<in> set (zip a b). x = y) \<longleftrightarrow> a = b"
    by (induction a b rule: list_induct2) auto
  with True show ?thesis by (simp add: constant_time_eq_def ct_diff_0_iff)
next
  case False
  then show ?thesis by (auto simp: constant_time_eq_def)
qed

definition msg_bytes :: "(Envelope \<Rightarrow> bytes) \<Rightarrow> Envelope \<Rightarrow> bytes" where
  "msg_bytes encode env = be_bytes 4 (length (encode env)) @ encode env"

lemma write_msg_unlimited:
  assumes "length (encode env) \<le> MAX_CONTROL_MSG"
  shows "write_msg encode env \<lparr>outgoing = out, budget = None\<rparr> =
    (Inr (), \<lparr>outgoing = out @ msg_bytes encode env, budget = None\<rparr>)"
proof -
  have lt: "length (encode env) < 2 ^ 32" using assms by (auto simp: MAX_CONTROL_MSG_def)
  show ?thesis
    by (simp add: write_msg_def write_framed_def write_all_def msg_bytes_def Let_def unat_word_of_len[OF lt])
qed

lemma read_msg_of_msg:
  assumes "length (encode env) \<le> MAX_CONTROL_MSG" and "decode (encode env) = Some env"
  shows "read_msg decode \<lparr>incoming = msg_bytes encode env @ rest, ending = e\<rparr> =
    (Inr (Some env), \<lparr>incoming = rest, ending = e\<rparr>)"
proof -
  have lt: "length (encode env) < 2 ^ 32" and le: "length (encode env) \<le> 4194304"
    using assms(1) by (auto simp: MAX_CONTROL_MSG_def)
  have l: "from_be_bytes (be_bytes 4 (length (encode env))) = length (encode env)"
    using lt by (simp add: from_be_bytes_be_bytes)
  show ?thesis
    using le assms(2) by (simp add: read_msg_def msg_bytes_def io_simps l MAX_CONTROL_MSG_def)
qed

lemma read_tag_Cons: "read_tag \<lparr>incoming = t # rest, ending = e\<rparr> = (Inr t, \<lparr>incoming = rest, ending = e\<rparr>)"
  by (simp add: read_tag_def read_exact_def)

section \<open>Properties\<close>

text \<open>C18 (round trip): chunks of at most 1 MiB written one after the other with
  \<open>write_pty_chunk\<close> are read back by the reader loop unchanged and in order, and the loop then
  sees the clean end of the stream.\<close>

theorem pty_stream_round_trip:
  assumes "list_all chunk_ok cs"
  shows "read_pty_chunks \<lparr>incoming = outgoing (snd (write_pty_chunks cs \<lparr>outgoing = [], budget = None\<rparr>)),
      ending = Finished\<rparr> = (cs, Inr ())"
  using read_pty_chunks_of_chunks[OF assms, of "[]" Finished] by (simp add: write_pty_chunks_outgoing)

theorem pty_stream_round_trip_witness:
  "list_all chunk_ok [(1, [65, 66]), (2, [])] \<and>
   read_pty_chunks \<lparr>incoming = outgoing (snd (write_pty_chunks [(1, [65, 66]), (2, [])]
      \<lparr>outgoing = [], budget = None\<rparr>)), ending = Finished\<rparr> = ([(1, [65, 66]), (2, [])], Inr ())"
proof -
  have h: "list_all chunk_ok [(1, [65, 66]), (2, [])]"
    by (simp add: chunk_ok_def MAX_PTY_CHUNK_def)
  show ?thesis using h pty_stream_round_trip[OF h] by simp
qed

text \<open>C19 (safety): when the connection dies after any number \<open>k\<close> of bytes, the reader loop hands
  on a prefix of the chunks that were written: never a truncated, merged or corrupted chunk.\<close>

theorem pty_stream_cut:
  assumes "list_all chunk_ok cs"
  shows "prefix (fst (read_pty_chunks
      \<lparr>incoming = outgoing (snd (write_pty_chunks cs \<lparr>outgoing = [], budget = Some k\<rparr>)),
       ending = e\<rparr>)) cs"
proof -
  have "concat (map chunk_bytes cs) = take k (concat (map chunk_bytes cs)) @ drop k (concat (map chunk_bytes cs))"
    by simp
  from read_pty_chunks_of_prefix[OF assms this] show ?thesis by (simp add: write_pty_chunks_outgoing)
qed

theorem pty_stream_cut_witness:
  "list_all chunk_ok [(1, [65, 66]), (2, [67])] \<and>
   prefix (fst (read_pty_chunks
      \<lparr>incoming = outgoing (snd (write_pty_chunks [(1, [65, 66]), (2, [67])]
         \<lparr>outgoing = [], budget = Some 20\<rparr>)), ending = Lost\<rparr>)) [(1, [65, 66]), (2, [67])]"
proof -
  have h: "list_all chunk_ok [(1, [65, 66]), (2, [67])]"
    by (simp add: chunk_ok_def MAX_PTY_CHUNK_def)
  show ?thesis using h pty_stream_cut[OF h, of 20 Lost] by simp
qed

text \<open>(round trip): an envelope whose encoding has at most 4 MiB and is one the codec decodes
  again is read back by \<open>read_msg\<close>, which consumes exactly what \<open>write_msg\<close> wrote and leaves the
  rest of the stream.\<close>

theorem msg_round_trip:
  assumes "length (encode env) \<le> MAX_CONTROL_MSG" and "decode (encode env) = Some env"
  shows "read_msg decode
      \<lparr>incoming = outgoing (snd (write_msg encode env \<lparr>outgoing = [], budget = None\<rparr>)) @ rest, ending = e\<rparr> =
      (Inr (Some env), \<lparr>incoming = rest, ending = e\<rparr>)"
  using read_msg_of_msg[where encode = encode and decode = decode, OF assms] write_msg_unlimited[where encode = encode, OF assms(1)]
  by simp

theorem msg_round_trip_witness:
  "read_msg (\<lambda>bs. if bs = [74, 0] then Some (envelope_of PDisconnect) else None)
      \<lparr>incoming = outgoing (snd (write_msg (\<lambda>_. [74, 0]) (envelope_of PDisconnect)
         \<lparr>outgoing = [], budget = None\<rparr>)) @ [9], ending = Finished\<rparr> =
      (Inr (Some (envelope_of PDisconnect)), \<lparr>incoming = [9], ending = Finished\<rparr>)"
  by (rule msg_round_trip) (simp_all add: MAX_CONTROL_MSG_def)

text \<open>C40 (bounds): a header that announces more than the limit is refused with \<open>InvalidData\<close> by
  both readers before any of the body is read, whatever follows it.\<close>

theorem oversized_frames_rejected:
  assumes "length len_buf = 4" and "length seq_buf = 8"
  shows "(MAX_CONTROL_MSG < from_be_bytes len_buf \<longrightarrow>
      read_msg decode \<lparr>incoming = len_buf @ body, ending = e\<rparr> =
        (Inl InvalidData, \<lparr>incoming = body, ending = e\<rparr>))
    \<and> (MAX_PTY_CHUNK < from_be_bytes len_buf \<longrightarrow>
      read_pty_chunk \<lparr>incoming = seq_buf @ len_buf @ body, ending = e\<rparr> =
        (Inl InvalidData, \<lparr>incoming = body, ending = e\<rparr>))"
  using assms read_exact_append[of "seq_buf @ len_buf" 12 body e]
  by (simp add: read_msg_def read_pty_chunk_def io_simps)

theorem oversized_frames_rejected_witness:
  "read_msg (\<lambda>_. None) \<lparr>incoming = [1, 0, 0, 1] @ [7], ending = Lost\<rparr> =
      (Inl InvalidData, \<lparr>incoming = [7], ending = Lost\<rparr>)
   \<and> read_pty_chunk \<lparr>incoming = [0, 0, 0, 0, 0, 0, 0, 1] @ [1, 0, 0, 1] @ [7], ending = Lost\<rparr> =
      (Inl InvalidData, \<lparr>incoming = [7], ending = Lost\<rparr>)"
  using oversized_frames_rejected[of "[1, 0, 0, 1]" "[0, 0, 0, 0, 0, 0, 0, 1]" "\<lambda>_. None" "[7]" Lost]
  by (simp add: MAX_CONTROL_MSG_def MAX_PTY_CHUNK_def from_be_bytes_def)

text \<open>(functional): the constant-time comparison that guards the passkey, the session id and
  the X11 cookie decides equality of byte strings.\<close>

theorem constant_time_eq_iff: "constant_time_eq a b \<longleftrightarrow> a = b"
  by (rule constant_time_eq_iff_eq)

end
