(* ===== verification/Client_Stdin.thy ===== *)
theory Client_Stdin
  imports Session_State Quic_Framing
begin

text \<open>
  The input side of \<open>src/bin/etr.rs\<close>: the stdin reader of \<open>run_connection_loop\<close> with its \<open>~.\<close> escape,
  and the stdin task of \<open>run_session\<close> that numbers, records and sends what the reader hands on, and
  relays the end of the input of a remote command as \<open>VEOF\<close>.

  The reference definition \<open>escape_stream\<close> reads the input as one stream of bytes; the code reads it in
  pieces of at most 1024 bytes.
\<close>

section \<open>The escape machine\<close>

definition ESCAPE_CHAR :: u8 where "ESCAPE_CHAR = 126"
definition DOT :: u8 where "DOT = 46"

definition line_end :: "u8 \<Rightarrow> bool" where
  "line_end b \<longleftrightarrow> b = 13 \<or> b = 10"

record escape_state =
  at_line_start :: bool
  escape_pending :: bool

definition escape_init :: escape_state where
  "escape_init = \<lparr>at_line_start = True, escape_pending = False\<rparr>"

text \<open>The loop over the bytes of one read: \<open>None\<close> is the force-disconnect.\<close>

fun escape_bytes :: "escape_state \<Rightarrow> bytes \<Rightarrow> bytes \<Rightarrow> (bytes \<times> escape_state) option" where
  "escape_bytes st out [] = Some (out, st)"
| "escape_bytes st out (b # bs) =
     (if escape_pending st
      then (if b = DOT then None
            else if b = ESCAPE_CHAR
            then escape_bytes (st\<lparr>escape_pending := False, at_line_start := False\<rparr>) (out @ [ESCAPE_CHAR]) bs
            else escape_bytes (st\<lparr>escape_pending := False, at_line_start := line_end b\<rparr>)
                   (out @ [ESCAPE_CHAR, b]) bs)
      else if b = ESCAPE_CHAR \<and> at_line_start st
      then escape_bytes (st\<lparr>escape_pending := True\<rparr>) out bs
      else escape_bytes (st\<lparr>at_line_start := line_end b\<rparr>) (out @ [b]) bs)"

text \<open>The reader: the chunks it sends and whether it ended with the force-disconnect.  An empty read
  is the end of the input; an empty result is not sent.\<close>

fun stdin_reader :: "escape_state \<Rightarrow> bytes list \<Rightarrow> bytes list \<times> bool" where
  "stdin_reader st [] = ([], False)"
| "stdin_reader st (r # rs) =
     (if r = [] then ([], False)
      else (case escape_bytes st [] r of
              None \<Rightarrow> ([], True)
            | Some (out, st') \<Rightarrow>
                (case stdin_reader st' rs of
                   (sent, quit) \<Rightarrow> (if out = [] then sent else out # sent, quit))))"

section \<open>The stdin task\<close>

text \<open>One turn of the task: what the channel yields (\<open>None\<close>: closed), and the result: the chunk to
  number and send, or the task parks or ends.\<close>

datatype stdin_turn = SendInput bytes bool | Park | EndTask

definition stdin_turn_of :: "bool \<Rightarrow> bool \<Rightarrow> bytes option \<Rightarrow> stdin_turn" where
  "stdin_turn_of has_remote_command eof_signalled received =
     (case received of
        Some p \<Rightarrow> SendInput p eof_signalled
      | None \<Rightarrow>
          (if has_remote_command \<and> \<not> eof_signalled then SendInput [4] True
           else if has_remote_command then Park
           else EndTask))"

text \<open>Number, record and write; \<open>None\<close> is the panic of \<open>expect\<close>.\<close>

definition send_input ::
    "bytes \<Rightarrow> SessionState \<Rightarrow> send_stream \<Rightarrow> (unit io_result \<times> SessionState \<times> send_stream) option" where
  "send_input data st pty_send =
     (case send_chunk st data of
        None \<Rightarrow> None
      | Some (sq, st') \<Rightarrow>
          (case write_pty_chunk sq data pty_send of (res, s') \<Rightarrow> Some (res, st', s')))"

text \<open>The task on the chunks the channel yields before it closes, or \<open>closed = False\<close>: before it is
  aborted.  The result says whether the task ended by itself.\<close>

fun stdin_task ::
    "bool \<Rightarrow> bool \<Rightarrow> bytes list \<Rightarrow> bool \<Rightarrow> SessionState \<Rightarrow> send_stream \<Rightarrow> (bool \<times> SessionState \<times> send_stream) option" where
  "stdin_task cmd eof (p # ps) closed st s =
     (case stdin_turn_of cmd eof (Some p) of
        SendInput d eof' \<Rightarrow>
          (case send_input d st s of
             None \<Rightarrow> None
           | Some (Inl _, st', s') \<Rightarrow> Some (True, st', s')
           | Some (Inr _, st', s') \<Rightarrow> stdin_task cmd eof' ps closed st' s')
      | Park \<Rightarrow> Some (False, st, s)
      | EndTask \<Rightarrow> Some (True, st, s))"
| "stdin_task cmd eof [] closed st s =
     (if \<not> closed then Some (False, st, s)
      else (case stdin_turn_of cmd eof None of
              SendInput d eof' \<Rightarrow>
                (case send_input d st s of
                   None \<Rightarrow> None
                 | Some (Inl _, st', s') \<Rightarrow> Some (True, st', s')
                 | Some (Inr _, st', s') \<Rightarrow> Some (stdin_turn_of cmd eof' None = EndTask, st', s'))
            | Park \<Rightarrow> Some (False, st, s)
            | EndTask \<Rightarrow> Some (True, st, s)))"

section \<open>Reference\<close>

text \<open>The escape on a stream of bytes: \<open>~\<close> is special only at the start of a line; \<open>~.\<close> ends, \<open>~~\<close> is
  \<open>~\<close>, and any other pair is itself.  The result is the output, and whether \<open>~.\<close> was met; a \<open>~\<close> at the
  very end of the input is still undecided and not part of the output.\<close>

fun escape_stream :: "bool \<Rightarrow> bytes \<Rightarrow> bytes \<times> bool" where
  "escape_stream bol [] = ([], False)"
| "escape_stream bol [b] = (if b = ESCAPE_CHAR \<and> bol then ([], False) else ([b], False))"
| "escape_stream bol (b # c # bs) =
     (if b = ESCAPE_CHAR \<and> bol
      then (if c = DOT then ([], True)
            else if c = ESCAPE_CHAR
            then (case escape_stream False bs of (out, q) \<Rightarrow> (ESCAPE_CHAR # out, q))
            else (case escape_stream (line_end c) bs of (out, q) \<Rightarrow> (ESCAPE_CHAR # c # out, q)))
      else (case escape_stream (line_end b) (c # bs) of (out, q) \<Rightarrow> (b # out, q)))"

text \<open>Input as a user types it to have it arrive unchanged: every \<open>~\<close> at the start of a line doubled.\<close>

fun type_literally :: "bool \<Rightarrow> bytes \<Rightarrow> bytes" where
  "type_literally bol [] = []"
| "type_literally bol (b # bs) =
     (if b = ESCAPE_CHAR \<and> bol then ESCAPE_CHAR # ESCAPE_CHAR # type_literally False bs
      else b # type_literally (line_end b) bs)"

section \<open>Lemmas\<close>

lemma escape_char_facts [simp]:
  "DOT \<noteq> ESCAPE_CHAR" "ESCAPE_CHAR \<noteq> DOT" "\<not> line_end ESCAPE_CHAR"
  by (simp_all add: DOT_def ESCAPE_CHAR_def line_end_def)

lemma escape_bytes_out:
  "escape_bytes st out bs = map_option (\<lambda>(o', st'). (out @ o', st')) (escape_bytes st [] bs)"
proof (induction bs arbitrary: st out)
  case (Cons b bs)
  have pre: "escape_bytes s (pre @ x) bs = map_option (\<lambda>(o', st'). (pre @ o', st')) (escape_bytes s x bs)"
    for s pre x
    using Cons.IH[of s "pre @ x"] Cons.IH[of s x] by (simp add: option.map_comp comp_def case_prod_unfold)
  show ?case using pre[of _ out "[]"] by (simp add: pre)
qed simp

lemma escape_bytes_append:
  "escape_bytes st out (xs @ ys) =
     Option.bind (escape_bytes st out xs) (\<lambda>(o', st'). escape_bytes st' o' ys)"
  by (induction xs arbitrary: st out) auto

text \<open>What the machine still owes for a state: the pending \<open>~\<close> in front of the rest of the input.\<close>

definition owed :: "escape_state \<Rightarrow> bytes" where
  "owed st = (if escape_pending st then [ESCAPE_CHAR] else [])"

definition bol_of :: "escape_state \<Rightarrow> bool" where
  "bol_of st = (escape_pending st \<or> at_line_start st)"

lemma escape_bytes_stream:
  "escape_pending st \<longrightarrow> at_line_start st \<Longrightarrow>
   (case escape_bytes st [] bs of
      None \<Rightarrow> snd (escape_stream (bol_of st) (owed st @ bs))
    | Some (out, st') \<Rightarrow> (escape_pending st' \<longrightarrow> at_line_start st') \<and>
        (\<forall>rest. escape_stream (bol_of st) (owed st @ bs @ rest) =
           (case escape_stream (bol_of st') (owed st' @ rest) of (o', q) \<Rightarrow> (out @ o', q))))"
proof (induction bs arbitrary: st)
  case Nil
  then show ?case by (simp add: case_prod_unfold)
next
  case (Cons b bs)
  note out = escape_bytes_out
  show ?case
  proof (cases "escape_pending st")
    case True
    show ?thesis
    proof (cases "b = DOT")
      case False
      note IH = Cons.IH[of "st\<lparr>escape_pending := False, at_line_start := (b \<noteq> ESCAPE_CHAR \<and> line_end b)\<rparr>"]
      show ?thesis
        using IH True False
        by (cases "b = ESCAPE_CHAR")
          (auto simp: owed_def bol_of_def out[of _ "[ESCAPE_CHAR]"] out[of _ "[ESCAPE_CHAR, b]"]
            case_prod_unfold split: option.splits)
    qed (use True in \<open>simp add: owed_def bol_of_def\<close>)
  next
    case np: False
    show ?thesis
    proof (cases "b = ESCAPE_CHAR \<and> at_line_start st")
      case True
      show ?thesis
        using Cons.IH[of "st\<lparr>escape_pending := True\<rparr>"] True np
        by (auto simp: owed_def bol_of_def split: option.splits)
    next
      case False
      have step: "escape_stream (at_line_start st) (b # xs) =
          (case escape_stream (line_end b) xs of (o', q) \<Rightarrow> (b # o', q))" for xs
        using False by (cases xs) auto
      show ?thesis
        using Cons.IH[of "st\<lparr>at_line_start := line_end b\<rparr>"] False np
        by (auto simp: owed_def bol_of_def step out[of _ "[b]"] case_prod_unfold split: option.splits)
    qed
  qed
qed

lemma stdin_reader_stream:
  assumes "escape_pending st \<longrightarrow> at_line_start st" and "[] \<notin> set reads"
  shows "(case stdin_reader st reads of (sent, quit) \<Rightarrow>
    quit = snd (escape_stream (bol_of st) (owed st @ concat reads)) \<and>
    (if quit then prefix (concat sent) (fst (escape_stream (bol_of st) (owed st @ concat reads)))
     else concat sent = fst (escape_stream (bol_of st) (owed st @ concat reads))))"
  using assms
proof (induction reads arbitrary: st)
  case Nil
  then show ?case by (auto simp: owed_def bol_of_def)
next
  case (Cons r rs)
  show ?case
  proof (cases "escape_bytes st [] r")
    case None
    have quit: "snd (escape_stream bol (xs @ ys))" if "snd (escape_stream bol xs)" for bol xs ys
      using that by (induction bol xs rule: escape_stream.induct) (auto simp: case_prod_unfold split: if_splits)
    have "snd (escape_stream (bol_of st) ((owed st @ r) @ concat rs))"
      by (rule quit) (use escape_bytes_stream[OF Cons.prems(1), of r] None in simp)
    then show ?thesis using Cons.prems(2) None by auto
  next
    case (Some p)
    obtain out st' where p: "p = (out, st')" by (cases p)
    have inv: "escape_pending st' \<longrightarrow> at_line_start st'"
      and eq: "escape_stream (bol_of st) (owed st @ r @ concat rs) =
        (case escape_stream (bol_of st') (owed st' @ concat rs) of (o', q) \<Rightarrow> (out @ o', q))"
      using escape_bytes_stream[OF Cons.prems(1), of r] Some p by auto
    from Cons.IH[OF inv] Cons.prems(2) show ?thesis
      by (auto simp: Some p eq case_prod_unfold split: if_splits)
  qed
qed

lemma init_stream [simp]: "bol_of escape_init" "owed escape_init = []" "\<not> escape_pending escape_init"
  by (simp_all add: escape_init_def owed_def bol_of_def)

lemma type_literally_stream:
  "escape_stream bol (type_literally bol d) = (d, False)"
proof (induction d arbitrary: bol)
  case (Cons b bs)
  show ?case
  proof (cases "b = ESCAPE_CHAR \<and> bol")
    case False
    have "escape_stream bol (b # xs) = (case escape_stream (line_end b) xs of (o', q) \<Rightarrow> (b # o', q))" for xs
      using False by (cases xs) auto
    then show ?thesis using Cons.IH False by auto
  qed (use Cons.IH in simp)
qed simp

text \<open>Piped input is escaped like typed input: a file with a line that begins with \<open>~.\<close> ends the
  session there, and what the same read held before that line is lost; a file that ends in a \<open>~\<close> at
  the start of a line loses it.\<close>

lemma piped_input_not_transparent:
  "stdin_reader escape_init [[97, 10, 126, 46, 10]] = ([], True)"
  "stdin_reader escape_init [[97, 10, 126]] = ([[97, 10]], False)"
  by (simp_all add: escape_init_def ESCAPE_CHAR_def DOT_def line_end_def)

section \<open>Properties\<close>

text \<open>C24 (equivalence): the escape machine does not depend on how the input is cut into reads: it
  ends with the force-disconnect exactly when \<open>~.\<close> stands at the start of a line of the whole input,
  and otherwise the chunks it sends are together the whole input with the escapes resolved.  After a
  force-disconnect what was sent is a prefix of the input before the \<open>~.\<close>.\<close>

theorem escape_independent_of_reads:
  assumes "[] \<notin> set reads" and "stdin_reader escape_init reads = (sent, quit)"
  shows "quit = snd (escape_stream True (concat reads)) \<and>
    (if quit then prefix (concat sent) (fst (escape_stream True (concat reads)))
     else concat sent = fst (escape_stream True (concat reads)))"
  using stdin_reader_stream[OF _ assms(1), of escape_init] assms(2) by auto

theorem escape_independent_of_reads_witness:
  "\<exists>sent. stdin_reader escape_init [[97, 13, 126], [126, 98]] = (sent, False) \<and> concat sent = [97, 13, 126, 98]"
proof -
  have e: "stdin_reader escape_init [[97, 13, 126], [126, 98]] = ([[97, 13], [126, 98]], False)"
    by (simp add: escape_init_def ESCAPE_CHAR_def DOT_def line_end_def)
  show ?thesis using escape_independent_of_reads[OF _ e] e by auto
qed

text \<open>(round trip): whatever bytes a user wants to send, typing them with every \<open>~\<close> at the start of a
  line doubled sends exactly them, however the terminal cuts them into reads.\<close>

theorem doubled_tilde_is_literal:
  assumes "[] \<notin> set reads" and "concat reads = type_literally True data"
  shows "concat (fst (stdin_reader escape_init reads)) = data \<and> \<not> snd (stdin_reader escape_init reads)"
  using stdin_reader_stream[OF _ assms(1), of escape_init] type_literally_stream[of True data] assms(2)
  by (auto simp: case_prod_unfold)

theorem doubled_tilde_is_literal_witness:
  "concat (fst (stdin_reader escape_init [[126], [126, 46]])) = [126, 46]"
  using doubled_tilde_is_literal[of "[[126], [126, 46]]" "[126, 46]"]
  by (simp add: ESCAPE_CHAR_def line_end_def)

end
