(* ===== verification/Addr_Family.thy ===== *)
theory Addr_Family
  imports Etr_Prelude "HOL-Library.Multiset"
begin

text \<open>
  \<open>src/addrfam.rs\<close>: the address-family preference and the resolution helpers.  Name resolution
  (\<open>tokio::net::lookup_host\<close>) and the kernel's routing answer (\<open>UdpSocket::bind\<close> and
  \<open>connect\<close>) are parameters: a function from the host text to an optional address list, and
  predicates on bind text and address.
\<close>

section \<open>Socket addresses\<close>

datatype IpAddr = V4 u32 | V6 "u16 list"

datatype SocketAddr = SocketAddr (sa_ip: IpAddr) (sa_port: u16)

fun is_ipv6 :: "SocketAddr \<Rightarrow> bool" where
  "is_ipv6 (SocketAddr (V4 _) _) = False"
| "is_ipv6 (SocketAddr (V6 _) _) = True"

definition is_ipv4 :: "SocketAddr \<Rightarrow> bool" where
  "is_ipv4 a \<longleftrightarrow> \<not> is_ipv6 a"

section \<open>The preference\<close>

datatype AddrPref = Auto | Ipv4 | Ipv6

fun from_flags :: "bool \<Rightarrow> bool \<Rightarrow> AddrPref" where
  "from_flags _ True = Ipv6"
| "from_flags True False = Ipv4"
| "from_flags False False = Auto"

definition from_config :: "string option \<Rightarrow> AddrPref" where
  "from_config value =
     (case map_option (\<lambda>v. to_ascii_lowercase (trim v)) value of
        None \<Rightarrow> Auto
      | Some v \<Rightarrow>
          (if v \<in> {''ipv4'', ''v4'', ''4'', ''inet''} then Ipv4
           else if v \<in> {''ipv6'', ''v6'', ''6'', ''inet6''} then Ipv6
           else Auto))"

definition pref_or :: "AddrPref \<Rightarrow> AddrPref \<Rightarrow> AddrPref" where
  "pref_or p fallback = (case p of Auto \<Rightarrow> fallback | other \<Rightarrow> other)"

fun ssh_flag :: "AddrPref \<Rightarrow> string option" where
  "ssh_flag Auto = None"
| "ssh_flag Ipv4 = Some ''-4''"
| "ssh_flag Ipv6 = Some ''-6''"

fun wire :: "AddrPref \<Rightarrow> string option" where
  "wire Auto = None"
| "wire Ipv4 = Some ''4''"
| "wire Ipv6 = Some ''6''"

definition from_wire :: "string \<Rightarrow> AddrPref" where
  "from_wire value =
     (let v = trim value in if v = ''4'' then Ipv4 else if v = ''6'' then Ipv6 else Auto)"

fun pref_as_str :: "AddrPref \<Rightarrow> string" where
  "pref_as_str Auto = ''auto''"
| "pref_as_str Ipv4 = ''ipv4''"
| "pref_as_str Ipv6 = ''ipv6''"

fun pref_matches :: "AddrPref \<Rightarrow> SocketAddr \<Rightarrow> bool" where
  "pref_matches Auto a = False"
| "pref_matches Ipv4 a = is_ipv4 a"
| "pref_matches Ipv6 a = is_ipv6 a"

section \<open>Resolution\<close>

definition order_by_family :: "SocketAddr list \<Rightarrow> AddrPref \<Rightarrow> SocketAddr list" where
  "order_by_family addrs pref =
     (case pref of
        Auto \<Rightarrow> addrs
      | _ \<Rightarrow> filter (pref_matches pref) addrs @ filter (\<lambda>a. \<not> pref_matches pref a) addrs)"

text \<open>The kernel as the probe sees it: whether an ephemeral socket can be bound on the wildcard
  text, and whether a socket so bound has a route to the address.\<close>

record kernel_routes =
  can_bind :: "string \<Rightarrow> bool"
  has_route :: "SocketAddr \<Rightarrow> bool"

definition wildcard_bind :: "SocketAddr \<Rightarrow> string" where
  "wildcard_bind a = (if is_ipv6 a then ''[::]:0'' else ''0.0.0.0:0'')"

fun first_routable :: "kernel_routes \<Rightarrow> SocketAddr list \<Rightarrow> SocketAddr option" where
  "first_routable k [] = None"
| "first_routable k (a # as) =
     (if can_bind k (wildcard_bind a) \<and> has_route k a then Some a else first_routable k as)"

definition resolve_preferred ::
    "(string \<Rightarrow> SocketAddr list option) \<Rightarrow> kernel_routes \<Rightarrow> string \<Rightarrow> AddrPref \<Rightarrow> SocketAddr option" where
  "resolve_preferred lookup_host k host_port pref =
     (case lookup_host host_port of
        None \<Rightarrow> None
      | Some addrs \<Rightarrow>
          (let ordered = order_by_family addrs pref
           in case first_routable k ordered of
                Some a \<Rightarrow> Some a
              | None \<Rightarrow> (case ordered of [] \<Rightarrow> None | a # _ \<Rightarrow> Some a)))"

definition family_available ::
    "(string \<Rightarrow> SocketAddr list option) \<Rightarrow> string \<Rightarrow> AddrPref \<Rightarrow> bool" where
  "family_available lookup_host host_port pref =
     (if pref = Auto then False
      else (case lookup_host host_port of
              Some addrs \<Rightarrow> list_ex (pref_matches pref) addrs
            | None \<Rightarrow> False))"

section \<open>Lemmas\<close>

lemma mset_order_by_family: "mset (order_by_family addrs pref) = mset addrs"
  by (cases pref) (simp_all add: order_by_family_def multiset_partition[symmetric] mset_filter)

lemma set_order_by_family [simp]: "set (order_by_family addrs pref) = set addrs"
  by (metis mset_order_by_family set_mset_mset)

lemma filter_partition:
  "filter P (filter P xs @ filter (\<lambda>x. \<not> P x) xs) = filter P xs"
  "filter (\<lambda>x. \<not> P x) (filter P xs @ filter (\<lambda>x. \<not> P x) xs) = filter (\<lambda>x. \<not> P x) xs"
  by (induction xs) auto

lemma filter_order_by_family:
  "filter (pref_matches pref) (order_by_family addrs pref) = filter (pref_matches pref) addrs"
  "filter (\<lambda>a. \<not> pref_matches pref a) (order_by_family addrs pref) =
     filter (\<lambda>a. \<not> pref_matches pref a) addrs"
  using filter_partition[of "pref_matches pref" addrs]
  by (cases pref; simp only: order_by_family_def AddrPref.case)+

lemma sorted_wrt_partition:
  "sorted_wrt (\<lambda>a b. P b \<longrightarrow> P a) (filter P xs @ filter (\<lambda>x. \<not> P x) xs)"
proof -
  have "sorted_wrt (\<lambda>a b. P b \<longrightarrow> P a) (filter P xs)" by (induction xs) auto
  moreover have "sorted_wrt (\<lambda>a b. P b \<longrightarrow> P a) (filter (\<lambda>x. \<not> P x) xs)" by (induction xs) auto
  ultimately show ?thesis by (auto simp: sorted_wrt_append)
qed

lemma sorted_order_by_family:
  "sorted_wrt (\<lambda>a b. pref_matches pref b \<longrightarrow> pref_matches pref a) (order_by_family addrs pref)"
proof (cases "pref = Auto")
  case True
  then show ?thesis by (induction addrs) (auto simp: order_by_family_def)
next
  case False
  then have "order_by_family addrs pref =
      filter (pref_matches pref) addrs @ filter (\<lambda>a. \<not> pref_matches pref a) addrs"
    by (cases pref) (simp_all add: order_by_family_def)
  then show ?thesis by (simp only: sorted_wrt_partition)
qed

lemma order_by_family_preferred_first:
  "pref \<noteq> Auto \<Longrightarrow>
   \<exists>ps qs. order_by_family addrs pref = ps @ qs \<and> list_all (pref_matches pref) ps
     \<and> list_all (\<lambda>a. \<not> pref_matches pref a) qs"
  by (cases pref) (auto simp: order_by_family_def list_all_iff intro!: exI)

definition routable :: "kernel_routes \<Rightarrow> SocketAddr \<Rightarrow> bool" where
  "routable k a \<longleftrightarrow> can_bind k (wildcard_bind a) \<and> has_route k a"

lemma first_routable_find: "first_routable k as = List.find (routable k) as"
  by (induction as) (auto simp: routable_def)

lemma first_routable_None_iff: "first_routable k as = None \<longleftrightarrow> (\<forall>a \<in> set as. \<not> routable k a)"
  by (auto simp: first_routable_find find_None_iff)

lemma first_routable_Some: "first_routable k as = Some a \<Longrightarrow> a \<in> set as \<and> routable k a"
  by (auto simp: first_routable_find find_Some_iff)

lemma find_append: "List.find P (xs @ ys) = (case List.find P xs of None \<Rightarrow> List.find P ys | Some a \<Rightarrow> Some a)"
  by (induction xs) auto

lemma find_filter_ex: "\<exists>a \<in> set as. Q a \<and> P a \<Longrightarrow> \<exists>a. List.find P (filter Q as) = Some a \<and> Q a \<and> P a"
  by (induction as) auto

lemma first_routable_preferred:
  assumes "pref \<noteq> Auto" and "\<exists>a \<in> set addrs. pref_matches pref a \<and> routable k a"
  shows "\<exists>a. first_routable k (order_by_family addrs pref) = Some a \<and> pref_matches pref a \<and> routable k a"
proof -
  obtain a where "List.find (routable k) (filter (pref_matches pref) addrs) = Some a"
    "pref_matches pref a" "routable k a"
    using find_filter_ex[OF assms(2)] by blast
  then show ?thesis
    using assms(1) by (cases pref) (auto simp: first_routable_find order_by_family_def find_append)
qed

section \<open>Properties\<close>

text \<open>(functional): reordering by family loses and duplicates no address, keeps the resolver's
  order within each family, puts the preferred family first, and is the identity under \<open>Auto\<close>.\<close>

theorem order_by_family_stable:
  "mset (order_by_family addrs pref) = mset addrs
   \<and> filter (pref_matches pref) (order_by_family addrs pref) = filter (pref_matches pref) addrs
   \<and> filter (\<lambda>a. \<not> pref_matches pref a) (order_by_family addrs pref) =
       filter (\<lambda>a. \<not> pref_matches pref a) addrs
   \<and> sorted_wrt (\<lambda>a b. pref_matches pref b \<longrightarrow> pref_matches pref a) (order_by_family addrs pref)
   \<and> order_by_family addrs Auto = addrs"
proof (intro conjI)
  show "sorted_wrt (\<lambda>a b. pref_matches pref b \<longrightarrow> pref_matches pref a) (order_by_family addrs pref)"
    by (rule sorted_order_by_family)
qed (simp_all add: mset_order_by_family filter_order_by_family, simp add: order_by_family_def)

theorem order_by_family_stable_witness:
  "mset (order_by_family [SocketAddr (V6 [1]) 22, SocketAddr (V4 7) 22] Ipv4) =
     mset [SocketAddr (V6 [1]) 22, SocketAddr (V4 7) 22]
   \<and> hd (order_by_family [SocketAddr (V6 [1]) 22, SocketAddr (V4 7) 22] Ipv4) = SocketAddr (V4 7) 22"
  using order_by_family_stable[of "[SocketAddr (V6 [1]) 22, SocketAddr (V4 7) 22]" Ipv4]
  by (simp add: order_by_family_def is_ipv4_def)

text \<open>(functional): \<open>-4\<close> and \<open>-6\<close> are preferences, not restrictions.  \<open>resolve_preferred\<close>
  returns \<open>None\<close> exactly when the name resolves to nothing; otherwise it returns one of the resolved
  addresses, a routable one of the preferred family if there is one, and some routable one if there
  is any.\<close>

theorem resolve_preferred_is_preference:
  assumes "lookup_host hp = Some addrs" and "addrs \<noteq> []"
  shows "\<exists>a. resolve_preferred lookup_host k hp pref = Some a \<and> a \<in> set addrs
    \<and> ((\<exists>b \<in> set addrs. routable k b) \<longrightarrow> routable k a)
    \<and> (pref \<noteq> Auto \<longrightarrow> (\<exists>b \<in> set addrs. pref_matches pref b \<and> routable k b) \<longrightarrow> pref_matches pref a)"
proof (cases "first_routable k (order_by_family addrs pref)")
  case None
  then have none: "\<forall>b \<in> set addrs. \<not> routable k b" by (simp add: first_routable_None_iff)
  have "order_by_family addrs pref \<noteq> []" using assms(2) by (metis set_empty set_order_by_family)
  then obtain a as where a: "order_by_family addrs pref = a # as" by (cases "order_by_family addrs pref") auto
  then have "a \<in> set addrs" by (metis list.set_intros(1) set_order_by_family)
  with None none a assms(1) show ?thesis by (auto simp: resolve_preferred_def)
next
  case (Some a)
  then have "a \<in> set addrs" "routable k a" using first_routable_Some[OF Some] by auto
  moreover have "pref_matches pref a"
    if "pref \<noteq> Auto" "\<exists>b \<in> set addrs. pref_matches pref b \<and> routable k b"
    using first_routable_preferred[OF that] Some by auto
  ultimately show ?thesis using Some assms(1) by (auto simp: resolve_preferred_def Let_def)
qed

theorem resolve_preferred_is_preference_witness:
  "let addrs = [SocketAddr (V6 [1]) 22, SocketAddr (V4 7) 22];
       k = \<lparr>can_bind = \<lambda>_. True, has_route = is_ipv4\<rparr>
   in \<exists>a. resolve_preferred (\<lambda>_. Some addrs) k ''h:22'' Ipv6 = Some a \<and> a \<in> set addrs
    \<and> ((\<exists>b \<in> set addrs. routable k b) \<longrightarrow> routable k a)
    \<and> (Ipv6 \<noteq> Auto \<longrightarrow> (\<exists>b \<in> set addrs. pref_matches Ipv6 b \<and> routable k b) \<longrightarrow> pref_matches Ipv6 a)"
  unfolding Let_def by (rule resolve_preferred_is_preference) simp_all

end
