(* ===== verification/Forward_Spec.thy ===== *)
theory Forward_Spec
  imports Protocol Addr_Family
begin

text \<open>
  The forwarding-spec part of \<open>src/forward.rs\<close>: splitting, parsing and printing of \<open>-L\<close> and
  \<open>-R\<close> specs, the addresses a spec binds, and the two target resolvers.  The error strings of
  \<open>ForwardSpec::parse\<close> are constructors that carry the interpolated texts.
\<close>

record ForwardSpec =
  bind_address :: "string option"
  local_port :: u16
  remote_host :: string
  remote_port :: u16
  proto :: ForwardProto

datatype spec_error =
    InvalidSpec string
  | InvalidLocalPort string string
  | InvalidRemotePort string string
  | EmptyRemoteHost string

text \<open>The loop of \<open>split_ignoring_brackets\<close>: the piece being built, whether it is inside brackets,
  and the characters left.\<close>

fun split_loop :: "string \<Rightarrow> bool \<Rightarrow> string \<Rightarrow> string list" where
  "split_loop current in_brackets [] = [current]"
| "split_loop current in_brackets (c # cs) =
     (if c = CHR ''['' then split_loop (current @ [c]) True cs
      else if c = CHR '']'' then split_loop (current @ [c]) False cs
      else if c = CHR '':'' \<and> \<not> in_brackets then current # split_loop [] in_brackets cs
      else split_loop (current @ [c]) in_brackets cs)"

definition split_ignoring_brackets :: "string \<Rightarrow> string list" where
  "split_ignoring_brackets s = split_loop [] False s"

definition strip_proto :: "string \<Rightarrow> string \<times> ForwardProto" where
  "strip_proto s =
     (case strip_suffix_str ''/udp'' s of
        Some base \<Rightarrow> (base, Udp)
      | None \<Rightarrow> ((case strip_suffix_str ''/tcp'' s of Some base \<Rightarrow> base | None \<Rightarrow> s), Tcp))"

text \<open>The match on \<open>parts.len()\<close>: bind address, local port, remote host, remote port.\<close>

fun spec_parts :: "string list \<Rightarrow> (string option \<times> string \<times> string \<times> string) option" where
  "spec_parts [l, h, r] = Some (None, l, h, r)"
| "spec_parts [b, l, h, r] = Some (Some b, l, h, r)"
| "spec_parts _ = None"

definition parse_spec :: "string \<Rightarrow> spec_error + ForwardSpec" where
  "parse_spec s =
     (let (rest, pr) = strip_proto s
      in case spec_parts (split_ignoring_brackets rest) of
           None \<Rightarrow> Inl (InvalidSpec s)
         | Some (bind, local_port_str, host, remote_port_str) \<Rightarrow>
             (case parse_u16 local_port_str of
                None \<Rightarrow> Inl (InvalidLocalPort local_port_str s)
              | Some lp \<Rightarrow>
                  (case parse_u16 remote_port_str of
                     None \<Rightarrow> Inl (InvalidRemotePort remote_port_str s)
                   | Some rp \<Rightarrow>
                       (if host = [] then Inl (EmptyRemoteHost s)
                        else Inr \<lparr>bind_address = bind, local_port = lp, remote_host = host,
                                  remote_port = rp, proto = pr\<rparr>))))"

definition get_bind_addresses :: "ForwardSpec \<Rightarrow> bool \<Rightarrow> string list" where
  "get_bind_addresses spec gateway =
     (case bind_address spec of
        Some addr \<Rightarrow>
          (if addr = ''*'' \<or> addr = ''0.0.0.0'' \<or> addr = ''::'' \<or> addr = [] then [''[::]'']
           else [addr])
      | None \<Rightarrow> (if gateway then [''[::]''] else [''127.0.0.1'', ''[::1]'']))"

definition proto_str :: "ForwardProto \<Rightarrow> string" where
  "proto_str p = (case p of Tcp \<Rightarrow> ''tcp'' | Udp \<Rightarrow> ''udp'')"

definition show_u16 :: "u16 \<Rightarrow> string" where
  "show_u16 p = show_nat (unat p)"

definition display_spec :: "ForwardSpec \<Rightarrow> string" where
  "display_spec spec =
     (case bind_address spec of
        Some b \<Rightarrow> b @ '':'' @ show_u16 (local_port spec) @ '':'' @ remote_host spec @ '':''
                   @ show_u16 (remote_port spec) @ ''/'' @ proto_str (proto spec)
      | None \<Rightarrow> show_u16 (local_port spec) @ '':'' @ remote_host spec @ '':''
                   @ show_u16 (remote_port spec) @ ''/'' @ proto_str (proto spec))"

section \<open>Targets\<close>

definition resolve_udp_target ::
    "(string \<Rightarrow> SocketAddr list option) \<Rightarrow> kernel_routes \<Rightarrow> string \<Rightarrow> AddrPref \<Rightarrow> SocketAddr option" where
  "resolve_udp_target lookup_host k addr_str pref =
     (case lookup_host addr_str of
        None \<Rightarrow> None
      | Some addrs \<Rightarrow> first_routable k (order_by_family addrs (pref_or pref Ipv6)))"

fun connect_first ::
    "(SocketAddr \<Rightarrow> error_kind + 'conn) \<Rightarrow> error_kind \<Rightarrow> SocketAddr list \<Rightarrow> error_kind + 'conn" where
  "connect_first connect last_err [] = Inl last_err"
| "connect_first connect last_err (a # as) =
     (case connect a of Inr s \<Rightarrow> Inr s | Inl e \<Rightarrow> connect_first connect e as)"

definition connect_tcp_preferred ::
    "(string \<Rightarrow> error_kind + SocketAddr list) \<Rightarrow> (SocketAddr \<Rightarrow> error_kind + 'conn) \<Rightarrow> string \<Rightarrow> AddrPref
     \<Rightarrow> error_kind + 'conn" where
  "connect_tcp_preferred lookup_host connect addr_str pref =
     (case lookup_host addr_str of
        Inl e \<Rightarrow> Inl e
      | Inr addrs \<Rightarrow> connect_first connect InvalidInput (order_by_family addrs pref))"

section \<open>Lemmas on splitting\<close>

text \<open>The bracket state after a piece, or \<open>None\<close> once a colon outside brackets ends it.\<close>

fun part_state :: "bool \<Rightarrow> string \<Rightarrow> bool option" where
  "part_state b [] = Some b"
| "part_state b (c # cs) =
     (if c = CHR ''['' then part_state True cs
      else if c = CHR '']'' then part_state False cs
      else if c = CHR '':'' \<and> \<not> b then None
      else part_state b cs)"

definition part_ok :: "string \<Rightarrow> bool" where
  "part_ok p \<longleftrightarrow> part_state False p = Some False"

lemma part_state_append: "part_state b (xs @ ys) = Option.bind (part_state b xs) (\<lambda>b'. part_state b' ys)"
  by (induction b xs rule: part_state.induct) auto

lemma split_loop_part:
  "part_state b p = Some False \<Longrightarrow> split_loop cur b (p @ CHR '':'' # s) = (cur @ p) # split_loop [] False s"
  by (induction b p arbitrary: cur rule: part_state.induct) (auto split: if_splits)

lemma split_loop_last: "part_state b p \<noteq> None \<Longrightarrow> split_loop cur b p = [cur @ p]"
  by (induction b p arbitrary: cur rule: part_state.induct) (auto split: if_splits)

lemma split_loop_nonempty [simp]: "split_loop cur b s \<noteq> []"
  by (induction cur b s rule: split_loop.induct) auto

lemma split_loop_pieces:
  "part_state False cur = Some b \<Longrightarrow> p \<in> set (butlast (split_loop cur b s)) \<Longrightarrow> part_ok p"
  by (induction cur b s rule: split_loop.induct)
    (auto simp: part_state_append part_ok_def split: if_splits)

lemma split_loop_join:
  "concat (map (\<lambda>p. p @ '':'') (butlast (split_loop cur b s))) @ last (split_loop cur b s) = cur @ s"
  by (induction cur b s rule: split_loop.induct) auto

lemma part_ok_no_special:
  "set p \<inter> {CHR ''['', CHR '']'', CHR '':''} = {} \<Longrightarrow> part_ok p"
proof -
  have "set p \<inter> {CHR ''['', CHR '']'', CHR '':''} = {} \<Longrightarrow> part_state b p = Some b" for b
    by (induction b p rule: part_state.induct) auto
  then show "set p \<inter> {CHR ''['', CHR '']'', CHR '':''} = {} \<Longrightarrow> part_ok p"
    by (simp add: part_ok_def)
qed

lemma part_ok_show_u16 [simp]: "part_ok (show_u16 p)"
  by (rule part_ok_no_special) (auto simp: show_u16_def dest: set_show_nat)

lemma part_ok_state: "part_ok p \<Longrightarrow> part_state False p = Some False"
  by (simp add: part_ok_def)

lemma split_display3:
  assumes "part_ok l" "part_ok h" "part_ok r"
  shows "split_ignoring_brackets (l @ '':'' @ h @ '':'' @ r) = [l, h, r]"
  using assms
  by (simp add: split_ignoring_brackets_def split_loop_part split_loop_last part_ok_state)

lemma split_display4:
  assumes "part_ok b" "part_ok l" "part_ok h" "part_ok r"
  shows "split_ignoring_brackets (b @ '':'' @ l @ '':'' @ h @ '':'' @ r) = [b, l, h, r]"
  using assms
  by (simp add: split_ignoring_brackets_def split_loop_part split_loop_last part_ok_state)

lemma strip_proto_proto_str: "strip_proto (s @ ''/'' @ proto_str p) = (s, p)"
proof (cases p)
  case Tcp
  have "strip_suffix_str ''/udp'' (s @ ''/tcp'') = None"
    by (simp add: strip_suffix_str_def)
  then show ?thesis
    using strip_suffix_str_append[of "''/tcp''" s] by (simp add: strip_proto_def proto_str_def Tcp)
next
  case Udp
  then show ?thesis
    using strip_suffix_str_append[of "''/udp''" s] by (simp add: strip_proto_def proto_str_def)
qed

lemma parse_u16_show_u16 [simp]: "parse_u16 (show_u16 p) = Some p"
  by (simp add: show_u16_def parse_u16_show_nat)

text \<open>The specs that printing and parsing carry back and forth.\<close>

definition spec_ok :: "ForwardSpec \<Rightarrow> bool" where
  "spec_ok spec \<longleftrightarrow> remote_host spec \<noteq> [] \<and> part_ok (remote_host spec)
     \<and> (case bind_address spec of None \<Rightarrow> True | Some b \<Rightarrow> part_ok b)"

lemma parse_display:
  assumes "spec_ok spec"
  shows "parse_spec (display_spec spec) = Inr spec"
proof (cases "bind_address spec")
  case None
  have d: "display_spec spec = (show_u16 (local_port spec) @ '':'' @ remote_host spec @ '':''
      @ show_u16 (remote_port spec)) @ ''/'' @ proto_str (proto spec)"
    by (simp add: display_spec_def None)
  show ?thesis
    using assms None unfolding d parse_spec_def strip_proto_proto_str
    by (simp add: split_display3 spec_ok_def del: append_Cons append_assoc)
next
  case (Some b)
  have d: "display_spec spec = (b @ '':'' @ show_u16 (local_port spec) @ '':'' @ remote_host spec @ '':''
      @ show_u16 (remote_port spec)) @ ''/'' @ proto_str (proto spec)"
    by (simp add: display_spec_def Some)
  show ?thesis
    using assms Some unfolding d parse_spec_def strip_proto_proto_str
    by (simp add: split_display4 spec_ok_def del: append_Cons append_assoc)
qed

lemma spec_parts_Some:
  "spec_parts ps = Some (b, l, h, r) \<Longrightarrow>
     ps = (case b of None \<Rightarrow> [l, h, r] | Some b' \<Rightarrow> [b', l, h, r])"
  by (cases ps rule: spec_parts.cases) auto

lemma parse_spec_ok:
  assumes "parse_spec s = Inr spec"
  shows "spec_ok spec"
proof -
  obtain rest pr where sp: "strip_proto s = (rest, pr)" by fastforce
  have pieces: "part_ok p" if "p \<in> set (butlast (split_ignoring_brackets rest))" for p
    using that unfolding split_ignoring_brackets_def
    by (rule split_loop_pieces[rotated]) simp
  show ?thesis
    using assms pieces
    by (auto simp: parse_spec_def sp spec_ok_def dest!: spec_parts_Some
        split: option.splits if_splits)
qed

lemma connect_first_Inr_iff:
  "connect_first connect e0 as = Inr c \<longleftrightarrow>
     (\<exists>xs x ys. as = xs @ x # ys \<and> connect x = Inr c \<and> (\<forall>y \<in> set xs. \<exists>e. connect y = Inl e))"
  (is "_ \<longleftrightarrow> ?P as")
proof (induction as arbitrary: e0)
  case Nil
  show ?case by simp
next
  case (Cons a as)
  show ?case
  proof (cases "connect a")
    case (Inl e)
    have "?P (a # as) \<longleftrightarrow> ?P as" (is "?L \<longleftrightarrow> ?R")
    proof
      assume ?L
      then obtain xs x ys where h: "a # as = xs @ x # ys" "connect x = Inr c"
        "\<forall>y \<in> set xs. \<exists>e. connect y = Inl e" by blast
      with Inl obtain zs where "xs = a # zs" by (cases xs) auto
      with h show ?R by auto
    next
      assume ?R
      then obtain xs x ys where "as = xs @ x # ys" "connect x = Inr c"
        "\<forall>y \<in> set xs. \<exists>e. connect y = Inl e" by blast
      then show ?L using Inl by (intro exI[of _ "a # xs"] exI[of _ x] exI[of _ ys]) auto
    qed
    then show ?thesis using Inl Cons.IH by simp
  next
    case (Inr c')
    have "?P (a # as) \<longleftrightarrow> c' = c"
    proof
      assume "?P (a # as)"
      then obtain xs x ys where h: "a # as = xs @ x # ys" "connect x = Inr c"
        "\<forall>y \<in> set xs. \<exists>e. connect y = Inl e" by blast
      with Inr show "c' = c" by (cases xs) auto
    next
      assume "c' = c"
      then show "?P (a # as)" using Inr by (intro exI[of _ "[]"] exI[of _ a] exI[of _ as]) auto
    qed
    then show ?thesis using Inr by simp
  qed
qed

lemma connect_first_Inl_iff:
  "(\<exists>e. connect_first connect e0 as = Inl e) \<longleftrightarrow> (\<forall>x \<in> set as. \<exists>e. connect x = Inl e)"
  by (induction as arbitrary: e0) (auto split: sum.splits)

section \<open>Properties\<close>

text \<open>(round trip): what \<open>ForwardSpec::parse\<close> accepts is printed by \<open>Display\<close> in a form that
  parses to the same spec: bind address, both ports, host and protocol survive, bracketed IPv6
  hosts included.\<close>

theorem parse_display_parse:
  assumes "parse_spec s = Inr spec"
  shows "parse_spec (display_spec spec) = Inr spec"
  using parse_display[OF parse_spec_ok[OF assms]] .

theorem parse_display_parse_witness:
  "parse_spec (display_spec \<lparr>bind_address = Some ''[::1]'', local_port = 9090,
           remote_host = ''[::1]'', remote_port = 80, proto = Udp\<rparr>) =
      Inr \<lparr>bind_address = Some ''[::1]'', local_port = 9090, remote_host = ''[::1]'',
           remote_port = 80, proto = Udp\<rparr>"
proof -
  have "parse_spec (''[::1]'' @ '':'' @ show_u16 9090 @ '':'' @ ''[::1]'' @ '':'' @ show_u16 80 @ ''/udp'') =
      Inr \<lparr>bind_address = Some ''[::1]'', local_port = 9090, remote_host = ''[::1]'',
           remote_port = 80, proto = Udp\<rparr>"
    using parse_display[of "\<lparr>bind_address = Some ''[::1]'', local_port = 9090,
           remote_host = ''[::1]'', remote_port = 80, proto = Udp\<rparr>"]
    by (simp add: spec_ok_def part_ok_def display_spec_def proto_str_def)
  then show ?thesis by (rule parse_display_parse)
qed

text \<open>(functional): a forwarded TCP connect fails only when the name does not resolve or every
  resolved address refuses; a success is the first accepting address in preference order, so the
  family flag never decides whether the forward works.\<close>

theorem connect_tcp_preferred_spec:
  assumes "lookup_host a = Inr addrs"
  shows "(\<forall>c. connect_tcp_preferred lookup_host connect a pref = Inr c \<longleftrightarrow>
      (\<exists>xs x ys. order_by_family addrs pref = xs @ x # ys \<and> connect x = Inr c
         \<and> (\<forall>y \<in> set xs. \<exists>e. connect y = Inl e)))
    \<and> ((\<exists>e. connect_tcp_preferred lookup_host connect a pref = Inl e) \<longleftrightarrow>
      (\<forall>x \<in> set addrs. \<exists>e. connect x = Inl e))"
  using assms by (simp add: connect_tcp_preferred_def connect_first_Inr_iff connect_first_Inl_iff)

theorem connect_tcp_preferred_spec_witness:
  "let addrs = [SocketAddr (V6 [1]) 80, SocketAddr (V4 7) 80];
       connect = (\<lambda>a. if is_ipv6 a then Inl OtherError else Inr True)
   in connect_tcp_preferred (\<lambda>_. Inr addrs) connect ''h:80'' Ipv6 = Inr True
      \<and> \<not> (\<exists>e. connect_tcp_preferred (\<lambda>_. Inr addrs) connect ''h:80'' Ipv6 = Inl e)"
proof -
  let ?addrs = "[SocketAddr (V6 [1]) 80, SocketAddr (V4 7) 80]"
  let ?c = "\<lambda>a. if is_ipv6 a then Inl OtherError else Inr True"
  have "order_by_family ?addrs Ipv6 = [SocketAddr (V6 [1]) 80] @ SocketAddr (V4 7) 80 # []"
    by (simp add: order_by_family_def)
  moreover have "?c (SocketAddr (V4 7) 80) = Inr True \<and> (\<forall>y \<in> set [SocketAddr (V6 [1]) 80]. \<exists>e. ?c y = Inl e)"
    by simp
  ultimately show ?thesis
    using connect_tcp_preferred_spec[of "\<lambda>_. Inr ?addrs" "''h:80''" ?addrs ?c Ipv6]
    unfolding Let_def by (metis Inl_Inr_False)
qed

end
