(* ===== verification/Hex_Codec.thy ===== *)
theory Hex_Codec
  imports Etr_Prelude
begin

text \<open>
  \<open>hex_encode\<close> and \<open>hex_decode\<close>, which \<open>src/bin/etr.rs\<close>, \<open>src/bin/etrs.rs\<close> and
  \<open>src/forward.rs\<close> each define alike.  Decoding slices the string two bytes at a time; a slice
  that ends inside a multi-byte character panics, as string slicing does in Rust.
\<close>

definition hex_byte :: "u8 \<Rightarrow> string" where
  "hex_byte b = [digit_char (unat b div 16), digit_char (unat b mod 16)]"

definition hex_encode :: "bytes \<Rightarrow> string" where
  "hex_encode bs = concat (map hex_byte bs)"

text \<open>A UTF-8 continuation byte: an index in front of one is not a character boundary.\<close>

definition is_continuation :: "char \<Rightarrow> bool" where
  "is_continuation c \<longleftrightarrow> 128 \<le> (of_char c :: nat) \<and> (of_char c :: nat) < 192"

fun hex_pairs :: "string \<Rightarrow> bytes option outcome" where
  "hex_pairs (a # b # rest) =
     (if rest \<noteq> [] \<and> is_continuation (hd rest) then Panics
      else (case from_str_radix 8 16 [a, b] of
              None \<Rightarrow> Returns None
            | Some v \<Rightarrow>
                (case hex_pairs rest of
                   Returns (Some bs) \<Rightarrow> Returns (Some (word_of_nat v # bs))
                 | other \<Rightarrow> other)))"
| "hex_pairs _ = Returns (Some [])"

definition hex_decode :: "string \<Rightarrow> bytes option outcome" where
  "hex_decode s = (if odd (length s) then Returns None else hex_pairs s)"

section \<open>Round trip\<close>

lemma from_str_radix_hex_byte: "from_str_radix 8 16 (hex_byte b) = Some (unat b)"
proof -
  have b: "unat b < 256" using unat_lt[of b] by simp
  have "digit_char (unat b div 16) \<noteq> CHR ''+''"
  proof
    assume "digit_char (unat b div 16) = CHR ''+''"
    then have "(of_char (digit_char (unat b div 16)) :: nat) = 43" by simp
    with b show False by (simp add: of_char_digit_char split: if_splits)
  qed
  then show ?thesis
    using b by (simp add: from_str_radix_def hex_byte_def to_digit_digit_char)
qed

lemma digit_char_ascii: "d < 16 \<Longrightarrow> (of_char (digit_char d) :: nat) < 128"
  by (simp add: of_char_digit_char)

lemma hex_digit_range:
  "d < 16 \<Longrightarrow> 48 \<le> (of_char (digit_char d) :: nat) \<and> (of_char (digit_char d) :: nat) \<le> 57
     \<or> 97 \<le> (of_char (digit_char d) :: nat) \<and> (of_char (digit_char d) :: nat) \<le> 102"
  by (cases "d < 10") (simp_all add: of_char_digit_char)

lemma set_hex_encode:
  assumes "c \<in> set (hex_encode bs)"
  shows "48 \<le> (of_char c :: nat) \<and> (of_char c :: nat) \<le> 57 \<or> 97 \<le> (of_char c :: nat) \<and> (of_char c :: nat) \<le> 102"
proof -
  obtain b :: u8 where "c = digit_char (unat b div 16) \<or> c = digit_char (unat b mod 16)"
    using assms by (auto simp: hex_encode_def hex_byte_def)
  moreover have "unat b div 16 < 16" "unat b mod 16 < 16" using unat_lt[of b] by auto
  ultimately show ?thesis using hex_digit_range by blast
qed

lemma hex_encode_no_continuation: "bs \<noteq> [] \<Longrightarrow> \<not> is_continuation (hd (hex_encode bs))"
  using set_hex_encode[of "hd (hex_encode bs)" bs]
  by (cases bs) (auto simp: is_continuation_def hex_encode_def hex_byte_def)

lemma hex_encode_Nil_iff [simp]: "hex_encode bs = [] \<longleftrightarrow> bs = []"
  by (cases bs) (simp_all add: hex_encode_def hex_byte_def)

lemma length_hex_encode [simp]: "length (hex_encode bs) = 2 * length bs"
  by (induction bs) (simp_all add: hex_encode_def hex_byte_def)

lemma hex_pairs_encode: "hex_pairs (hex_encode bs) = Returns (Some bs)"
proof (induction bs)
  case (Cons b bs)
  have "hex_encode (b # bs) = digit_char (unat b div 16) # digit_char (unat b mod 16) # hex_encode bs"
    by (simp add: hex_encode_def hex_byte_def)
  then show ?case
    using Cons from_str_radix_hex_byte[of b] hex_encode_no_continuation[of bs]
    by (auto simp: hex_byte_def)
qed (simp add: hex_encode_def)

lemma hex_decode_encode: "hex_decode (hex_encode bs) = Returns (Some bs)"
  by (simp add: hex_decode_def hex_pairs_encode)

text \<open>On ASCII input decoding never panics.\<close>

lemma hex_pairs_ascii: "list_all (\<lambda>c. (of_char c :: nat) < 128) s \<Longrightarrow> hex_pairs s \<noteq> Panics"
proof (induction s rule: hex_pairs.induct)
  case (1 a b rest)
  have "rest \<noteq> [] \<Longrightarrow> \<not> is_continuation (hd rest)"
    using 1(2) by (cases rest) (simp_all add: is_continuation_def)
  with 1 show ?case by (auto split: option.split outcome.splits)
qed simp_all

text \<open>A two-byte character across a boundary of pairs does make it panic.\<close>

lemma hex_decode_panics: "hex_decode (CHR ''a'' # CHR 0xC3 # CHR 0xA9 # ''b'') = Panics"
  by (simp add: hex_decode_def is_continuation_def)

end
