(* ===== verification/Bootstrap.thy ===== *)
theory Bootstrap
  imports Hex_Codec Addr_Family
begin

text \<open>
  The SSH bootstrap: what \<open>bootstrap_ssh\<close> of \<open>src/bin/etr.rs\<close> sends through \<open>ssh\<close> and reads back, and
  what \<open>main\<close>, \<open>run_server\<close> and the start of \<open>run_session\<close> of \<open>src/bin/etrs.rs\<close> make of it.  Texts are
  the byte strings on the pipes.  The remote login shell that \<open>ssh\<close> hands the command line to is
  specified here by the POSIX quoting rules it needs (\<open>sh_lex\<close>).
\<close>

section \<open>The client: quoting and validation\<close>

definition quote_plain :: "char \<Rightarrow> bool" where
  "quote_plain c \<longleftrightarrow> is_ascii_alphanumeric c \<or> c \<in> set ''_-./:''"

text \<open>\<open>s.replace('\'', "'\\''")\<close>.\<close>

definition escape_quotes :: "string \<Rightarrow> string" where
  "escape_quotes s =
     concat (map (\<lambda>c. if c = CHR 0x27 then [CHR 0x27, CHR 0x5C, CHR 0x27, CHR 0x27] else [c]) s)"

function posix_shell_quote :: "string \<Rightarrow> string" where
  "posix_shell_quote s =
     (if s = ''~'' then ''~''
      else (case strip_prefix_str ''~/'' s of
              Some rest \<Rightarrow> (if rest = [] then ''~/'' else ''~/'' @ posix_shell_quote rest)
            | None \<Rightarrow>
                (if s \<noteq> [] \<and> list_all quote_plain s then s
                 else [CHR 0x27] @ escape_quotes s @ [CHR 0x27])))"
  by pat_completeness auto
termination
  by (relation "measure length") (auto simp: strip_prefix_str_Some_iff)

declare posix_shell_quote.simps [simp del]

datatype bootstrap_error = BadTarget | BadTerm | BadEnv | BadCommand

definition validate_bootstrap_inputs ::
    "string \<Rightarrow> string \<Rightarrow> string list \<Rightarrow> string option \<Rightarrow> bootstrap_error + unit" where
  "validate_bootstrap_inputs target term env_vars remote_command =
     (if target = [] \<or> starts_with ''-'' target then Inl BadTarget
      else if has_line_breaker term then Inl BadTerm
      else if list_ex has_line_breaker env_vars then Inl BadEnv
      else (case remote_command of
              Some cmd \<Rightarrow> (if has_line_breaker cmd then Inl BadCommand else Inr ())
            | None \<Rightarrow> Inr ()))"

section \<open>The client: what ssh is given\<close>

definition v_flag :: "nat \<Rightarrow> string" where
  "v_flag verbose = (if verbose = 0 then [] else CHR ''-'' # replicate verbose (CHR ''v''))"

text \<open>The arguments after the target are joined with blanks by \<open>ssh\<close>.\<close>

definition remote_argv :: "string \<Rightarrow> string option \<Rightarrow> nat \<Rightarrow> string list" where
  "remote_argv server_path server_log_path verbose =
     [posix_shell_quote server_path]
     @ (case server_log_path of None \<Rightarrow> [] | Some p \<Rightarrow> [''--log-path'', posix_shell_quote p])
     @ (if v_flag verbose = [] then [] else [v_flag verbose])"

definition ssh_argv ::
    "string \<Rightarrow> u16 \<Rightarrow> string option \<Rightarrow> string \<Rightarrow> string option \<Rightarrow> nat \<Rightarrow> string list" where
  "ssh_argv target ssh_port ssh_family_flag server_path server_log_path verbose =
     [''-p'', show_nat (unat ssh_port)]
     @ (case ssh_family_flag of None \<Rightarrow> [] | Some f \<Rightarrow> [f])
     @ [''--'', target] @ remote_argv server_path server_log_path verbose"

definition bootstrap_stdin ::
    "bytes \<Rightarrow> string \<Rightarrow> string \<Rightarrow> string list \<Rightarrow> bool \<Rightarrow> AddrPref \<Rightarrow> string option \<Rightarrow> string" where
  "bootstrap_stdin session_id passkey term env_vars x11_enabled addr_pref remote_command =
     hex_encode session_id @ ''/'' @ passkey @ ''/'' @ term @ [newline]
     @ concat (map (\<lambda>kv. kv @ [newline]) env_vars)
     @ (if x11_enabled then ''ETRX11:true'' @ [newline] else [])
     @ (case wire addr_pref of None \<Rightarrow> [] | Some v \<Rightarrow> ''ETRPREFER:'' @ v @ [newline])
     @ (case remote_command of None \<Rightarrow> [] | Some cmd \<Rightarrow> ''ETRCMD:'' @ cmd @ [newline])"

text \<open>One line of the reply: \<open>None\<close> is a line that is skipped.\<close>

definition parse_reply_line :: "string \<Rightarrow> (u16 \<times> bytes) option outcome" where
  "parse_reply_line line =
     (case strip_prefix_str ''PORT '' (trim line) of
        None \<Rightarrow> Returns None
      | Some rest \<Rightarrow>
          (case split_whitespace rest of
             p # c # h # _ \<Rightarrow>
               (if c = ''CERT''
                then (case parse_u16 p of
                        None \<Rightarrow> Returns None
                      | Some port \<Rightarrow>
                          (case hex_decode h of
                             Panics \<Rightarrow> Panics
                           | Returns None \<Rightarrow> Returns None
                           | Returns (Some cert) \<Rightarrow> Returns (Some (port, cert))))
                else Returns None)
           | _ \<Rightarrow> Returns None))"

fun parse_reply_lines :: "string list \<Rightarrow> (u16 \<times> bytes) io_result outcome" where
  "parse_reply_lines [] = Returns (Inl OtherError)"
| "parse_reply_lines (l # ls) =
     (case parse_reply_line l of
        Panics \<Rightarrow> Panics
      | Returns (Some r) \<Rightarrow> Returns (Inr r)
      | Returns None \<Rightarrow> parse_reply_lines ls)"

definition parse_reply :: "string \<Rightarrow> (u16 \<times> bytes) io_result outcome" where
  "parse_reply stdout = parse_reply_lines (str_lines stdout)"

text \<open>\<open>bootstrap_ssh\<close>: validate, run \<open>ssh\<close> with the arguments and standard input, check its status,
  parse its output.  \<open>ssh\<close> is a parameter: \<open>Inl\<close> when it cannot be spawned or written to, otherwise
  its exit status and output.\<close>

definition bootstrap_ssh ::
    "(string list \<Rightarrow> string \<Rightarrow> error_kind + bool \<times> string) \<Rightarrow> string \<Rightarrow> u16 \<Rightarrow> bytes \<Rightarrow> string \<Rightarrow> string
     \<Rightarrow> string \<Rightarrow> string option \<Rightarrow> string list \<Rightarrow> string option \<Rightarrow> bool \<Rightarrow> string option \<Rightarrow> AddrPref \<Rightarrow> nat
     \<Rightarrow> (u16 \<times> bytes) io_result outcome" where
  "bootstrap_ssh ssh target ssh_port session_id passkey term server_path server_log_path env_vars
     remote_command x11_enabled ssh_family_flag addr_pref verbose =
     (case validate_bootstrap_inputs target term env_vars remote_command of
        Inl _ \<Rightarrow> Returns (Inl InvalidInput)
      | Inr _ \<Rightarrow>
          (case ssh (ssh_argv target ssh_port ssh_family_flag server_path server_log_path verbose)
                    (bootstrap_stdin session_id passkey term env_vars x11_enabled addr_pref remote_command) of
             Inl e \<Rightarrow> Returns (Inl e)
           | Inr (success, stdout) \<Rightarrow>
               (if success then parse_reply stdout else Returns (Inl OtherError))))"

section \<open>The server: reading the bootstrap\<close>

datatype BootstrapLine = Env string | Command string | X11Line | Prefer AddrPref

definition parse_bootstrap_line :: "string \<Rightarrow> BootstrapLine" where
  "parse_bootstrap_line line =
     (case strip_prefix_str ''ETRCMD:'' line of
        Some cmd \<Rightarrow> Command cmd
      | None \<Rightarrow>
          (if starts_with ''ETRX11:'' line then X11Line
           else (case strip_prefix_str ''ETRPREFER:'' line of
                   Some v \<Rightarrow> Prefer (from_wire v)
                 | None \<Rightarrow> Env line)))"

record bootstrap_opts =
  bo_env :: "string list"
  bo_command :: "string option"
  bo_x11 :: bool
  bo_pref :: AddrPref

definition no_opts :: bootstrap_opts where
  "no_opts = \<lparr>bo_env = [], bo_command = None, bo_x11 = False, bo_pref = Auto\<rparr>"

fun read_opts :: "string list \<Rightarrow> bootstrap_opts \<Rightarrow> bootstrap_opts" where
  "read_opts [] b = b"
| "read_opts (l # ls) b =
     (if l = [] then b
      else read_opts ls
        (case parse_bootstrap_line l of
           Command cmd \<Rightarrow> b\<lparr>bo_command := Some cmd\<rparr>
         | X11Line \<Rightarrow> b\<lparr>bo_x11 := True\<rparr>
         | Prefer p \<Rightarrow> b\<lparr>bo_pref := p\<rparr>
         | Env kv \<Rightarrow> b\<lparr>bo_env := bo_env b @ [kv]\<rparr>))"

text \<open>\<open>read_line\<close> and the rest of standard input.\<close>

definition read_line :: "string \<Rightarrow> string \<times> string" where
  "read_line s = (case split_once newline s of None \<Rightarrow> (s, []) | Some (l, r) \<Rightarrow> (l @ [newline], r))"

definition read_header :: "string \<Rightarrow> (bytes \<times> string \<times> string) io_result outcome" where
  "read_header input =
     (case split_on (CHR ''/'') (trim input) of
        p0 # p1 # p2 # _ \<Rightarrow>
          (case hex_decode p0 of
             Panics \<Rightarrow> Panics
           | Returns None \<Rightarrow> Returns (Inl OtherError)
           | Returns (Some b) \<Rightarrow>
               (if length b = 16 then Returns (Inr (b, p1, p2)) else Returns (Inl OtherError)))
      | _ \<Rightarrow> Returns (Inl InvalidInput))"

definition read_bootstrap ::
    "string \<Rightarrow> (bytes \<times> string \<times> string \<times> bootstrap_opts) io_result outcome" where
  "read_bootstrap stdin =
     (let (line, rest) = read_line stdin
      in case read_header line of
           Panics \<Rightarrow> Panics
         | Returns (Inl e) \<Rightarrow> Returns (Inl e)
         | Returns (Inr (sid, pk, term)) \<Rightarrow>
             Returns (Inr (sid, pk, term, read_opts (str_lines rest) no_opts)))"

text \<open>The preference installed for forward targets, and the reply of the parent process.\<close>

definition effective_pref :: "bootstrap_opts \<Rightarrow> AddrPref \<Rightarrow> AddrPref" where
  "effective_pref b own_pref = pref_or (bo_pref b) own_pref"

definition server_reply :: "u16 \<Rightarrow> bytes \<Rightarrow> string" where
  "server_reply actual_port cert =
     ''PORT '' @ show_nat (unat actual_port) @ '' CERT '' @ hex_encode cert @ [newline]"

definition effective_bind_ip :: "string option \<Rightarrow> AddrPref \<Rightarrow> string" where
  "effective_bind_ip explicit pref =
     (case explicit of
        Some b \<Rightarrow> b
      | None \<Rightarrow> (if pref = Ipv4 then ''0.0.0.0'' else ''[::]''))"

definition resolve_reconnect_timeout :: "u64 option \<Rightarrow> string option \<Rightarrow> u64 option \<Rightarrow> u64" where
  "resolve_reconnect_timeout cli_val env_val cfg_val =
     (case cli_val of
        Some v \<Rightarrow> v
      | None \<Rightarrow>
          (case Option.bind env_val parse_u64 of
             Some v \<Rightarrow> v
           | None \<Rightarrow> (case cfg_val of Some v \<Rightarrow> v | None \<Rightarrow> 1800)))"

definition server_own_pref :: "bool \<Rightarrow> bool \<Rightarrow> string option \<Rightarrow> AddrPref" where
  "server_own_pref prefer_ipv4 prefer_ipv6 address_family =
     pref_or (from_flags prefer_ipv4 prefer_ipv6) (from_config address_family)"

section \<open>The server: the environment of the shell\<close>

definition BLOCKED_ENV_KEYS :: "string list" where
  "BLOCKED_ENV_KEYS =
     [''LD_PRELOAD'', ''LD_LIBRARY_PATH'', ''LD_AUDIT'', ''LD_DYNAMIC_WEAK'', ''DYLD_INSERT_LIBRARIES'',
      ''DYLD_LIBRARY_PATH'', ''DYLD_FRAMEWORK_PATH'', ''BASH_ENV'', ''ENV'']"

definition is_safe_client_env_var :: "string \<Rightarrow> bool" where
  "is_safe_client_env_var kv =
     (if has_line_breaker kv then False
      else (case split_once (CHR ''='') kv of
              None \<Rightarrow> False
            | Some (key, _) \<Rightarrow>
                (if key = [] then False
                 else \<not> list_ex (\<lambda>blocked. eq_ignore_ascii_case key blocked) BLOCKED_ENV_KEYS)))"

datatype command_line = DefaultShell | ShellCommand string string

text \<open>The program the PTY runs: \<open>$SHELL -c command\<close>, or the user's default shell.\<close>

definition shell_command :: "(string \<rightharpoonup> string) \<Rightarrow> string option \<Rightarrow> command_line" where
  "shell_command os_env remote_command =
     (case remote_command of
        Some rcmd \<Rightarrow>
          ShellCommand (case os_env ''SHELL'' of Some s \<Rightarrow> s | None \<Rightarrow> ''/bin/sh'') rcmd
      | None \<Rightarrow> DefaultShell)"

fun apply_client_env :: "string list \<Rightarrow> (string \<rightharpoonup> string) \<Rightarrow> (string \<rightharpoonup> string)" where
  "apply_client_env [] env = env"
| "apply_client_env (kv # kvs) env =
     apply_client_env kvs
       (if \<not> is_safe_client_env_var kv then env
        else (case split_once (CHR ''='') kv of
                None \<Rightarrow> env
              | Some (k, v) \<Rightarrow> env(k \<mapsto> v)))"

definition shell_env ::
    "(string \<rightharpoonup> string) \<Rightarrow> string \<Rightarrow> nat option \<Rightarrow> string \<Rightarrow> string list \<Rightarrow> (string \<rightharpoonup> string)" where
  "shell_env os_env pkg_version display_num term extra_env =
     (let env0 = os_env;
          env1 = (case display_num of
                    Some d \<Rightarrow> env0(''DISPLAY'' \<mapsto> ''localhost:'' @ show_nat d @ ''.0'')
                  | None \<Rightarrow> env0);
          env2 = env1(''TERM'' \<mapsto> term, ''ETR_CONNECTION'' \<mapsto> ''1'', ''ETR_VERSION'' \<mapsto> pkg_version);
          env3 = (case os_env ''SSH_CONNECTION'' of
                    Some v \<Rightarrow> env2(''SSH_CONNECTION'' \<mapsto> v)
                  | None \<Rightarrow> env2)
      in apply_client_env extra_env env3)"

section \<open>The remote shell\<close>

text \<open>How a POSIX shell splits a command line into words, for lines made of plain characters,
  single quotes, backslashes, blanks and leading tildes; any other unquoted character would be
  interpreted and makes the result \<open>None\<close>, as does an unterminated quote or a tilde prefix that names
  a user.  \<open>w\<close> is the word being built, if one has been started.\<close>

datatype sh_mode = Unquoted | Quoted | Escaped

definition sh_plain :: "char \<Rightarrow> bool" where
  "sh_plain c \<longleftrightarrow> quote_plain c \<or> c = CHR ''~''"

definition cur :: "string option \<Rightarrow> string" where
  "cur w = (case w of None \<Rightarrow> [] | Some x \<Rightarrow> x)"

fun sh_lex :: "string \<Rightarrow> sh_mode \<Rightarrow> string option \<Rightarrow> string \<Rightarrow> string list option" where
  "sh_lex home Unquoted w [] = Some (case w of None \<Rightarrow> [] | Some x \<Rightarrow> [x])"
| "sh_lex home Unquoted w (c # cs) =
     (if c = CHR '' '' then
        map_option (\<lambda>ws. (case w of None \<Rightarrow> ws | Some x \<Rightarrow> x # ws)) (sh_lex home Unquoted None cs)
      else if c = CHR 0x27 then sh_lex home Quoted (Some (cur w)) cs
      else if c = CHR 0x5C then sh_lex home Escaped w cs
      else if c = CHR ''~'' \<and> w = None then
        (if cs = [] \<or> hd cs = CHR ''/'' \<or> hd cs = CHR '' '' then sh_lex home Unquoted (Some home) cs else None)
      else if sh_plain c then sh_lex home Unquoted (Some (cur w @ [c])) cs
      else None)"
| "sh_lex home Quoted w [] = None"
| "sh_lex home Quoted w (c # cs) =
     (if c = CHR 0x27 then sh_lex home Unquoted (Some (cur w)) cs
      else sh_lex home Quoted (Some (cur w @ [c])) cs)"
| "sh_lex home Escaped w [] = None"
| "sh_lex home Escaped w (c # cs) =
     (if c = newline then None else sh_lex home Unquoted (Some (cur w @ [c])) cs)"

definition sh_words :: "string \<Rightarrow> string \<Rightarrow> string list option" where
  "sh_words home s = sh_lex home Unquoted None s"

text \<open>What an argument is meant to be: itself, with a leading tilde standing for the home
  directory.\<close>

definition tilde_expand :: "string \<Rightarrow> string \<Rightarrow> string" where
  "tilde_expand home s = (if s = ''~'' \<or> starts_with ''~/'' s then home @ tl s else s)"

lemma cur_Some [simp]: "cur (Some x) = x" and cur_None [simp]: "cur None = []"
  by (simp_all add: cur_def)

lemma quote_plain_special [simp]:
  "\<not> quote_plain (CHR '' '')" "\<not> quote_plain (CHR 0x27)" "\<not> quote_plain (CHR 0x5C)" "\<not> quote_plain (CHR ''~'')"
  by (simp_all add: quote_plain_def is_ascii_alphanumeric_def)

lemma sh_lex_plain:
  "list_all quote_plain s \<Longrightarrow> s \<noteq> [] \<Longrightarrow>
   sh_lex home Unquoted w (s @ rest) = sh_lex home Unquoted (Some (cur w @ s)) rest"
proof (induction s arbitrary: w)
  case (Cons c s)
  then have c: "quote_plain c" by simp
  then have ne: "c \<noteq> CHR '' ''" "c \<noteq> CHR 0x27" "c \<noteq> CHR 0x5C" "c \<noteq> CHR ''~''" by auto
  show ?case
  proof (cases "s = []")
    case True
    then show ?thesis using c ne by (simp add: sh_plain_def)
  next
    case False
    then show ?thesis using Cons c ne by (simp add: sh_plain_def)
  qed
qed simp

lemma sh_lex_quoted:
  "sh_lex home Quoted w (escape_quotes s @ CHR 0x27 # rest) = sh_lex home Unquoted (Some (cur w @ s)) rest"
  by (induction s arbitrary: w) (simp_all add: escape_quotes_def)

lemma sh_lex_quote_mid:
  "sh_lex home Unquoted (Some w) (posix_shell_quote s @ rest) = sh_lex home Unquoted (Some (w @ s)) rest"
proof (induction s arbitrary: w rule: posix_shell_quote.induct)
  case (1 s)
  show ?case
  proof (cases "s = ''~''")
    case True
    then show ?thesis by (simp add: posix_shell_quote.simps[of "''~''"] sh_plain_def)
  next
    case tilde: False
    show ?thesis
    proof (cases "strip_prefix_str ''~/'' s")
      case None
      then show ?thesis
        using tilde sh_lex_plain[of s home "Some w" rest] sh_lex_quoted[of home "Some w" s rest]
        by (simp add: posix_shell_quote.simps[of s])
    next
      case (Some r)
      then have s: "s = ''~/'' @ r" by (simp add: strip_prefix_str_Some_iff)
      have sl: "quote_plain (CHR ''/'')" by (simp add: quote_plain_def)
      show ?thesis
      proof (cases "r = []")
        case True
        then have "posix_shell_quote s = ''~/''" using Some tilde by (simp add: posix_shell_quote.simps[of s])
        with True show ?thesis using s sl by (simp add: sh_plain_def)
      next
        case False
        then have "posix_shell_quote s = ''~/'' @ posix_shell_quote r"
          using Some tilde by (simp add: posix_shell_quote.simps[of s])
        then show ?thesis using "1.IH"[OF tilde Some False, of "w @ ''~/''"] s sl by (simp add: sh_plain_def)
      qed
    qed
  qed
qed

lemma sh_lex_quote:
  assumes "rest = [] \<or> hd rest = CHR '' ''"
  shows "sh_lex home Unquoted None (posix_shell_quote s @ rest)
    = sh_lex home Unquoted (Some (tilde_expand home s)) rest"
proof (cases "s = ''~''")
  case True
  then show ?thesis using assms by (auto simp: posix_shell_quote.simps[of "''~''"] tilde_expand_def)
next
  case tilde: False
  show ?thesis
  proof (cases "strip_prefix_str ''~/'' s")
    case None
    then have "\<not> starts_with ''~/'' s" by (simp add: strip_prefix_str_None_iff)
    then show ?thesis
      using None tilde sh_lex_plain[of s home None rest] sh_lex_quoted[of home "Some []" s rest]
      by (simp add: posix_shell_quote.simps[of s] tilde_expand_def)
  next
    case (Some r)
    then have s: "s = ''~/'' @ r" by (simp add: strip_prefix_str_Some_iff)
    have sl: "quote_plain (CHR ''/'')" by (simp add: quote_plain_def)
    have ex: "tilde_expand home s = home @ ''/'' @ r" by (simp add: tilde_expand_def s starts_with_def)
    show ?thesis
    proof (cases "r = []")
      case True
      then have "posix_shell_quote s = ''~/''" using Some tilde by (simp add: posix_shell_quote.simps[of s])
      with True show ?thesis using ex sl by (simp add: sh_plain_def)
    next
      case False
      then have "posix_shell_quote s = ''~/'' @ posix_shell_quote r"
        using Some tilde by (simp add: posix_shell_quote.simps[of s])
      then show ?thesis
        using sh_lex_quote_mid[of home "home @ ''/''" r rest] ex sl by (simp add: sh_plain_def)
    qed
  qed
qed

lemma sh_lex_word:
  "s \<noteq> [] \<Longrightarrow> list_all quote_plain s \<Longrightarrow> sh_lex home Unquoted None s = Some [s]"
  using sh_lex_plain[of s home None "[]"] by simp

lemma v_flag_plain: "list_all quote_plain (v_flag n)"
  by (simp add: v_flag_def list_all_iff quote_plain_def is_ascii_alphanumeric_def)

text \<open>\<open>lexes_to home q m\<close>: followed by a blank or the end, the text \<open>q\<close> is the one word \<open>m\<close>.\<close>

definition lexes_to :: "string \<Rightarrow> string \<Rightarrow> string \<Rightarrow> bool" where
  "lexes_to home q m \<longleftrightarrow> (\<forall>rest. rest = [] \<or> hd rest = CHR '' '' \<longrightarrow>
     sh_lex home Unquoted None (q @ rest) = sh_lex home Unquoted (Some m) rest)"

lemma lexes_to_quote: "lexes_to home (posix_shell_quote s) (tilde_expand home s)"
  unfolding lexes_to_def using sh_lex_quote by blast

lemma lexes_to_plain: "s \<noteq> [] \<Longrightarrow> list_all quote_plain s \<Longrightarrow> lexes_to home s s"
  unfolding lexes_to_def using sh_lex_plain[of s home None] by simp

lemma join_with_Cons: "join_with sep (x # xs) = x @ (if xs = [] then [] else sep @ join_with sep xs)"
  by (cases xs) (simp_all add: join_with_def)

lemma sh_words_join: "list_all2 (lexes_to home) qs ms \<Longrightarrow> sh_words home (join_with '' '' qs) = Some ms"
proof (induction rule: list_all2_induct)
  case Nil
  show ?case by (simp add: sh_words_def join_with_def)
next
  case (Cons q qs m ms)
  show ?case
  proof (cases "qs = []")
    case True
    then have "ms = []" using Cons.hyps by simp
    then show ?thesis using Cons.hyps(1) True by (simp add: lexes_to_def sh_words_def join_with_Cons)
  next
    case False
    then show ?thesis
      using Cons.hyps(1) Cons.IH by (simp add: lexes_to_def sh_words_def join_with_Cons)
  qed
qed

section \<open>Lemmas on white space\<close>

definition printable :: "char \<Rightarrow> bool" where
  "printable c \<longleftrightarrow> 33 \<le> (of_char c :: nat) \<and> (of_char c :: nat) \<le> 126"

lemma strip_one_None_iff: "strip_one ws s = None \<longleftrightarrow> (\<forall>w \<in> set ws. w \<noteq> [] \<longrightarrow> \<not> starts_with w s)"
  by (induction ws) auto

lemma ws_not_printable: "w \<in> set ws_seqs \<Longrightarrow> \<forall>c \<in> set w. \<not> printable c"
  unfolding ws_seqs_def printable_def by auto

lemma strip_one_printable:
  assumes "printable c"
  shows "strip_one ws_seqs (c # s) = None" "strip_one (map rev ws_seqs) (c # s) = None"
proof -
  have "\<not> starts_with w (c # s)" if "w \<noteq> []" "\<forall>x \<in> set w. \<not> printable x" for w
    using that assms by (cases w) (auto simp: starts_with_def)
  then show "strip_one ws_seqs (c # s) = None" "strip_one (map rev ws_seqs) (c # s) = None"
    using ws_not_printable by (auto simp: strip_one_None_iff)
qed

text \<open>A printable character ends the reach of white space, also across what precedes it.\<close>

lemma strip_one_rev_extend:
  assumes "printable c" and "strip_one (map rev ws_seqs) (t @ [c]) = None"
  shows "strip_one (map rev ws_seqs) (t @ c # s) = None"
  unfolding strip_one_None_iff
proof (intro ballI impI notI)
  fix w assume w: "w \<in> set (map rev ws_seqs)" "w \<noteq> []" "starts_with w (t @ c # s)"
  have np: "c \<notin> set w" using w(1) assms(1) ws_not_printable by auto
  have "length w \<le> length t"
  proof (rule ccontr)
    assume "\<not> length w \<le> length t"
    then have "c \<in> set (take (length w) (t @ c # s))"
      by (cases "length w - length t") (auto simp: take_Cons')
    with w(3) np show False by (simp add: starts_with_def)
  qed
  then have "starts_with w (t @ [c])" using w(3) by (simp add: starts_with_def)
  with assms(2) w show False by (auto simp: strip_one_None_iff)
qed

lemma split_ws_word:
  "list_all printable w \<Longrightarrow>
   split_ws_from acc (w @ s) = split_ws_from (rev w @ acc) s"
proof (induction w arbitrary: acc)
  case (Cons c w)
  then show ?case by (subst split_ws_from.simps) (simp add: strip_one_printable)
qed simp

lemma strip_one_blank: "strip_one ws_seqs (CHR '' '' # s) = Some s"
  by (simp add: ws_seqs_def starts_with_def)

lemma split_ws_blank:
  "acc \<noteq> [] \<Longrightarrow> split_ws_from acc (CHR '' '' # s) = rev acc # split_ws_from [] s"
  by (subst split_ws_from.simps) (simp add: strip_one_blank)

lemma strip_one_Nil: "strip_one ws [] = None"
  by (auto simp: strip_one_None_iff starts_with_def)

lemma split_ws_end: "acc \<noteq> [] \<Longrightarrow> split_ws_from acc [] = [rev acc]"
  by (subst split_ws_from.simps) (simp add: strip_one_Nil)

lemma split_ws_cons:
  "list_all printable w \<Longrightarrow> w \<noteq> [] \<Longrightarrow> split_ws_from [] (w @ CHR '' '' # s) = w # split_ws_from [] s"
  by (simp add: split_ws_word split_ws_blank)

lemma split_ws_single: "list_all printable w \<Longrightarrow> w \<noteq> [] \<Longrightarrow> split_ws_from [] w = [w]"
  using split_ws_word[of w "[]" "[]"] by (simp add: split_ws_end)

lemma trim_printable:
  assumes "printable c" and "printable d"
  shows "trim (c # s @ [d]) = c # s @ [d]"
  using assms by (simp add: trim_def trim_front_fixed strip_one_printable)

lemma printable_show_nat: "list_all printable (show_nat n)"
  by (auto simp: list_all_iff printable_def dest: set_show_nat)

lemma printable_hex_encode: "list_all printable (hex_encode bs)"
  by (auto simp: list_all_iff printable_def dest!: set_hex_encode)

section \<open>Lemmas on the two ends\<close>

lemma parse_reply_line_server_reply:
  assumes "cert \<noteq> []"
  shows "parse_reply_line (''PORT '' @ show_nat (unat port) @ '' CERT '' @ hex_encode cert)
    = Returns (Some (port, cert))"
proof -
  let ?rest = "show_nat (unat port) @ '' CERT '' @ hex_encode cert"
  obtain h d where hd: "hex_encode cert = h @ [d]" using assms by (metis hex_encode_Nil_iff rev_exhaust)
  have "printable d" using printable_hex_encode[of cert] by (simp add: hd)
  moreover have "printable (CHR ''P'')" by (simp add: printable_def)
  ultimately have trim: "trim (''PORT '' @ ?rest) = ''PORT '' @ ?rest"
    using trim_printable[of "CHR ''P''" d "''ORT '' @ show_nat (unat port) @ '' CERT '' @ h"] by (simp add: hd)
  have cert: "list_all printable ''CERT''" by (simp add: printable_def)
  have "split_whitespace ?rest = [show_nat (unat port), ''CERT'', hex_encode cert]"
    unfolding split_whitespace_def
    using assms split_ws_word[OF printable_show_nat[of "unat port"], of "[]" "'' CERT '' @ hex_encode cert"]
      split_ws_word[OF cert, of "[]" "CHR '' '' # hex_encode cert"]
      split_ws_word[OF printable_hex_encode[of cert], of "[]" "[]"]
    by (simp add: split_ws_blank split_ws_end)
  then show ?thesis
    using trim by (simp add: parse_reply_line_def parse_u16_show_nat hex_decode_encode
        strip_prefix_str_append[of "''PORT ''", simplified])
qed

lemma parse_reply_lines_skip:
  "(\<And>l. l \<in> set noise \<Longrightarrow> parse_reply_line l = Returns None) \<Longrightarrow>
   parse_reply_lines (noise @ ls) = parse_reply_lines ls"
  by (induction noise) simp_all

definition env_line :: "string \<Rightarrow> bool" where
  "env_line kv \<longleftrightarrow> kv \<noteq> [] \<and> parse_bootstrap_line kv = Env kv"

lemma read_opts_env:
  "list_all env_line kvs \<Longrightarrow> read_opts (kvs @ ls) b = read_opts ls (b\<lparr>bo_env := bo_env b @ kvs\<rparr>)"
  by (induction kvs arbitrary: b) (simp_all add: env_line_def)

lemma validateD:
  assumes "validate_bootstrap_inputs target term env cmd = Inr u"
  shows "\<not> has_line_breaker term" "kv \<in> set env \<Longrightarrow> \<not> has_line_breaker kv"
    "cmd = Some c \<Longrightarrow> \<not> has_line_breaker c" "\<not> starts_with ''-'' target" "target \<noteq> []"
  using assms
  by (auto simp: validate_bootstrap_inputs_def list_ex_iff split: if_splits option.splits)

lemma no_breaker: "\<not> has_line_breaker s \<Longrightarrow> newline \<notin> set s \<and> carriage_return \<notin> set s"
  by (simp add: has_line_breaker_def)

lemma from_wire_wire: "wire p = Some v \<Longrightarrow> from_wire v = p"
  by (cases p) (auto simp: from_wire_def trim_def trim_front_fixed strip_one_printable printable_def)

definition opt_lines :: "bool \<Rightarrow> AddrPref \<Rightarrow> string option \<Rightarrow> string list" where
  "opt_lines x11 pref cmd =
     (if x11 then [''ETRX11:true''] else [])
     @ (case wire pref of None \<Rightarrow> [] | Some v \<Rightarrow> [''ETRPREFER:'' @ v])
     @ (case cmd of None \<Rightarrow> [] | Some c \<Rightarrow> [''ETRCMD:'' @ c])"

lemma read_opts_opt_lines:
  "read_opts (opt_lines x11 pref cmd) (no_opts\<lparr>bo_env := env\<rparr>)
   = \<lparr>bo_env = env, bo_command = cmd, bo_x11 = x11, bo_pref = pref\<rparr>"
  by (cases x11; cases pref; cases cmd)
    (simp_all add: opt_lines_def no_opts_def parse_bootstrap_line_def strip_prefix_str_def
      starts_with_def from_wire_wire)

lemma bootstrap_stdin_lines:
  "bootstrap_stdin sid pk term env x11 pref cmd =
     (hex_encode sid @ ''/'' @ pk @ ''/'' @ term) @ newline #
     concat (map (\<lambda>l. l @ [newline]) (env @ opt_lines x11 pref cmd))"
  by (simp add: bootstrap_stdin_def opt_lines_def split: option.split)

lemma trim_header:
  assumes "sid \<noteq> []" and "trim_end (''/'' @ term) = ''/'' @ term"
  shows "trim ((hex_encode sid @ ''/'' @ pk @ ''/'' @ term) @ [newline]) = hex_encode sid @ ''/'' @ pk @ ''/'' @ term"
proof -
  let ?h = "hex_encode sid @ ''/'' @ pk @ ''/'' @ term"
  obtain c s where c: "hex_encode sid = c # s" using assms(1) by (cases "hex_encode sid") auto
  have "printable c" using printable_hex_encode[of sid] c by simp
  then have front: "trim_front ws_seqs (?h @ [newline]) = ?h @ [newline]"
    by (simp add: c trim_front_fixed strip_one_printable)
  have "trim_front (map rev ws_seqs) (rev (''/'' @ term)) = rev (''/'' @ term)"
    using assms(2) unfolding trim_end_def by (metis rev_rev_ident)
  then have "strip_one (map rev ws_seqs) (rev term @ [CHR ''/'']) = None"
    using trim_front_stops[of "map rev ws_seqs" "rev (''/'' @ term)"] by simp
  then have "strip_one (map rev ws_seqs) (rev term @ CHR ''/'' # rev (hex_encode sid @ ''/'' @ pk)) = None"
    by (rule strip_one_rev_extend[rotated]) (simp add: printable_def)
  then have rear: "trim_front (map rev ws_seqs) (rev ?h) = rev ?h" by (simp add: trim_front_fixed)
  have "strip_one (map rev ws_seqs) (newline # rev ?h) = Some (rev ?h)"
    by (simp add: ws_seqs_def starts_with_def)
  then have "trim_front (map rev ws_seqs) (newline # rev ?h) = rev ?h"
    using rear by (subst trim_front.simps) simp
  then show ?thesis using front by (simp add: trim_def)
qed

text \<open>The words the remote shell makes of the command line: the server's program and its arguments.\<close>

definition server_words :: "string \<Rightarrow> string \<Rightarrow> string option \<Rightarrow> nat \<Rightarrow> string list" where
  "server_words home server_path server_log_path verbose =
     [tilde_expand home server_path]
     @ (case server_log_path of None \<Rightarrow> [] | Some p \<Rightarrow> [''--log-path'', tilde_expand home p])
     @ (if verbose = 0 then [] else [v_flag verbose])"

lemma remote_words:
  "sh_words home (join_with '' '' (remote_argv server_path server_log_path verbose)) =
     Some (server_words home server_path server_log_path verbose)"
  unfolding server_words_def
proof (rule sh_words_join)
  have "lexes_to home ''--log-path'' ''--log-path''"
    by (rule lexes_to_plain) (simp_all add: quote_plain_def is_ascii_alphanumeric_def)
  moreover have "verbose \<noteq> 0 \<Longrightarrow> lexes_to home (v_flag verbose) (v_flag verbose)"
    using v_flag_plain[of verbose] by (intro lexes_to_plain) (auto simp: v_flag_def)
  ultimately show "list_all2 (lexes_to home) (remote_argv server_path server_log_path verbose)
      ([tilde_expand home server_path]
       @ (case server_log_path of None \<Rightarrow> [] | Some p \<Rightarrow> [''--log-path'', tilde_expand home p])
       @ (if verbose = 0 then [] else [v_flag verbose]))"
    by (auto simp: remote_argv_def lexes_to_quote v_flag_def split: option.split)
qed

text \<open>What the validation lets through although the server does not read it back: a terminal type with a
  slash, and an environment entry that reads as another line.\<close>

lemma slash_in_term_cut:
  "validate_bootstrap_inputs ''h'' ''a/b'' [] None = Inr ()"
  "read_header (hex_encode (replicate 16 171) @ ''/k/a/b'') = Returns (Inr (replicate 16 171, ''k'', ''a''))"
  by (simp add: validate_bootstrap_inputs_def has_line_breaker_def starts_with_def) code_simp

lemma env_entry_becomes_command:
  "validate_bootstrap_inputs ''h'' ''xterm'' [''ETRCMD:reboot''] None = Inr ()"
  "read_opts [''ETRCMD:reboot''] no_opts = no_opts\<lparr>bo_command := Some ''reboot''\<rparr>"
  by (simp add: validate_bootstrap_inputs_def has_line_breaker_def starts_with_def)
    (simp add: parse_bootstrap_line_def strip_prefix_str_def starts_with_def)

section \<open>Properties\<close>

text \<open>C10 (safety): the command line that \<open>ssh\<close> hands to the remote login shell is split by the
  shell into exactly the intended words, whatever characters the server path and the log path
  contain: nothing in them is evaluated, split or joined, and a leading \<open>~/\<close> still means the home
  directory.\<close>

theorem remote_command_line_exact:
  "sh_words home (join_with '' '' (remote_argv server_path server_log_path verbose)) =
     Some ([tilde_expand home server_path]
       @ (case server_log_path of None \<Rightarrow> [] | Some p \<Rightarrow> [''--log-path'', tilde_expand home p])
       @ (if verbose = 0 then [] else [v_flag verbose]))"
  using remote_words[of home server_path server_log_path verbose] by (simp add: server_words_def)

text \<open>(round trip): what the client writes after validation is read back by the server as the
  same session id, passkey, terminal type, environment entries in order, command, X11 request and
  address preference; no value can end its line and add another.\<close>

theorem bootstrap_round_trip:
  assumes "validate_bootstrap_inputs target term env cmd = Inr ()"
    and "length sid = 16"
    and "CHR ''/'' \<notin> set pk" and "\<not> has_line_breaker pk"
    and "CHR ''/'' \<notin> set term" and "trim_end (''/'' @ term) = ''/'' @ term"
    and "list_all env_line env"
  shows "read_bootstrap (bootstrap_stdin sid pk term env x11 pref cmd) =
    Returns (Inr (sid, pk, term, \<lparr>bo_env = env, bo_command = cmd, bo_x11 = x11, bo_pref = pref\<rparr>))"
proof -
  let ?h = "hex_encode sid @ ''/'' @ pk @ ''/'' @ term"
  let ?ls = "env @ opt_lines x11 pref cmd"
  have hex: "CHR ''/'' \<notin> set (hex_encode sid)" "newline \<notin> set (hex_encode sid)"
    by (auto dest!: set_hex_encode)
  have nl: "newline \<notin> set ?h"
    using hex assms(4) validateD(1)[OF assms(1)] by (auto simp: has_line_breaker_def)
  have "newline \<notin> set l \<and> carriage_return \<notin> set l" if "l \<in> set ?ls" for l
    using that validateD(2,3)[OF assms(1)]
    by (cases pref) (auto simp: opt_lines_def has_line_breaker_def split: if_splits option.splits)
  then have lines: "str_lines (concat (map (\<lambda>l. l @ [newline]) ?ls)) = ?ls" by (rule str_lines_concat)
  have rl: "read_line (bootstrap_stdin sid pk term env x11 pref cmd) =
      (?h @ [newline], concat (map (\<lambda>l. l @ [newline]) ?ls))"
    unfolding bootstrap_stdin_lines read_line_def split_once_append[OF nl] by simp
  have "sid \<noteq> []" using assms(2) by auto
  then have "split_on (CHR ''/'') (trim (?h @ [newline])) = [hex_encode sid, pk, term]"
    using trim_header[OF _ assms(6), of sid pk] hex(1) assms(3,5)
    by (simp add: split_on_append_sep split_on_no_sep)
  then have "read_header (?h @ [newline]) = Returns (Inr (sid, pk, term))"
    using assms(2) by (simp add: read_header_def hex_decode_encode)
  then show ?thesis
    using assms(7) read_opts_opt_lines[of x11 pref cmd env]
    by (simp add: read_bootstrap_def rl lines read_opts_env no_opts_def del: map_append concat_append)
qed

theorem bootstrap_round_trip_witness:
  "read_bootstrap (bootstrap_stdin (replicate 16 7) ''k3y'' ''xterm'' [''LANG=C''] True Ipv6 (Some ''ls -l'')) =
    Returns (Inr (replicate 16 7, ''k3y'', ''xterm'',
      \<lparr>bo_env = [''LANG=C''], bo_command = Some ''ls -l'', bo_x11 = True, bo_pref = Ipv6\<rparr>))"
proof (rule bootstrap_round_trip[where target = "''host''"])
  show "trim_end (''/'' @ ''xterm'') = ''/'' @ ''xterm''"
    by (simp add: trim_end_def trim_front_fixed strip_one_printable printable_def)
  show "list_all env_line [''LANG=C'']"
    by (simp add: env_line_def parse_bootstrap_line_def strip_prefix_str_def starts_with_def)
qed (simp_all add: validate_bootstrap_inputs_def has_line_breaker_def starts_with_def)

text \<open>(round trip): the client finds the port and the certificate the server reports, after any
  lines of other output that do not themselves report a port.\<close>

theorem reply_round_trip:
  assumes "cert \<noteq> []"
    and "\<forall>l \<in> set noise. newline \<notin> set l \<and> carriage_return \<notin> set l \<and> \<not> starts_with ''PORT '' (trim l)"
  shows "parse_reply (concat (map (\<lambda>l. l @ [newline]) noise) @ server_reply port cert) =
    Returns (Inr (port, cert))"
proof -
  let ?r = "''PORT '' @ show_nat (unat port) @ '' CERT '' @ hex_encode cert"
  have "newline \<notin> set ?r \<and> carriage_return \<notin> set ?r"
    by (auto dest!: set_show_nat set_hex_encode)
  then have "str_lines (concat (map (\<lambda>l. l @ [newline]) (noise @ [?r]))) = noise @ [?r]"
    using assms(2) by (intro str_lines_concat) auto
  moreover have "parse_reply_line l = Returns None" if "l \<in> set noise" for l
    using that assms(2) by (simp add: parse_reply_line_def strip_prefix_str_def starts_with_def)
  ultimately show ?thesis
    using parse_reply_line_server_reply[OF assms(1), of port]
    by (simp add: parse_reply_def server_reply_def parse_reply_lines_skip del: append_Cons)
qed

theorem reply_round_trip_witness:
  "parse_reply (concat (map (\<lambda>l. l @ [newline]) [''Welcome'']) @ server_reply 4433 [1, 2]) =
    Returns (Inr (4433, [1, 2]))"
proof (rule reply_round_trip)
  show "\<forall>l \<in> set [''Welcome'']. newline \<notin> set l \<and> carriage_return \<notin> set l \<and> \<not> starts_with ''PORT '' (trim l)"
    by (simp add: trim_def trim_front_fixed strip_one_printable printable_def starts_with_def)
qed simp

text \<open>C36 (safety): no environment line of the bootstrap, in whatever spelling of the key, changes one
  of the dynamic-linker or shell-startup variables in the environment of the spawned shell.\<close>

theorem blocked_env_unchanged:
  assumes "list_ex (eq_ignore_ascii_case key) BLOCKED_ENV_KEYS"
  shows "shell_env os_env version display term extra key = os_env key"
proof -
  have step: "apply_client_env extra env key = env key" for env
  proof (induction extra arbitrary: env)
    case (Cons kv kvs)
    have "is_safe_client_env_var kv \<Longrightarrow> split_once (CHR ''='') kv = Some (k, v) \<Longrightarrow> k \<noteq> key" for k v
      using assms by (auto simp: is_safe_client_env_var_def list_ex_iff split: if_splits)
    then show ?case using Cons by (auto split: option.split)
  qed simp
  have "key \<noteq> ''DISPLAY''" "key \<noteq> ''TERM''" "key \<noteq> ''ETR_CONNECTION''" "key \<noteq> ''ETR_VERSION''"
    "key \<noteq> ''SSH_CONNECTION''"
    using assms
    by (auto simp: BLOCKED_ENV_KEYS_def eq_ignore_ascii_case_def to_ascii_lowercase_def ascii_lower_def)
  then show ?thesis by (simp add: shell_env_def Let_def step split: option.split)
qed

theorem blocked_env_unchanged_witness:
  "shell_env (Map.empty(''HOME'' \<mapsto> ''/root'')) ''0'' (Some 10) ''xterm'' [''ld_preload=/x.so'', ''A=b''] ''ld_preload'' =
     (Map.empty(''HOME'' \<mapsto> ''/root'')) ''ld_preload''"
  by (rule blocked_env_unchanged) code_simp

end
