(* ===== verification/Private_Log.thy ===== *)
theory Private_Log
  imports Etr_Prelude
begin

unbundle bit_operations_syntax

text \<open>
  The private log file of \<open>src/config.rs\<close>: \<open>verify_trusted_log_dir\<close> and \<open>open_private_log_file\<close> on a
  file system of inodes, as the system calls the code makes see it.  \<open>openat\<close> with \<open>O_NOFOLLOW\<close> never
  follows a symbolic link; the kernel may also refuse any lookup or creation (\<open>refuses\<close>), and any change
  of a mode (\<open>keeps_mode\<close>), which the code ignores.  The walk is modelled as it runs on its own, without
  another process changing the tree in between, and with a umask that leaves the owner's bits alone.
\<close>

section \<open>The file system\<close>

datatype inode_kind = Directory "string \<rightharpoonup> nat" | Regular | Symlink | Special

record inode =
  kind :: inode_kind
  owner :: u32
  perm :: u32
  links :: nat

record file_system =
  inodes :: "nat \<rightharpoonup> inode"
  next_ino :: nat

datatype errno = ENOENT | EEXIST | EACCES | ENOTDIR | EISDIR | ELOOP | ENXIO

datatype log_error = OsError errno | NoFileName | ParentTraversal | NotDirectory | NotPrivate
  | Untrusted | UntrustedFile

text \<open>The process: its effective uid, the uid the kernel shows for owners outside the user
  namespace, the root and working directories, and what the kernel refuses.\<close>

record process =
  euid :: u32
  overflow_uid :: "u32 option"
  root_dir :: nat
  work_dir :: nat
  refuses :: "nat \<Rightarrow> string \<Rightarrow> bool"
  keeps_mode :: "nat \<Rightarrow> bool"

definition entries :: "file_system \<Rightarrow> nat \<Rightarrow> (string \<rightharpoonup> nat)" where
  "entries fs d = (case inodes fs d of
     Some n \<Rightarrow> (case kind n of Directory es \<Rightarrow> es | _ \<Rightarrow> Map.empty) | None \<Rightarrow> Map.empty)"

text \<open>\<open>openat(dir, name, O_RDONLY | O_DIRECTORY | O_NOFOLLOW | O_CLOEXEC)\<close>.\<close>

definition openat_dir :: "process \<Rightarrow> file_system \<Rightarrow> nat \<Rightarrow> string \<Rightarrow> errno + nat" where
  "openat_dir p fs d name =
     (if refuses p d name then Inl EACCES
      else (case entries fs d name of
              None \<Rightarrow> Inl ENOENT
            | Some i \<Rightarrow>
                (case inodes fs i of
                   None \<Rightarrow> Inl ENOENT
                 | Some n \<Rightarrow> (case kind n of Directory _ \<Rightarrow> Inr i | Symlink \<Rightarrow> Inl ELOOP | _ \<Rightarrow> Inl ENOTDIR))))"

text \<open>A new inode under a free name of a directory.\<close>

definition link_new :: "file_system \<Rightarrow> nat \<Rightarrow> string \<Rightarrow> inode \<Rightarrow> file_system" where
  "link_new fs d name n =
     (case inodes fs d of
        None \<Rightarrow> fs
      | Some dn \<Rightarrow>
          (case kind dn of
             Directory es \<Rightarrow>
               fs\<lparr>inodes := (inodes fs)(next_ino fs \<mapsto> n, d \<mapsto> dn\<lparr>kind := Directory (es(name \<mapsto> next_ino fs))\<rparr>),
                  next_ino := Suc (next_ino fs)\<rparr>
           | _ \<Rightarrow> fs))"

definition mkdirat :: "process \<Rightarrow> file_system \<Rightarrow> nat \<Rightarrow> string \<Rightarrow> u32 \<Rightarrow> (errno + unit) \<times> file_system" where
  "mkdirat p fs d name mode =
     (if refuses p d name then (Inl EACCES, fs)
      else if entries fs d name \<noteq> None then (Inl EEXIST, fs)
      else (Inr (), link_new fs d name
              \<lparr>kind = Directory Map.empty, owner = euid p, perm = mode, links = 2\<rparr>))"

text \<open>\<open>openat(dir, name, O_CREAT | O_WRONLY | O_APPEND | O_NOFOLLOW | O_NONBLOCK | O_CLOEXEC, mode)\<close>.\<close>

definition openat_file ::
    "process \<Rightarrow> file_system \<Rightarrow> nat \<Rightarrow> string \<Rightarrow> u32 \<Rightarrow> (errno + nat) \<times> file_system" where
  "openat_file p fs d name mode =
     (if refuses p d name then (Inl EACCES, fs)
      else (case entries fs d name of
              None \<Rightarrow> (Inr (next_ino fs), link_new fs d name
                        \<lparr>kind = Regular, owner = euid p, perm = mode, links = 1\<rparr>)
            | Some i \<Rightarrow>
                (case inodes fs i of
                   None \<Rightarrow> (Inl ENOENT, fs)
                 | Some n \<Rightarrow>
                     (case kind n of
                        Directory _ \<Rightarrow> (Inl EISDIR, fs)
                      | Symlink \<Rightarrow> (Inl ELOOP, fs)
                      | _ \<Rightarrow> (Inr i, fs)))))"

text \<open>\<open>let _ = set_permissions(mode)\<close>: nothing happens when the kernel refuses it.\<close>

definition set_perm :: "process \<Rightarrow> file_system \<Rightarrow> nat \<Rightarrow> u32 \<Rightarrow> file_system" where
  "set_perm p fs i mode =
     (case inodes fs i of
        None \<Rightarrow> fs
      | Some n \<Rightarrow> (if keeps_mode p i then fs else fs\<lparr>inodes := (inodes fs)(i \<mapsto> n\<lparr>perm := mode\<rparr>)\<rparr>))"

section \<open>The code\<close>

definition is_root_or_userns_overflow_uid :: "process \<Rightarrow> u32 \<Rightarrow> bool" where
  "is_root_or_userns_overflow_uid p uid =
     (if uid = 0 then True
      else (case overflow_uid p of Some overflow \<Rightarrow> uid = overflow | None \<Rightarrow> False))"

definition is_dir :: "inode \<Rightarrow> bool" where
  "is_dir n = (case kind n of Directory _ \<Rightarrow> True | _ \<Rightarrow> False)"

text \<open>The result is the new value of \<open>under_sticky_dir\<close>.\<close>

definition verify_trusted_log_dir :: "process \<Rightarrow> inode \<Rightarrow> bool \<Rightarrow> log_error + bool" where
  "verify_trusted_log_dir p meta under_sticky_dir =
     (if \<not> is_dir meta then Inl NotDirectory
      else (let uid = owner meta; mode = perm meta AND 0xFFF
            in if under_sticky_dir then
                 (if uid \<noteq> euid p \<or> mode AND 0x3F \<noteq> 0 then Inl NotPrivate else Inr under_sticky_dir)
               else if mode AND 0x12 = 0 \<and> (uid = euid p \<or> is_root_or_userns_overflow_uid p uid)
               then Inr under_sticky_dir
               else if mode AND 0x200 \<noteq> 0 \<and> is_root_or_userns_overflow_uid p uid then Inr True
               else Inl Untrusted))"

text \<open>\<open>Path::components\<close> without the root and current-directory components.\<close>

definition components :: "string \<Rightarrow> string list" where
  "components path = filter (\<lambda>c. c \<noteq> [] \<and> c \<noteq> ''.'') (split_on (CHR ''/'') path)"

definition file_name :: "string \<Rightarrow> string option" where
  "file_name path =
     (let cs = components path in if cs = [] \<or> last cs = ''..'' then None else Some (last cs))"

text \<open>One component of the walk: open it, or create it with mode \<open>0o700\<close> and open it.\<close>

definition open_or_create ::
    "process \<Rightarrow> file_system \<Rightarrow> nat \<Rightarrow> string \<Rightarrow> (log_error + nat) \<times> file_system" where
  "open_or_create p fs d part =
     (case openat_dir p fs d part of
        Inr i \<Rightarrow> (Inr i, fs)
      | Inl ENOENT \<Rightarrow>
          (let (made, fs1) = mkdirat p fs d part 0x1C0
           in if made \<noteq> Inr () \<and> made \<noteq> Inl EEXIST then (Inl (OsError (projl made)), fs1)
              else (case openat_dir p fs1 d part of
                      Inl e \<Rightarrow> (Inl (OsError e), fs1)
                    | Inr i \<Rightarrow> (Inr i, if made = Inr () then set_perm p fs1 i 0x1C0 else fs1)))
      | Inl e \<Rightarrow> (Inl (OsError e), fs))"

fun walk ::
    "process \<Rightarrow> string list \<Rightarrow> nat \<Rightarrow> bool \<Rightarrow> file_system \<Rightarrow> (log_error + nat) \<times> file_system" where
  "walk p [] d under_sticky_dir fs = (Inr d, fs)"
| "walk p (part # parts) d under_sticky_dir fs =
     (case open_or_create p fs d part of
        (Inl e, fs1) \<Rightarrow> (Inl e, fs1)
      | (Inr i, fs1) \<Rightarrow>
          (case inodes fs1 i of
             None \<Rightarrow> (Inl (OsError ENOENT), fs1)
           | Some meta \<Rightarrow>
               (case verify_trusted_log_dir p meta under_sticky_dir of
                  Inl e \<Rightarrow> (Inl e, fs1)
                | Inr sticky \<Rightarrow> walk p parts i sticky fs1)))"

definition open_log_in ::
    "process \<Rightarrow> nat \<Rightarrow> string \<Rightarrow> file_system \<Rightarrow> (log_error + nat) \<times> file_system" where
  "open_log_in p d name fs =
     (case openat_file p fs d name 0x180 of
        (Inl e, fs1) \<Rightarrow> (Inl (OsError e), fs1)
      | (Inr i, fs1) \<Rightarrow>
          (case inodes fs1 i of
             None \<Rightarrow> (Inl (OsError ENOENT), fs1)
           | Some meta \<Rightarrow>
               (if kind meta \<noteq> Regular \<or> owner meta \<noteq> euid p \<or> links meta \<noteq> 1
                then (Inl UntrustedFile, fs1)
                else (Inr i, set_perm p fs1 i 0x180))))"

definition start_dir :: "process \<Rightarrow> string \<Rightarrow> nat" where
  "start_dir p path = (if starts_with ''/'' path then root_dir p else work_dir p)"

definition open_private_log_file ::
    "process \<Rightarrow> string \<Rightarrow> file_system \<Rightarrow> (log_error + nat) \<times> file_system" where
  "open_private_log_file p log_path fs =
     (case file_name log_path of
        None \<Rightarrow> (Inl NoFileName, fs)
      | Some name \<Rightarrow>
          (if ''..'' \<in> set (components log_path) then (Inl ParentTraversal, fs)
           else (case inodes fs (start_dir p log_path) of
                   None \<Rightarrow> (Inl (OsError ENOENT), fs)
                 | Some meta \<Rightarrow>
                     (case verify_trusted_log_dir p meta False of
                        Inl e \<Rightarrow> (Inl e, fs)
                      | Inr sticky \<Rightarrow>
                          (case walk p (butlast (components log_path)) (start_dir p log_path) sticky fs of
                             (Inl e, fs1) \<Rightarrow> (Inl e, fs1)
                           | (Inr d, fs1) \<Rightarrow> open_log_in p d name fs1)))))"

section \<open>What a trusted path is\<close>

definition closed_dir :: "process \<Rightarrow> inode \<Rightarrow> bool" where
  "closed_dir p n \<longleftrightarrow> is_dir n \<and> perm n AND 0x12 = 0
     \<and> (owner n = euid p \<or> is_root_or_userns_overflow_uid p (owner n))"

definition sticky_root_dir :: "process \<Rightarrow> inode \<Rightarrow> bool" where
  "sticky_root_dir p n \<longleftrightarrow> is_dir n \<and> perm n AND 0x200 \<noteq> 0 \<and> is_root_or_userns_overflow_uid p (owner n)"

definition private_dir :: "process \<Rightarrow> inode \<Rightarrow> bool" where
  "private_dir p n \<longleftrightarrow> is_dir n \<and> owner n = euid p \<and> perm n AND 0x3F = 0"

text \<open>Directories only their trusted owner can write to; then possibly one sticky directory of a trusted
  owner; below it only directories that are the user's alone.  The trusted owners are the user, root and,
  in a user namespace, the uid the kernel shows for every owner from outside (\<open>overflow_uid\<close>).\<close>

definition trusted_chain :: "process \<Rightarrow> inode list \<Rightarrow> bool" where
  "trusted_chain p ns \<longleftrightarrow>
     (\<exists>above below. ns = above @ below \<and> list_all (closed_dir p) above
        \<and> (below = [] \<or> sticky_root_dir p (hd below) \<and> list_all (private_dir p) (tl below)))"

fun verify_all :: "process \<Rightarrow> bool \<Rightarrow> inode list \<Rightarrow> bool" where
  "verify_all p s [] = True"
| "verify_all p s (n # ns) =
     (case verify_trusted_log_dir p n s of Inl _ \<Rightarrow> False | Inr s' \<Rightarrow> verify_all p s' ns)"

lemma mask_mode [simp]:
  "(m AND 0xFFF) AND 0x12 = m AND (0x12 :: u32)" "(m AND 0xFFF) AND 0x3F = m AND (0x3F :: u32)"
  "(m AND 0xFFF) AND 0x200 = m AND (0x200 :: u32)"
  by (simp_all add: and.assoc)

lemma verify_sticky:
  "verify_trusted_log_dir p n True =
     (if private_dir p n then Inr True else if is_dir n then Inl NotPrivate else Inl NotDirectory)"
  by (simp add: verify_trusted_log_dir_def private_dir_def Let_def)

lemma verify_all_sticky: "verify_all p True ns \<longleftrightarrow> list_all (private_dir p) ns"
  by (induction ns) (simp_all add: verify_sticky)

lemma verify_open:
  "verify_trusted_log_dir p n False = Inr s \<longleftrightarrow>
     (if closed_dir p n then \<not> s else s \<and> sticky_root_dir p n)"
  by (auto simp: verify_trusted_log_dir_def closed_dir_def sticky_root_dir_def Let_def)

lemma verify_all_trusted: "verify_all p False ns \<Longrightarrow> trusted_chain p ns"
proof (induction ns)
  case Nil
  show ?case by (simp add: trusted_chain_def)
next
  case (Cons n ns)
  then obtain s where s: "verify_trusted_log_dir p n False = Inr s" "verify_all p s ns"
    by (auto split: sum.splits)
  show ?case
  proof (cases s)
    case True
    then have "sticky_root_dir p n" "list_all (private_dir p) ns"
      using s by (auto simp: verify_open verify_all_sticky split: if_splits)
    then show ?thesis unfolding trusted_chain_def by (intro exI[of _ "[]"] exI[of _ "n # ns"]) simp
  next
    case False
    then have "closed_dir p n" "trusted_chain p ns" using s Cons.IH by (auto simp: verify_open split: if_splits)
    then obtain above below where "ns = above @ below" "list_all (closed_dir p) (n # above)"
      "below = [] \<or> sticky_root_dir p (hd below) \<and> list_all (private_dir p) (tl below)"
      by (auto simp: trusted_chain_def)
    then show ?thesis unfolding trusted_chain_def by (intro exI[of _ "n # above"] exI[of _ below]) simp
  qed
qed

section \<open>The walk\<close>

text \<open>The directories on a path, without following symbolic links.\<close>

fun chain :: "file_system \<Rightarrow> nat \<Rightarrow> string list \<Rightarrow> (nat \<times> inode) list option" where
  "chain fs d [] = (case inodes fs d of None \<Rightarrow> None | Some n \<Rightarrow> Some [(d, n)])"
| "chain fs d (c # cs) =
     (case inodes fs d of
        None \<Rightarrow> None
      | Some n \<Rightarrow>
          (case entries fs d c of
             None \<Rightarrow> None
           | Some i \<Rightarrow> map_option (\<lambda>ns. (d, n) # ns) (chain fs i cs)))"

definition fresh :: "file_system \<Rightarrow> bool" where
  "fresh fs \<longleftrightarrow> (\<forall>i \<ge> next_ino fs. inodes fs i = None)"

fun kind_grows :: "inode_kind \<Rightarrow> inode_kind \<Rightarrow> bool" where
  "kind_grows (Directory es) k \<longleftrightarrow> (\<exists>es'. k = Directory es' \<and> es \<subseteq>\<^sub>m es')"
| "kind_grows Regular k \<longleftrightarrow> k = Regular"
| "kind_grows Symlink k \<longleftrightarrow> k = Symlink"
| "kind_grows Special k \<longleftrightarrow> k = Special"

text \<open>Nothing but new inodes and new directory entries, except the permissions of the inodes
  \<open>X\<close>.\<close>

definition extends :: "nat set \<Rightarrow> file_system \<Rightarrow> file_system \<Rightarrow> bool" where
  "extends X fs fs' \<longleftrightarrow>
     (\<forall>i n. inodes fs i = Some n \<longrightarrow>
        (\<exists>n'. inodes fs' i = Some n' \<and> owner n' = owner n \<and> kind_grows (kind n) (kind n')
           \<and> links n' = links n \<and> (i \<notin> X \<longrightarrow> perm n' = perm n)))"

lemma kind_grows_refl [simp]: "kind_grows k k"
  by (cases k) simp_all

lemma kind_grows_trans: "kind_grows a b \<Longrightarrow> kind_grows b c \<Longrightarrow> kind_grows a c"
  using map_le_trans by (cases a) (auto, blast)

lemma extends_refl [simp]: "extends X fs fs"
  by (simp add: extends_def)

lemma extendsD:
  "extends X fs fs' \<Longrightarrow> inodes fs i = Some n \<Longrightarrow>
   \<exists>n'. inodes fs' i = Some n' \<and> owner n' = owner n \<and> kind_grows (kind n) (kind n')
     \<and> links n' = links n \<and> (i \<notin> X \<longrightarrow> perm n' = perm n)"
  unfolding extends_def by blast

lemma extends_trans:
  assumes "extends X fs fs1" and "extends X fs1 fs2"
  shows "extends X fs fs2"
  unfolding extends_def
proof (intro allI impI)
  fix i n assume "inodes fs i = Some n"
  then obtain n1 where n1: "inodes fs1 i = Some n1" "owner n1 = owner n" "kind_grows (kind n) (kind n1)"
    "links n1 = links n" "i \<notin> X \<longrightarrow> perm n1 = perm n" using extendsD[OF assms(1)] by blast
  then obtain n2 where "inodes fs2 i = Some n2" "owner n2 = owner n1" "kind_grows (kind n1) (kind n2)"
    "links n2 = links n1" "i \<notin> X \<longrightarrow> perm n2 = perm n1" using extendsD[OF assms(2)] by blast
  then show "\<exists>n'. inodes fs2 i = Some n' \<and> owner n' = owner n \<and> kind_grows (kind n) (kind n')
      \<and> links n' = links n \<and> (i \<notin> X \<longrightarrow> perm n' = perm n)"
    using n1 kind_grows_trans by (intro exI[of _ n2]) auto
qed

lemma extends_mono: "extends X fs fs1 \<Longrightarrow> X \<subseteq> Y \<Longrightarrow> extends Y fs fs1"
  unfolding extends_def by fastforce

lemma extends_dir:
  assumes "extends X fs fs'" and "inodes fs i = Some n" and "is_dir n"
  obtains n' where "inodes fs' i = Some n'" "is_dir n'" "owner n' = owner n" "i \<notin> X \<longrightarrow> perm n' = perm n"
    "entries fs i \<subseteq>\<^sub>m entries fs' i"
proof -
  obtain n' where n': "inodes fs' i = Some n'" "owner n' = owner n" "kind_grows (kind n) (kind n')"
    "i \<notin> X \<longrightarrow> perm n' = perm n" using extendsD[OF assms(1,2)] by blast
  then show ?thesis using that[of n'] assms(2,3)
    by (cases "kind n") (auto simp: is_dir_def entries_def)
qed

lemma link_new_spec:
  assumes "fresh fs" and "inodes fs d = Some dn" and "is_dir dn" and "entries fs d name = None"
  shows "extends {} fs (link_new fs d name n)" "fresh (link_new fs d name n)"
    "entries (link_new fs d name n) d name = Some (next_ino fs)"
    "inodes (link_new fs d name n) (next_ino fs) = Some n"
proof -
  obtain es where es: "kind dn = Directory es" using assms(3) by (cases "kind dn") (auto simp: is_dir_def)
  have ne: "d \<noteq> next_ino fs" using assms(1,2) by (auto simp: fresh_def)
  have free: "inodes fs (next_ino fs) = None" using assms(1) by (simp add: fresh_def)
  have en: "es name = None" using assms(2,4) es by (simp add: entries_def)
  have l: "link_new fs d name n = fs\<lparr>inodes := (inodes fs)(next_ino fs \<mapsto> n,
      d \<mapsto> dn\<lparr>kind := Directory (es(name \<mapsto> next_ino fs))\<rparr>), next_ino := Suc (next_ino fs)\<rparr>"
    using assms(2) es by (simp add: link_new_def)
  show "extends {} fs (link_new fs d name n)"
    unfolding extends_def l using assms(2) es en free
    by (auto simp: map_le_def)
  show "fresh (link_new fs d name n)" using assms(1,2) by (auto simp: fresh_def l)
  show "entries (link_new fs d name n) d name = Some (next_ino fs)" by (simp add: l entries_def)
  show "inodes (link_new fs d name n) (next_ino fs) = Some n" using ne by (simp add: l)
qed

lemma openat_dir_Inr:
  "openat_dir p fs d name = Inr i \<Longrightarrow> entries fs d name = Some i \<and> (\<exists>n. inodes fs i = Some n \<and> is_dir n)"
  by (auto simp: openat_dir_def is_dir_def split: if_splits option.splits inode_kind.splits)

lemma set_perm_same: "inodes fs i = Some n \<Longrightarrow> perm n = m \<Longrightarrow> set_perm p fs i m = fs"
  by (auto simp: set_perm_def map_upd_triv)

lemma open_or_create_spec:
  assumes "fresh fs" and "inodes fs d = Some dn" and "is_dir dn"
    and "open_or_create p fs d part = (Inr i, fs')"
  shows "extends {} fs fs' \<and> fresh fs' \<and> entries fs' d part = Some i
    \<and> (\<exists>n. inodes fs' i = Some n \<and> is_dir n)"
proof (cases "openat_dir p fs d part")
  case (Inr j)
  then show ?thesis using assms openat_dir_Inr[OF Inr] by (auto simp: open_or_create_def)
next
  case (Inl e)
  let ?n = "\<lparr>kind = Directory Map.empty, owner = euid p, perm = 0x1C0, links = 2\<rparr>"
  have e: "e = ENOENT" using assms(4) Inl by (cases e) (auto simp: open_or_create_def)
  have acc: "\<not> refuses p d part" using Inl e by (auto simp: openat_dir_def split: if_splits)
  show ?thesis
  proof (cases "entries fs d part")
    case None
    note new = link_new_spec[OF assms(1-3) None, of ?n]
    have mk: "mkdirat p fs d part 0x1C0 = (Inr (), link_new fs d part ?n)"
      using acc None by (simp add: mkdirat_def)
    have "openat_dir p (link_new fs d part ?n) d part = Inr (next_ino fs)"
      using acc new by (simp add: openat_dir_def)
    then have "i = next_ino fs" "fs' = link_new fs d part ?n"
      using assms(4) Inl e mk set_perm_same[OF new(4), of "0x1C0"]
      by (simp_all add: open_or_create_def)
    then show ?thesis using new by (simp add: is_dir_def)
  next
    case (Some j)
    then have "mkdirat p fs d part 0x1C0 = (Inl EEXIST, fs)" using acc by (simp add: mkdirat_def)
    then show ?thesis using assms(4) Inl e by (simp add: open_or_create_def)
  qed
qed

lemma verify_cong:
  "is_dir n = is_dir m \<Longrightarrow> owner n = owner m \<Longrightarrow> perm n = perm m \<Longrightarrow>
   verify_trusted_log_dir p n s = verify_trusted_log_dir p m s"
  by (simp add: verify_trusted_log_dir_def)

definition same_dir :: "nat \<times> inode \<Rightarrow> nat \<times> inode \<Rightarrow> bool" where
  "same_dir x y \<longleftrightarrow> fst y = fst x \<and> is_dir (snd x) \<and> is_dir (snd y) \<and> owner (snd y) = owner (snd x)
     \<and> perm (snd y) = perm (snd x)"

lemma verify_all_same_dir:
  "list_all2 same_dir xs ys \<Longrightarrow> verify_all p s (map snd ys) = verify_all p s (map snd xs)"
proof (induction arbitrary: s rule: list_all2_induct)
  case (Cons x xs y ys)
  have "verify_trusted_log_dir p (snd y) s = verify_trusted_log_dir p (snd x) s"
    using Cons.hyps(1) by (intro verify_cong) (auto simp: same_dir_def)
  then show ?case using Cons by (auto split: sum.split)
qed simp

lemma same_dir_in:
  assumes "extends X fs fs'" and "\<forall>j m. j \<in> X \<longrightarrow> inodes fs j = Some m \<longrightarrow> \<not> is_dir m"
    and "inodes fs d = Some n" and "is_dir n"
  obtains n' where "inodes fs' d = Some n'" "same_dir (d, n) (d, n')" "entries fs d \<subseteq>\<^sub>m entries fs' d"
proof -
  have "d \<notin> X" using assms(2,3,4) by blast
  then show ?thesis using extends_dir[OF assms(1,3,4)] that assms(4) unfolding same_dir_def by auto
qed

lemma chain_extends:
  assumes ext: "extends X fs fs'" and X: "\<forall>j m. j \<in> X \<longrightarrow> inodes fs j = Some m \<longrightarrow> \<not> is_dir m"
  shows "chain fs d parts = Some ns \<Longrightarrow> list_all (\<lambda>x. is_dir (snd x)) ns \<Longrightarrow>
    \<exists>ns'. chain fs' d parts = Some ns' \<and> list_all2 same_dir ns ns'"
proof (induction parts arbitrary: d ns)
  case Nil
  then obtain n where n: "inodes fs d = Some n" "ns = [(d, n)]" "is_dir n" by (auto split: option.splits)
  obtain n' where "inodes fs' d = Some n'" "same_dir (d, n) (d, n')"
    using same_dir_in[OF ext X n(1,3)] by blast
  then show ?case by (simp add: n(2))
next
  case (Cons c cs)
  then obtain n i ms where n: "inodes fs d = Some n" "is_dir n" "entries fs d c = Some i"
    "chain fs i cs = Some ms" "ns = (d, n) # ms" by (auto split: option.splits)
  obtain n' where n': "inodes fs' d = Some n'" "same_dir (d, n) (d, n')" "entries fs d \<subseteq>\<^sub>m entries fs' d"
    using same_dir_in[OF ext X n(1,2)] by blast
  have "entries fs' d c = Some i" using n(3) n'(3) by (metis domI map_le_def)
  moreover obtain ms' where "chain fs' i cs = Some ms'" "list_all2 same_dir ms ms'"
    using Cons.IH[OF n(4)] Cons.prems(2) n(5) by auto
  ultimately show ?case using n n' by simp
qed

lemma chain_last:
  "chain fs d parts = Some ns \<Longrightarrow> ns \<noteq> [] \<and> inodes fs (fst (last ns)) = Some (snd (last ns))"
proof (induction parts arbitrary: d ns)
  case Nil
  then show ?case by (auto split: option.splits)
next
  case (Cons c cs)
  then show ?case by (fastforce split: option.splits)
qed

lemma list_all2_last: "list_all2 P xs ys \<Longrightarrow> xs \<noteq> [] \<Longrightarrow> P (last xs) (last ys)"
  by (induction rule: list_all2_induct) auto

lemma walk_spec:
  assumes "fresh fs" and "inodes fs d = Some dn" and "is_dir dn"
    and "walk p parts d s fs = (Inr d', fs')"
  shows "extends {} fs fs' \<and> fresh fs' \<and>
    (\<exists>n ns. chain fs' d parts = Some ((d, n) # ns) \<and> same_dir (d, dn) (d, n)
       \<and> fst (last ((d, n) # ns)) = d' \<and> list_all (\<lambda>x. is_dir (snd x)) ns \<and> verify_all p s (map snd ns))"
  using assms
proof (induction parts arbitrary: d dn s fs)
  case Nil
  then show ?case by (simp add: same_dir_def)
next
  case (Cons part parts)
  obtain i fs1 where oc: "open_or_create p fs d part = (Inr i, fs1)"
    using Cons.prems(4) by (auto split: prod.splits sum.splits)
  note o1 = open_or_create_spec[OF Cons.prems(1-3) oc]
  then obtain m where m: "inodes fs1 i = Some m" "is_dir m" by blast
  obtain s' where v: "verify_trusted_log_dir p m s = Inr s'" "walk p parts i s' fs1 = (Inr d', fs')"
    using Cons.prems(4) oc m(1) by (auto split: sum.splits)
  have fr: "fresh fs1" using o1 by blast
  from Cons.IH[OF fr m v(2)] obtain n ns where rest: "extends {} fs1 fs'" "fresh fs'"
    "chain fs' i parts = Some ((i, n) # ns)" "same_dir (i, m) (i, n)"
    "fst (last ((i, n) # ns)) = d'" "list_all (\<lambda>x. is_dir (snd x)) ns" "verify_all p s' (map snd ns)" by blast
  have ext: "extends {} fs fs'" using o1 rest(1) extends_trans by blast
  obtain dn1 where dn1: "inodes fs1 d = Some dn1" "is_dir dn1"
    using same_dir_in[of "{}" fs fs1 d dn] o1 Cons.prems(2,3) by (auto simp: same_dir_def)
  obtain dn' where dn': "inodes fs' d = Some dn'" "same_dir (d, dn) (d, dn')"
    using same_dir_in[OF ext _ Cons.prems(2,3)] by blast
  have "entries fs1 d \<subseteq>\<^sub>m entries fs' d" using same_dir_in[OF rest(1) _ dn1] by blast
  then have "entries fs' d part = Some i" using o1 by (metis domI map_le_def)
  then have "chain fs' d (part # parts) = Some ((d, dn') # (i, n) # ns)" using dn'(1) rest(3) by simp
  moreover have "verify_trusted_log_dir p n s = Inr s'"
    using v(1) rest(4) verify_cong[of n m] by (auto simp: same_dir_def)
  moreover have "is_dir n" using rest(4) by (simp add: same_dir_def)
  ultimately show ?case using ext rest dn'(2) by auto
qed

lemma open_log_in_spec:
  assumes "fresh fs" and "inodes fs d = Some dn" and "is_dir dn"
    and "open_log_in p d name fs = (Inr i, fs')"
  shows "extends {i} fs fs' \<and> (\<forall>m. inodes fs i = Some m \<longrightarrow> \<not> is_dir m) \<and> entries fs' d name = Some i
    \<and> (\<exists>n. inodes fs' i = Some n \<and> kind n = Regular \<and> owner n = euid p \<and> links n = 1
        \<and> (keeps_mode p i \<or> perm n = 0x180))"
proof -
  obtain fs1 n where o1: "openat_file p fs d name 0x180 = (Inr i, fs1)" "inodes fs1 i = Some n"
    "kind n = Regular" "owner n = euid p" "links n = 1" "fs' = set_perm p fs1 i 0x180"
    using assms(4) by (auto simp: open_log_in_def split: prod.splits sum.splits option.splits if_splits)
  let ?n = "\<lparr>kind = Regular, owner = euid p, perm = 0x180, links = 1\<rparr>"
  have "extends {} fs fs1 \<and> entries fs1 d name = Some i \<and> d \<noteq> i \<and> (\<forall>m. inodes fs i = Some m \<longrightarrow> \<not> is_dir m)"
  proof (cases "entries fs d name")
    case None
    have e: "fs1 = link_new fs d name ?n" "i = next_ino fs"
      using o1(1) None by (auto simp: openat_file_def split: if_splits)
    have "inodes fs i = None" using assms(1) e(2) by (simp add: fresh_def)
    then show ?thesis using link_new_spec[OF assms(1-3) None, of ?n] assms(2) by (auto simp: e)
  next
    case (Some j)
    then have "fs1 = fs" "i = j"
      using o1(1) by (auto simp: openat_file_def split: if_splits option.splits inode_kind.splits)
    moreover have "\<not> is_dir n" using o1(3) by (simp add: is_dir_def)
    ultimately show ?thesis using Some o1(2) assms(2,3) by auto
  qed
  then have e1: "extends {i} fs fs1" "entries fs1 d name = Some i" "d \<noteq> i"
    "\<forall>m. inodes fs i = Some m \<longrightarrow> \<not> is_dir m" using extends_mono[of "{}" fs fs1 "{i}"] by auto
  have f: "inodes fs' = (inodes fs1)(i \<mapsto> n\<lparr>perm := (if keeps_mode p i then perm n else 0x180)\<rparr>)"
    using o1 by (auto simp: set_perm_def map_upd_triv)
  then have "extends {i} fs1 fs'" using o1(2) by (simp add: extends_def)
  moreover have "entries fs' d = entries fs1 d" using f e1(3) by (simp add: entries_def)
  ultimately show ?thesis using e1 f o1 extends_trans by auto
qed

text \<open>Outside of any user namespace, too, a directory of the account with that uid (\<open>nobody\<close>) is trusted.\<close>

lemma overflow_uid_trusted:
  "is_dir n \<Longrightarrow> owner n = 65534 \<Longrightarrow> perm n = 0x1ED \<Longrightarrow> euid p = 1000 \<Longrightarrow> overflow_uid p = Some 65534 \<Longrightarrow>
   verify_trusted_log_dir p n False = Inr False"
  by (simp add: verify_trusted_log_dir_def is_root_or_userns_overflow_uid_def)

section \<open>Properties\<close>

text \<open>C21 (safety): when \<open>open_private_log_file\<close> succeeds, the path it walked contains no \<open>..\<close> and no
  symbolic link; every directory on it is trusted, that is, not writable for group and others and owned by
  the user, root or the overflow uid, down to at most one sticky directory owned by root or the overflow
  uid, and below that one the user's alone; the file is a regular file of the user with a single link, and
  its mode is \<open>0o600\<close> unless the kernel refuses to change modes, which the code ignores; and nothing else in
  the file system has changed but directories and entries that were missing.  The overflow uid is the
  number in \<open>/proc/sys/kernel/overflowuid\<close>, 65534 by default, as which a user namespace shows every owner from
  outside; the code trusts it in any namespace (\<open>overflow_uid_trusted\<close>).\<close>

theorem open_private_log_file_trusted:
  assumes "fresh fs" and "open_private_log_file p path fs = (Inr i, fs')"
  shows "\<exists>ns n. chain fs' (start_dir p path) (butlast (components path)) = Some ns
    \<and> trusted_chain p (map snd ns) \<and> ''..'' \<notin> set (components path)
    \<and> entries fs' (fst (last ns)) (last (components path)) = Some i
    \<and> inodes fs' i = Some n \<and> kind n = Regular \<and> owner n = euid p \<and> links n = 1 \<and> (keeps_mode p i \<or> perm n = 0x180)
    \<and> extends {i} fs fs'"
proof -
  let ?d = "start_dir p path" and ?ps = "butlast (components path)" and ?name = "last (components path)"
  obtain dn s d fs1 where c: "''..'' \<notin> set (components path)" "inodes fs ?d = Some dn"
    "verify_trusted_log_dir p dn False = Inr s" "walk p ?ps ?d s fs = (Inr d, fs1)"
    "open_log_in p d ?name fs1 = (Inr i, fs')"
    using assms(2)
    by (auto simp: open_private_log_file_def file_name_def Let_def
        split: option.splits if_splits sum.splits prod.splits)
  have dir: "is_dir dn" using c(3) by (auto simp: verify_trusted_log_dir_def split: if_splits)
  from walk_spec[OF assms(1) c(2) dir c(4)] obtain n ns where w: "extends {} fs fs1" "fresh fs1"
    "chain fs1 ?d ?ps = Some ((?d, n) # ns)" "same_dir (?d, dn) (?d, n)"
    "fst (last ((?d, n) # ns)) = d" "list_all (\<lambda>x. is_dir (snd x)) ns" "verify_all p s (map snd ns)" by blast
  have all: "list_all (\<lambda>x. is_dir (snd x)) ((?d, n) # ns)" using w(4,6) by (simp add: same_dir_def)
  have "\<exists>m. inodes fs1 d = Some m \<and> is_dir m"
    using chain_last[OF w(3)] all w(5) by (auto simp: list_all_iff)
  then obtain dm where dm: "inodes fs1 d = Some dm" "is_dir dm" by blast
  note f = open_log_in_spec[OF w(2) dm c(5)]
  obtain ns' where ns': "chain fs' ?d ?ps = Some ns'" "list_all2 same_dir ((?d, n) # ns) ns'"
    using chain_extends[OF _ _ w(3) all, of "{i}" fs'] f by auto
  have "verify_all p False (map snd ((?d, n) # ns))"
    using c(3) w(4,7) verify_cong[of n dn p False] by (auto simp: same_dir_def)
  then have tr: "trusted_chain p (map snd ns')"
    using verify_all_same_dir[OF ns'(2), of p False] by (intro verify_all_trusted) simp
  have "fst (last ns') = d" using ns'(2) w(5) by (metis list_all2_Nil list_all2_last same_dir_def list.distinct(1))
  moreover have "extends {i} fs fs'" using f w(1) extends_mono[of "{}" fs fs1 "{i}"] extends_trans by blast
  ultimately show ?thesis using ns'(1) tr c(1) f by auto
qed

text \<open>A root directory with a sticky \<open>/tmp\<close>, seen by user 1000.\<close>

definition sample_fs :: file_system where
  "sample_fs =
     \<lparr>inodes = Map.empty(
        0 \<mapsto> \<lparr>kind = Directory (Map.empty(''tmp'' \<mapsto> 1)), owner = 0, perm = 0x1ED, links = 3\<rparr>,
        1 \<mapsto> \<lparr>kind = Directory Map.empty, owner = 0, perm = 0x3FF, links = 2\<rparr>),
      next_ino = 2\<rparr>"

definition sample_process :: process where
  "sample_process =
     \<lparr>euid = 1000, overflow_uid = None, root_dir = 0, work_dir = 0, refuses = \<lambda>_ _. False,
      keeps_mode = \<lambda>_. False\<rparr>"

lemma sample_components: "components ''/tmp/etr/x.log'' = [''tmp'', ''etr'', ''x.log'']"
  by (simp add: components_def)

lemma sample_open: "\<exists>fs'. open_private_log_file sample_process ''/tmp/etr/x.log'' sample_fs = (Inr 3, fs')"
  unfolding open_private_log_file_def file_name_def start_dir_def sample_components
  by (simp add: sample_fs_def sample_process_def starts_with_def
      verify_trusted_log_dir_def is_dir_def is_root_or_userns_overflow_uid_def open_or_create_def
      openat_dir_def entries_def mkdirat_def link_new_def set_perm_def open_log_in_def openat_file_def)

theorem open_private_log_file_trusted_witness:
  "\<exists>fs' ns n. open_private_log_file sample_process ''/tmp/etr/x.log'' sample_fs = (Inr 3, fs')
    \<and> chain fs' (start_dir sample_process ''/tmp/etr/x.log'') (butlast (components ''/tmp/etr/x.log'')) = Some ns
    \<and> trusted_chain sample_process (map snd ns)
    \<and> inodes fs' 3 = Some n \<and> owner n = euid sample_process \<and> perm n = 0x180"
proof -
  obtain fs' where o1: "open_private_log_file sample_process ''/tmp/etr/x.log'' sample_fs = (Inr 3, fs')"
    using sample_open by blast
  have "fresh sample_fs" by (auto simp: fresh_def sample_fs_def)
  moreover have "\<not> keeps_mode sample_process 3" by (simp add: sample_process_def)
  ultimately show ?thesis using open_private_log_file_trusted[OF _ o1] o1 by blast
qed

end
