(* ===== verification/X11_Forward.thy ===== *)
theory X11_Forward
  imports Quic_Framing Forward_Spec Bootstrap Private_Log
begin

text \<open>
  X11 forwarding: displays and cookies of \<open>src/forward.rs\<close>, and the proxy display of
  \<open>src/bin/etrs.rs\<close> (binding a free display, the cookie exchange, cleanup).  The \<open>xauth\<close> program and
  the host's sockets are parameters.
\<close>

section \<open>Displays\<close>

datatype X11Display = Unix u16 | Path string | TcpDisplay string u16

datatype display_error = InvalidDisplay string | InvalidDisplayNumber string

text \<open>\<open>6000 + display_num\<close> is \<open>u16\<close> arithmetic.\<close>

definition x11_parse :: "string \<Rightarrow> display_error + X11Display" where
  "x11_parse s =
     (if starts_with ''/'' s then Inr (Path s)
      else (case split_ignoring_brackets s of
              host # rest # _ \<Rightarrow>
                (let display_num_str = hd (split_on (CHR ''.'') rest)
                 in case parse_u16 display_num_str of
                      None \<Rightarrow> Inl (InvalidDisplayNumber display_num_str)
                    | Some display_num \<Rightarrow>
                        (if host = [] \<or> host = ''unix'' then Inr (Unix display_num)
                         else Inr (TcpDisplay host (6000 + display_num))))
            | _ \<Rightarrow> Inl (InvalidDisplay s)))"

fun display_num :: "X11Display \<Rightarrow> u16" where
  "display_num (Unix n) = n"
| "display_num (Path p) =
     (case after_last (CHR '':'') p of
        Some rest \<Rightarrow>
          (case parse_u16 (hd (split_on (CHR ''.'') rest)) of Some n \<Rightarrow> n | None \<Rightarrow> 0)
      | None \<Rightarrow> 0)"
| "display_num (TcpDisplay _ port) = (if 6000 \<le> port then port - 6000 else 0)"

section \<open>Cookies\<close>

text \<open>One line of \<open>xauth list\<close>: \<open>None\<close> is a line that is skipped.\<close>

definition xauth_entry :: "u16 \<Rightarrow> string \<Rightarrow> (string \<times> bytes) option outcome" where
  "xauth_entry target_num line =
     (case split_whitespace line of
        entry # auth_proto # cookie_hex # _ \<Rightarrow>
          (case after_last (CHR '':'') entry of
             None \<Rightarrow> Returns None
           | Some rest \<Rightarrow>
               (case parse_u16 (hd (split_on (CHR ''.'') (hd (split_on (CHR ''/'') rest)))) of
                  None \<Rightarrow> Returns None
                | Some num \<Rightarrow>
                    (if num = target_num
                     then (case hex_decode cookie_hex of
                             Panics \<Rightarrow> Panics
                           | Returns None \<Rightarrow> Returns None
                           | Returns (Some cookie) \<Rightarrow> Returns (Some (auth_proto, cookie)))
                     else Returns None)))
      | _ \<Rightarrow> Returns None)"

fun xauth_first :: "u16 \<Rightarrow> string list \<Rightarrow> (string \<times> bytes) option outcome" where
  "xauth_first target_num [] = Returns None"
| "xauth_first target_num (l # ls) =
     (case xauth_entry target_num l of
        Panics \<Rightarrow> Panics
      | Returns (Some r) \<Rightarrow> Returns (Some r)
      | Returns None \<Rightarrow> xauth_first target_num ls)"

definition parse_xauth_list_for_display :: "string \<Rightarrow> u16 \<Rightarrow> (string \<times> bytes) option outcome" where
  "parse_xauth_list_for_display stdout target_num = xauth_first target_num (str_lines stdout)"

datatype xauth_error = DisplayError display_error | XauthNotRun | XauthFailed | NoCookie

text \<open>A run of \<open>xauth\<close> with the given arguments: \<open>None\<close> when it cannot be executed, otherwise
  success and standard output.\<close>

type_synonym xauth = "string list \<Rightarrow> (bool \<times> string) option"

definition xauth_cookie_from :: "(bool \<times> string) option \<Rightarrow> u16 \<Rightarrow> (xauth_error + string \<times> bytes) outcome" where
  "xauth_cookie_from run target_num =
     (case run of
        None \<Rightarrow> Returns (Inl XauthNotRun)
      | Some (False, _) \<Rightarrow> Returns (Inl XauthFailed)
      | Some (True, stdout) \<Rightarrow>
          (case parse_xauth_list_for_display stdout target_num of
             Panics \<Rightarrow> Panics
           | Returns (Some c) \<Rightarrow> Returns (Inr c)
           | Returns None \<Rightarrow> Returns (Inl NoCookie)))"

definition get_xauth_cookie :: "xauth \<Rightarrow> string \<Rightarrow> (xauth_error + string \<times> bytes) outcome" where
  "get_xauth_cookie xauth display_str =
     (case x11_parse display_str of
        Inl e \<Rightarrow> Returns (Inl (DisplayError e))
      | Inr display \<Rightarrow> xauth_cookie_from (xauth [''list'']) (display_num display))"

text \<open>\<open>tmp_dir\<close> is the fresh temporary directory, \<open>None\<close> when it cannot be created.\<close>

definition get_xauth_cookie_for_mode ::
    "xauth \<Rightarrow> string option \<Rightarrow> string \<Rightarrow> bool \<Rightarrow> (xauth_error + string \<times> bytes) outcome" where
  "get_xauth_cookie_for_mode xauth tmp_dir display_str trusted =
     (if trusted then get_xauth_cookie xauth display_str
      else (case x11_parse display_str of
              Inl e \<Rightarrow> Returns (Inl (DisplayError e))
            | Inr display \<Rightarrow>
                (case tmp_dir of
                   None \<Rightarrow> get_xauth_cookie xauth display_str
                 | Some dir \<Rightarrow>
                     (let tmp_file = dir @ ''/Xauthority''
                      in case (case xauth [''-f'', tmp_file, ''generate'', display_str,
                                           ''MIT-MAGIC-COOKIE-1'', ''untrusted'', ''timeout'', ''1800''] of
                                 None \<Rightarrow> Returns (Inl XauthNotRun)
                               | Some (False, _) \<Rightarrow> Returns (Inl XauthFailed)
                               | Some (True, _) \<Rightarrow>
                                   xauth_cookie_from (xauth [''-f'', tmp_file, ''list'']) (display_num display)) of
                           Panics \<Rightarrow> Panics
                         | Returns (Inr cookie) \<Rightarrow> Returns (Inr cookie)
                         | Returns (Inl _) \<Rightarrow> get_xauth_cookie xauth display_str))))"

section \<open>The connection setup block\<close>

text \<open>\<open>read_exact\<close> on the local X11 connection, whose remaining input is a byte list.\<close>

definition read_bytes :: "nat \<Rightarrow> bytes \<Rightarrow> (bytes \<times> bytes) io_result" where
  "read_bytes n s = (if n \<le> length s then Inr (take n s, drop n s) else Inl UnexpectedEof)"

definition u16_at :: "bool \<Rightarrow> bytes \<Rightarrow> nat \<Rightarrow> nat" where
  "u16_at is_little header i =
     (if is_little then from_be_bytes [header ! (i + 1), header ! i]
      else from_be_bytes [header ! i, header ! (i + 1)])"

definition u16_bytes :: "bool \<Rightarrow> nat \<Rightarrow> bytes" where
  "u16_bytes is_little n =
     (let be = be_bytes 2 (unat (word_of_nat n :: u16)) in if is_little then rev be else be)"

definition padded :: "nat \<Rightarrow> nat" where
  "padded n = (n + 3) div 4 * 4"

definition pad :: "bytes \<Rightarrow> bytes" where
  "pad bs = bs @ replicate (padded (length bs) - length bs) 0"

definition MIT_MAGIC_COOKIE :: bytes where
  "MIT_MAGIC_COOKIE = as_bytes ''MIT-MAGIC-COOKIE-1''"

definition process_x11_setup :: "bytes \<Rightarrow> bytes \<Rightarrow> bytes \<Rightarrow> (bytes \<times> bytes) io_result" where
  "process_x11_setup stream fake_cookie real_cookie =
     (case read_bytes 12 stream of
        Inl e \<Rightarrow> Inl e
      | Inr (header, stream1) \<Rightarrow>
          (let is_little = (header ! 0 = 0x6C);
               name_len = u16_at is_little header 6;
               data_len = u16_at is_little header 8
           in case read_bytes (padded name_len) stream1 of
                Inl e \<Rightarrow> Inl e
              | Inr (name_buf, stream2) \<Rightarrow>
                  (case read_bytes (padded data_len) stream2 of
                     Inl e \<Rightarrow> Inl e
                   | Inr (data_buf, stream3) \<Rightarrow>
                       (if fake_cookie = [] then Inl PermissionDenied
                        else if data_len < length fake_cookie then Inl PermissionDenied
                        else if \<not> constant_time_eq (take (length fake_cookie) data_buf) fake_cookie
                        then Inl PermissionDenied
                        else if real_cookie = [] then
                          Inr (stream3, header[6 := 0, 7 := 0, 8 := 0, 9 := 0])
                        else
                          (let nl = u16_bytes is_little (length MIT_MAGIC_COOKIE);
                               dl = u16_bytes is_little (length real_cookie);
                               new_header = header[6 := nl ! 0, 7 := nl ! 1, 8 := dl ! 0, 9 := dl ! 1]
                           in Inr (stream3, new_header @ pad MIT_MAGIC_COOKIE @ pad real_cookie))))))"

text \<open>What \<open>forward_x11_connection\<close> writes on its new QUIC stream before piping: the tag, the
  stream header and the setup block; \<open>Inl\<close> when a write fails.\<close>

definition x11_stream_open :: Envelope where
  "x11_stream_open = envelope_of (PStreamOpen
     \<lparr>sto_stream_id = 0, sto_stream_type = stream_type_i32 X11, sto_remote_host = [],
      sto_remote_port = 0, sto_forward_proto = forward_proto_i32 Tcp\<rparr>)"

definition forward_x11_connection ::
    "(Envelope \<Rightarrow> bytes) \<Rightarrow> bytes \<Rightarrow> send_stream \<Rightarrow> unit io_result \<times> send_stream" where
  "forward_x11_connection encode setup_block s =
     (case write_all [TAG_FORWARD] s of
        (Inl e, s1) \<Rightarrow> (Inl e, s1)
      | (Inr _, s1) \<Rightarrow>
          (case write_msg encode x11_stream_open s1 of
             (Inl e, s2) \<Rightarrow> (Inl e, s2)
           | (Inr _, s2) \<Rightarrow> write_all setup_block s2))"

section \<open>The proxy display\<close>

text \<open>The host as \<open>bind_free_x11_display\<close> sees it: the uid, the metadata of \<open>/tmp/.X11-unix\<close> before and
  after the attempt to create it, which socket files exist, and which binds succeed (with the
  switch to non-blocking mode).  A bind of the IPv6 loopback fails with its error, \<open>AddrNotAvailable\<close>
  also standing for \<open>EAFNOSUPPORT\<close>.\<close>

record x11_host =
  xh_euid :: u32
  xh_dir :: "inode option"
  xh_created_dir :: "inode option"
  xh_socket_exists :: "nat \<Rightarrow> bool"
  xh_bind_v4 :: "nat \<Rightarrow> bool"
  xh_bind_v6 :: "nat \<Rightarrow> error_kind + unit"
  xh_bind_unix :: "nat \<Rightarrow> bool"

text \<open>Root creates the directory when it is missing.\<close>

definition x11_dir_meta :: "x11_host \<Rightarrow> inode option" where
  "x11_dir_meta h = (if xh_euid h = 0 \<and> xh_dir h = None then xh_created_dir h else xh_dir h)"

definition can_use_unix_socket :: "x11_host \<Rightarrow> bool" where
  "can_use_unix_socket h =
     (case x11_dir_meta h of
        None \<Rightarrow> False
      | Some m \<Rightarrow> is_dir m \<and> (owner m = 0 \<and> perm m AND 0x200 \<noteq> 0 \<or> owner m = xh_euid h \<and> perm m AND 0x3F = 0))"

text \<open>One candidate: \<open>None\<close> is a \<open>continue\<close>; otherwise whether the Unix socket and the IPv6 loopback
  are bound.\<close>

definition try_display :: "x11_host \<Rightarrow> nat \<Rightarrow> (bool \<times> bool) option" where
  "try_display h d =
     (if xh_socket_exists h d then None
      else if \<not> xh_bind_v4 h (6000 + d) then None
      else (case (case xh_bind_v6 h (6000 + d) of
                    Inr _ \<Rightarrow> Some True
                  | Inl AddrNotAvailable \<Rightarrow> Some False
                  | Inl _ \<Rightarrow> None) of
              None \<Rightarrow> None
            | Some v6 \<Rightarrow>
                (if can_use_unix_socket h
                 then (if xh_bind_unix h d then Some (True, v6) else None)
                 else Some (False, v6))))"

fun first_display :: "x11_host \<Rightarrow> nat list \<Rightarrow> (nat \<times> bool \<times> bool) option" where
  "first_display h [] = None"
| "first_display h (d # ds) =
     (case try_display h d of Some (u, v6) \<Rightarrow> Some (d, u, v6) | None \<Rightarrow> first_display h ds)"

definition bind_free_x11_display :: "x11_host \<Rightarrow> (nat \<times> bool \<times> bool) option" where
  "bind_free_x11_display h = first_display h [10..<100]"

text \<open>The set-up in \<open>run_session\<close>: the fake cookie is registered under both names of the display,
  and the display is used only if both \<open>xauth add\<close> runs succeed.  A run is \<open>None\<close> when it cannot be
  executed, otherwise its success.\<close>

definition xauth_add :: "(string list \<Rightarrow> bool option) \<Rightarrow> string \<Rightarrow> bytes \<Rightarrow> bool option" where
  "xauth_add xauth name fake_cookie =
     xauth [''add'', name, ''MIT-MAGIC-COOKIE-1'', hex_encode fake_cookie]"

definition setup_x11_display ::
    "x11_host \<Rightarrow> (string list \<Rightarrow> bool option) \<Rightarrow> bool \<Rightarrow> bytes \<Rightarrow> (nat \<times> bool \<times> bool) option" where
  "setup_x11_display h xauth x11_enabled fake_cookie =
     (if \<not> x11_enabled then None
      else (case bind_free_x11_display h of
              None \<Rightarrow> None
            | Some (d, u, v6) \<Rightarrow>
                (if xauth_add xauth (''localhost/unix:'' @ show_nat d) fake_cookie = Some True
                    \<and> xauth_add xauth (''localhost:'' @ show_nat d) fake_cookie = Some True
                 then Some (d, u, v6) else None)))"

datatype cleanup_action = RemoveFile string | RunXauth "string list"

definition x11_cleanup :: "nat \<Rightarrow> bool \<Rightarrow> cleanup_action list" where
  "x11_cleanup d has_unix_socket =
     (if has_unix_socket then [RemoveFile (''/tmp/.X11-unix/X'' @ show_nat d)] else [])
     @ [RunXauth [''remove'', ''localhost/unix:'' @ show_nat d],
        RunXauth [''remove'', ''localhost:'' @ show_nat d]]"

section \<open>The setup request\<close>

text \<open>An X11 connection setup request: byte order, five bytes (a pad byte and the protocol
  version), the lengths of the authorization name and data, two unused bytes, and both padded to
  multiples of four.\<close>

definition setup_bytes :: "u8 \<Rightarrow> bytes \<Rightarrow> bytes \<Rightarrow> bytes \<Rightarrow> bytes \<Rightarrow> bytes" where
  "setup_bytes order version unused name data =
     [order] @ version @ u16_bytes (order = 0x6C) (length name) @ u16_bytes (order = 0x6C) (length data)
     @ unused @ pad name @ pad data"

lemma length_u16_bytes [simp]: "length (u16_bytes l n) = 2"
  by (simp add: u16_bytes_def Let_def)

lemma padded_ge: "n \<le> padded n"
  by (simp add: padded_def)

lemma length_pad [simp]: "length (pad bs) = padded (length bs)"
  using padded_ge[of "length bs"] by (simp add: pad_def)

lemma take_pad: "n \<le> length bs \<Longrightarrow> take n (pad bs) = take n bs"
  by (simp add: pad_def)

lemma pad_Nil [simp]: "pad [] = []" and padded_0 [simp]: "padded 0 = 0"
  by (simp_all add: pad_def padded_def)

lemma read_bytes_append [simp]: "length a = n \<Longrightarrow> read_bytes n (a @ b) = Inr (a, b)"
  by (auto simp: read_bytes_def)

lemma length_2_conv: "length xs = 2 \<longleftrightarrow> (\<exists>a b. xs = [a, b])"
  by (auto simp: numeral_2_eq_2 length_Suc_conv)

lemma length_5_conv: "length xs = 5 \<Longrightarrow> \<exists>a b c d e. xs = [a, b, c, d, e]"
proof -
  assume "length xs = 5"
  then have "length xs = Suc (Suc (Suc (Suc (Suc 0))))" by simp
  then show ?thesis by (auto simp: length_Suc_conv)
qed

lemma u16_bytes_conv: "\<exists>a b. u16_bytes l n = [a, b]"
  using length_2_conv length_u16_bytes by blast

lemma from_be_u16: "n < 2 ^ 16 \<Longrightarrow> from_be_bytes (be_bytes 2 (unat (word_of_nat n :: u16))) = n"
  by (simp add: from_be_bytes_be_bytes unat_of_nat)

lemma u16_at_bytes:
  assumes "n < 2 ^ 16" and "u16_bytes l n = [a, b]"
  shows "(if l then from_be_bytes [b, a] else from_be_bytes [a, b]) = n"
  using from_be_u16[OF assms(1)] assms(2)
  by (auto simp: u16_bytes_def Let_def split: if_splits)

lemma process_x11_setup_request:
  assumes "length version = 5" and "length unused = 2"
    and "length name < 2 ^ 16" and "length data < 2 ^ 16"
  shows "process_x11_setup (setup_bytes order version unused name data @ rest) fake real =
    (if fake = [] \<or> take (length fake) data \<noteq> fake then Inl PermissionDenied
     else Inr (rest, if real = [] then setup_bytes order version unused [] []
                     else setup_bytes order version unused MIT_MAGIC_COOKIE real))"
proof -
  let ?l = "order = 0x6C"
  obtain v1 v2 v3 v4 v5 where v: "version = [v1, v2, v3, v4, v5]"
    using length_5_conv[OF assms(1)] by blast
  obtain x1 x2 where x: "unused = [x1, x2]" using assms(2)[unfolded length_2_conv] by blast
  obtain a b where ab: "u16_bytes ?l (length name) = [a, b]" using u16_bytes_conv by blast
  obtain c d where cd: "u16_bytes ?l (length data) = [c, d]" using u16_bytes_conv by blast
  obtain e f where ef: "u16_bytes ?l (length MIT_MAGIC_COOKIE) = [e, f]" using u16_bytes_conv by blast
  obtain g h where gh: "u16_bytes ?l (length real) = [g, h]" using u16_bytes_conv by blast
  let ?hd = "[order, v1, v2, v3, v4, v5, a, b, c, d, x1, x2]"
  have req: "setup_bytes order version unused name data @ rest = ?hd @ pad name @ pad data @ rest"
    by (simp add: setup_bytes_def v x ab cd)
  have len: "u16_at ?l ?hd 6 = length name" "u16_at ?l ?hd 8 = length data"
    using u16_at_bytes[OF assms(3) ab] u16_at_bytes[OF assms(4) cd]
    by (simp_all add: u16_at_def eval_nat_numeral split: if_splits)
  have zero: "u16_bytes ?l 0 = [0, 0]" by (simp add: u16_bytes_def Let_def numeral_2_eq_2)
  have hd: "read_bytes 12 (?hd @ pad name @ pad data @ rest) = Inr (?hd, pad name @ pad data @ rest)"
    by (rule read_bytes_append) simp
  have ct: "constant_time_eq (take (length fake) (pad data)) fake \<longleftrightarrow> take (length fake) data = fake"
    if "\<not> length data < length fake"
    using that by (simp add: constant_time_eq_iff_eq take_pad)
  have short: "take (length fake) data \<noteq> fake" if "length data < length fake"
    using that by (metis length_take min.strict_order_iff min_less_iff_conj nless_le)
  show ?thesis
    unfolding process_x11_setup_def req hd
    using len ct short
    by (auto simp: setup_bytes_def v x ef gh zero Let_def eval_nat_numeral)
qed

section \<open>Cookies and displays\<close>

lemma xauth_first_Some:
  "xauth_first num ls = Returns (Some r) \<Longrightarrow> \<exists>l \<in> set ls. xauth_entry num l = Returns (Some r)"
  by (induction ls) (auto split: outcome.splits option.splits)

definition entry_display :: "string \<Rightarrow> u16 option" where
  "entry_display entry =
     Option.bind (after_last (CHR '':'') entry)
       (\<lambda>rest. parse_u16 (hd (split_on (CHR ''.'') (hd (split_on (CHR ''/'') rest)))))"

lemma xauth_entry_Some:
  assumes "xauth_entry num l = Returns (Some (pr, cookie))"
  shows "\<exists>entry hex more. split_whitespace l = entry # pr # hex # more \<and> entry_display entry = Some num
    \<and> hex_decode hex = Returns (Some cookie)"
  using assms
  by (auto simp: xauth_entry_def entry_display_def split: list.splits option.splits if_splits outcome.splits)

lemma first_display_Some:
  "first_display h ds = Some (d, u, v6) \<Longrightarrow> d \<in> set ds \<and> try_display h d = Some (u, v6)"
  by (induction ds) (auto split: option.splits)

lemma first_display_None: "first_display h ds = None \<longleftrightarrow> (\<forall>d \<in> set ds. try_display h d = None)"
  by (induction ds) (auto split: option.splits)

lemma try_display_Some:
  assumes "try_display h d = Some (u, v6)"
  shows "\<not> xh_socket_exists h d \<and> xh_bind_v4 h (6000 + d)
    \<and> (if v6 then xh_bind_v6 h (6000 + d) = Inr () else xh_bind_v6 h (6000 + d) = Inl AddrNotAvailable)
    \<and> u = can_use_unix_socket h \<and> (u \<longrightarrow> xh_bind_unix h d)"
  using assms
  by (auto simp: try_display_def split: if_splits sum.splits error_kind.splits option.splits)

section \<open>Properties\<close>

text \<open>(functional): the cookie exchange.  A local X11 client whose setup request, in either byte
  order, carries the server's fake cookie is forwarded with exactly the same request carrying the
  real cookie (or none when there is no real one), and nothing of the rest of its stream is consumed;
  any other cookie is refused.\<close>

theorem x11_cookie_exchange:
  assumes "length version = 5" and "length unused = 2"
    and "length name < 2 ^ 16" and "length data < 2 ^ 16"
  shows "process_x11_setup (setup_bytes order version unused name data @ rest) fake real =
    (if fake = [] \<or> take (length fake) data \<noteq> fake then Inl PermissionDenied
     else Inr (rest, if real = [] then setup_bytes order version unused [] []
                     else setup_bytes order version unused MIT_MAGIC_COOKIE real))"
  using assms by (rule process_x11_setup_request)

theorem x11_cookie_exchange_witness:
  "process_x11_setup (setup_bytes 0x6C [0, 11, 0, 0, 0] [0, 0] MIT_MAGIC_COOKIE [1, 2, 3] @ [9]) [1, 2, 3] [7] =
     Inr ([9], setup_bytes 0x6C [0, 11, 0, 0, 0] [0, 0] MIT_MAGIC_COOKIE [7])"
  using x11_cookie_exchange[of "[0, 11, 0, 0, 0]" "[0, 0]" MIT_MAGIC_COOKIE "[1, 2, 3]" "0x6C" "[9]" "[1, 2, 3]" "[7]"]
  by (simp add: MIT_MAGIC_COOKIE_def as_bytes_def)

text \<open>(safety): a cookie taken from \<open>xauth list\<close> belongs to a listed entry for the requested
  display number; a cookie of another display is never returned.\<close>

theorem xauth_cookie_of_display:
  assumes "parse_xauth_list_for_display stdout num = Returns (Some (pr, cookie))"
  shows "\<exists>l \<in> set (str_lines stdout). \<exists>entry hex more.
    split_whitespace l = entry # pr # hex # more \<and> entry_display entry = Some num
    \<and> hex_decode hex = Returns (Some cookie)"
  using xauth_first_Some[of num "str_lines stdout"] xauth_entry_Some assms
  unfolding parse_xauth_list_for_display_def by blast

theorem xauth_cookie_of_display_witness:
  "\<exists>l \<in> set (str_lines ''h:3 M 0a''). \<exists>entry hex more.
    split_whitespace l = entry # ''M'' # hex # more \<and> entry_display entry = Some 3
    \<and> hex_decode hex = Returns (Some [10])"
proof (rule xauth_cookie_of_display)
  have l: "str_lines ''h:3 M 0a'' = [''h:3 M 0a'']" by (simp add: str_lines_def split_on_no_sep)
  have ws: "split_whitespace ''h:3 M 0a'' = [''h:3'', ''M'', ''0a'']"
    using split_ws_cons[of "''h:3''" "''M 0a''"] split_ws_cons[of "''M''" "''0a''"] split_ws_single[of "''0a''"]
    by (simp add: split_whitespace_def printable_def)
  have "parse_u16 ''3'' = Some 3" by (simp add: parse_u16_def from_str_radix_def to_digit_def)
  moreover have "hex_decode ''0a'' = Returns (Some [10])"
    by (simp add: hex_decode_def from_str_radix_def to_digit_def)
  ultimately have "xauth_entry 3 ''h:3 M 0a'' = Returns (Some (''M'', [10]))"
    by (simp add: xauth_entry_def ws after_last_def)
  then show "parse_xauth_list_for_display ''h:3 M 0a'' 3 = Returns (Some (''M'', [10]))"
    by (simp add: parse_xauth_list_for_display_def l)
qed

text \<open>(safety): the proxy display that \<open>run_session\<close> offers has a number from 10 to 99, no earlier
  socket file, its IPv4 loopback port bound, and its IPv6 loopback port bound as well or unavailable on
  this host; a Unix socket is used exactly when its directory is trusted, and then bound; and the fake
  cookie was registered under both names of the display.\<close>

theorem x11_display_owned:
  assumes "setup_x11_display h xauth enabled fake = Some (d, u, v6)"
  shows "enabled \<and> 10 \<le> d \<and> d < 100 \<and> \<not> xh_socket_exists h d \<and> xh_bind_v4 h (6000 + d)
    \<and> (xh_bind_v6 h (6000 + d) = Inr () \<or> xh_bind_v6 h (6000 + d) = Inl AddrNotAvailable)
    \<and> u = can_use_unix_socket h \<and> (u \<longrightarrow> xh_bind_unix h d)
    \<and> xauth_add xauth (''localhost/unix:'' @ show_nat d) fake = Some True
    \<and> xauth_add xauth (''localhost:'' @ show_nat d) fake = Some True"
proof -
  have b: "bind_free_x11_display h = Some (d, u, v6)" and x: "enabled"
    "xauth_add xauth (''localhost/unix:'' @ show_nat d) fake = Some True"
    "xauth_add xauth (''localhost:'' @ show_nat d) fake = Some True"
    using assms by (auto simp: setup_x11_display_def split: if_splits option.splits)
  note f = first_display_Some[OF b[unfolded bind_free_x11_display_def], unfolded set_upt]
  then have "10 \<le> d" "d < 100" by simp_all
  with x try_display_Some[of h d u v6] f show ?thesis by (simp split: if_splits)
qed

theorem x11_display_owned_witness:
  "let h = \<lparr>xh_euid = 1000, xh_dir = None, xh_created_dir = None, xh_socket_exists = \<lambda>d. d = 10,
            xh_bind_v4 = \<lambda>_. True, xh_bind_v6 = \<lambda>_. Inl AddrNotAvailable, xh_bind_unix = \<lambda>_. False\<rparr>
   in setup_x11_display h (\<lambda>_. Some True) True [1] = Some (11, False, False)
     \<and> \<not> xh_socket_exists h 11 \<and> xh_bind_v4 h (6000 + 11)"
proof -
  let ?h = "\<lparr>xh_euid = 1000, xh_dir = None, xh_created_dir = None, xh_socket_exists = \<lambda>d. d = 10,
            xh_bind_v4 = \<lambda>_. True, xh_bind_v6 = \<lambda>_. Inl AddrNotAvailable, xh_bind_unix = \<lambda>_. False\<rparr>"
  have "[10..<100 :: nat] = 10 # 11 # [12..<100]" by (simp add: upt_conv_Cons)
  then have "bind_free_x11_display ?h = Some (11, False, False)"
    by (simp add: bind_free_x11_display_def try_display_def can_use_unix_socket_def x11_dir_meta_def)
  then have s: "setup_x11_display ?h (\<lambda>_. Some True) True [1] = Some (11, False, False)"
    by (simp add: setup_x11_display_def xauth_add_def)
  from s x11_display_owned[OF s] show ?thesis unfolding Let_def by blast
qed

text \<open>(bounds): the display number of a TCP display survives the detour over its port exactly up
  to 59535; above that the \<open>u16\<close> sum wraps and the number is read back as 0.\<close>

theorem tcp_display_number_bounds:
  "display_num (TcpDisplay host (6000 + n)) = (if n \<le> 59535 then n else 0)"
proof -
  have n: "unat n < 65536" using unat_lt[of n] by simp
  have u: "unat (6000 + n) = (6000 + unat n) mod 65536" by (simp add: unat_word_ariths)
  show ?thesis
  proof (cases "n \<le> 59535")
    case True
    then have "unat n \<le> 59535" by (simp add: word_le_nat_alt)
    then have "6000 \<le> 6000 + n" using u by (simp add: word_le_nat_alt)
    then show ?thesis using True by simp
  next
    case False
    then have "59535 < unat n" by (simp add: word_le_nat_alt)
    then have "(6000 + unat n) mod 65536 = unat n + 6000 - 65536" using n by (simp add: mod_if)
    then have "\<not> 6000 \<le> 6000 + n" using u n by (simp add: word_le_nat_alt)
    then show ?thesis using False by simp
  qed
qed

end
