(* ===== verification/Tcp_Forward.thy ===== *)
theory Tcp_Forward
  imports Quic_Framing Forward_Spec X11_Forward
begin

text \<open>
  Forward streams of \<open>src/bin/etr.rs\<close> and \<open>src/bin/etrs.rs\<close>: the listeners, the header that opens a
  forward stream, what the other side does with a stream it accepts, and the pipes between a socket
  and a stream.  Sockets, the resolver and the protobuf codec are parameters.
\<close>

section \<open>Opening a forward stream\<close>

text \<open>The listeners an acceptor gets: every address of the spec that can be bound.\<close>

definition bind_listeners :: "(string \<Rightarrow> bool) \<Rightarrow> ForwardSpec \<Rightarrow> bool \<Rightarrow> string list" where
  "bind_listeners can_listen spec gateway =
     filter can_listen
       (map (\<lambda>addr. addr @ '':'' @ show_u16 (local_port spec)) (get_bind_addresses spec gateway))"

definition stream_open_of :: "ForwardSpec \<Rightarrow> ForwardProto \<Rightarrow> StreamOpen" where
  "stream_open_of spec pr =
     \<lparr>sto_stream_id = 0, sto_stream_type = stream_type_i32 PortForward,
      sto_remote_host = remote_host spec, sto_remote_port = ucast (remote_port spec),
      sto_forward_proto = forward_proto_i32 pr\<rparr>"

text \<open>The tag and the header, written on a fresh stream; the stream is dropped when a write fails.\<close>

definition write_stream_header ::
    "(Envelope \<Rightarrow> bytes) \<Rightarrow> StreamOpen \<Rightarrow> send_stream \<Rightarrow> unit io_result \<times> send_stream" where
  "write_stream_header encode so s =
     (case write_all [TAG_FORWARD] s of
        (Inl e, s1) \<Rightarrow> (Inl e, s1)
      | (Inr _, s1) \<Rightarrow> write_msg encode (envelope_of (PStreamOpen so)) s1)"

text \<open>The task of a connection accepted by the client, given the result of \<open>open_bi\<close>, and by the
  server, which needs an active connection first.  \<open>None\<close>: no stream was opened.\<close>

definition tcp_connection ::
    "(Envelope \<Rightarrow> bytes) \<Rightarrow> ForwardSpec \<Rightarrow> send_stream option \<Rightarrow> (unit io_result \<times> send_stream) option" where
  "tcp_connection encode spec open_bi =
     (case open_bi of
        None \<Rightarrow> None
      | Some quic_send \<Rightarrow> Some (write_stream_header encode (stream_open_of spec Tcp) quic_send))"

definition reverse_tcp_connection ::
    "(Envelope \<Rightarrow> bytes) \<Rightarrow> ForwardSpec \<Rightarrow> send_stream option option \<Rightarrow> (unit io_result \<times> send_stream) option" where
  "reverse_tcp_connection encode spec active_conn =
     (case active_conn of
        None \<Rightarrow> None
      | Some open_bi \<Rightarrow>
          (case open_bi of
             None \<Rightarrow> None
           | Some quic_send \<Rightarrow> Some (write_stream_header encode (stream_open_of spec Tcp) quic_send)))"

text \<open>The listeners and the task of each connection they accept; nothing when no address can be
  bound.\<close>

definition run_tcp_acceptor_quic ::
    "(Envelope \<Rightarrow> bytes) \<Rightarrow> (string \<Rightarrow> bool) \<Rightarrow> ForwardSpec \<Rightarrow> bool
     \<Rightarrow> (string list \<times> (send_stream option \<Rightarrow> (unit io_result \<times> send_stream) option)) option" where
  "run_tcp_acceptor_quic encode can_listen spec gateway =
     (let listeners = bind_listeners can_listen spec gateway
      in if listeners = [] then None else Some (listeners, tcp_connection encode spec))"

definition run_tcp_reverse_listener ::
    "(Envelope \<Rightarrow> bytes) \<Rightarrow> (string \<Rightarrow> bool) \<Rightarrow> ForwardSpec \<Rightarrow> bool
     \<Rightarrow> (string list \<times> (send_stream option option \<Rightarrow> (unit io_result \<times> send_stream) option)) option" where
  "run_tcp_reverse_listener encode can_listen spec gateway =
     (let listeners = bind_listeners can_listen spec gateway
      in if listeners = [] then None else Some (listeners, reverse_tcp_connection encode spec))"

section \<open>Accepting a forward stream\<close>

text \<open>What the server's dispatch task does with an accepted stream.\<close>

datatype dispatch_action =
    TakePty | ServeTcp StreamOpen | ServeUdp StreamOpen | Ignore | StopDispatch

definition dispatch_stream ::
    "(bytes \<Rightarrow> Envelope option) \<Rightarrow> bool \<Rightarrow> recv_stream \<Rightarrow> dispatch_action \<times> recv_stream" where
  "dispatch_stream decode pty_pending r =
     (case read_tag r of
        (Inl _, r1) \<Rightarrow> (StopDispatch, r1)
      | (Inr tag, r1) \<Rightarrow>
          (if tag = TAG_PTY then (if pty_pending then TakePty else Ignore, r1)
           else if tag = TAG_FORWARD then
             (case read_msg decode r1 of
                (Inr (Some env), r2) \<Rightarrow>
                  (case payload env of
                     Some (PStreamOpen so) \<Rightarrow>
                       (case forward_proto_try_from (sto_forward_proto so) of
                          Some Udp \<Rightarrow> (ServeUdp so, r2)
                        | _ \<Rightarrow> (ServeTcp so, r2))
                   | _ \<Rightarrow> (Ignore, r2))
              | (_, r2) \<Rightarrow> (StopDispatch, r2))
           else (Ignore, r1)))"

definition target_addr :: "StreamOpen \<Rightarrow> string" where
  "target_addr so = sto_remote_host so @ '':'' @ show_nat (unat (sto_remote_port so))"

text \<open>\<open>serve_tcp_forward\<close>: connect or finish the stream.\<close>

definition serve_tcp_forward ::
    "(string \<Rightarrow> error_kind + SocketAddr list) \<Rightarrow> (SocketAddr \<Rightarrow> error_kind + 'conn) \<Rightarrow> AddrPref \<Rightarrow> StreamOpen
     \<Rightarrow> 'conn option" where
  "serve_tcp_forward lookup_host connect addr_pref so =
     (case connect_tcp_preferred lookup_host connect (target_addr so) addr_pref of
        Inr c \<Rightarrow> Some c
      | Inl _ \<Rightarrow> None)"

definition is_authorized_reverse_stream :: "StreamOpen \<Rightarrow> bool \<Rightarrow> ForwardSpec list \<Rightarrow> bool" where
  "is_authorized_reverse_stream so x11_enabled reverse_specs =
     (if sto_stream_type so = stream_type_i32 X11 then x11_enabled
      else if sto_stream_type so \<noteq> stream_type_i32 PortForward then False
      else (case forward_proto_try_from (sto_forward_proto so) of
              None \<Rightarrow> False
            | Some pr \<Rightarrow>
                (if 65535 < unat (sto_remote_port so) then False
                 else list_ex (\<lambda>spec. proto spec = pr \<and> ucast (remote_port spec) = sto_remote_port so
                        \<and> remote_host spec = sto_remote_host so) reverse_specs)))"

datatype reverse_action =
    ConnectX11 string | ConnectTcp string | RelayUdp string | FinishStream | DropStream

text \<open>The specs the client accepts reverse streams for: those of its \<open>-R\<close> options that parse.\<close>

definition parsed_reverse_specs :: "string list \<Rightarrow> ForwardSpec list" where
  "parsed_reverse_specs ss = List.map_filter (\<lambda>s. case parse_spec s of Inl _ \<Rightarrow> None | Inr spec \<Rightarrow> Some spec) ss"

text \<open>The client's reverse acceptor on one stream of the server; \<open>display\<close> is its \<open>DISPLAY\<close>.\<close>

definition accept_reverse_stream ::
    "(bytes \<Rightarrow> Envelope option) \<Rightarrow> bool \<Rightarrow> ForwardSpec list \<Rightarrow> string option \<Rightarrow> recv_stream
     \<Rightarrow> reverse_action \<times> recv_stream" where
  "accept_reverse_stream decode x11_enabled reverse_specs display r =
     (case read_tag r of
        (Inl _, r1) \<Rightarrow> (DropStream, r1)
      | (Inr tag, r1) \<Rightarrow>
          (if tag \<noteq> TAG_FORWARD then (DropStream, r1)
           else (case read_msg decode r1 of
                   (Inr (Some env), r2) \<Rightarrow>
                     (case payload env of
                        Some (PStreamOpen so) \<Rightarrow>
                          (if \<not> is_authorized_reverse_stream so x11_enabled reverse_specs
                           then (FinishStream, r2)
                           else if sto_stream_type so = stream_type_i32 X11
                           then (case display of
                                   None \<Rightarrow> (FinishStream, r2)
                                 | Some d \<Rightarrow> (ConnectX11 d, r2))
                           else (case forward_proto_try_from (sto_forward_proto so) of
                                   Some Udp \<Rightarrow> (RelayUdp (target_addr so), r2)
                                 | _ \<Rightarrow> (ConnectTcp (target_addr so), r2)))
                      | _ \<Rightarrow> (DropStream, r2))
                 | (_, r2) \<Rightarrow> (DropStream, r2))))"

datatype x11_endpoint = UnixSocket string | TcpSocket string

definition connect_local_x11 :: "string \<Rightarrow> display_error + x11_endpoint" where
  "connect_local_x11 display_str =
     (case x11_parse display_str of
        Inl e \<Rightarrow> Inl e
      | Inr (Unix n) \<Rightarrow> Inr (UnixSocket (''/tmp/.X11-unix/X'' @ show_u16 n))
      | Inr (Path p) \<Rightarrow> Inr (UnixSocket p)
      | Inr (TcpDisplay host port) \<Rightarrow> Inr (TcpSocket (host @ '':'' @ show_u16 port)))"

section \<open>Pipes\<close>

text \<open>A pipe between a socket and a QUIC stream: what each side will still send, what each has been
  given, which of the two copy tasks have ended, and whether the pipe was torn down.  The buffers are
  256 KiB; a copy task ends at the end of its input or when a write fails.\<close>

record pipe =
  local_in :: bytes
  quic_in :: bytes
  to_quic :: bytes
  to_local :: bytes
  t1_done :: bool
  t2_done :: bool
  aborted :: bool

definition new_pipe :: "bytes \<Rightarrow> bytes \<Rightarrow> pipe" where
  "new_pipe a b = \<lparr>local_in = a, quic_in = b, to_quic = [], to_local = [], t1_done = False,
     t2_done = False, aborted = False\<rparr>"

definition PIPE_BUF :: nat where "PIPE_BUF = 256 * 1024"

text \<open>\<open>CopyOut n\<close>: task \<open>t1\<close> reads at most \<open>n\<close> bytes from the socket and writes them; \<open>FailOut n\<close>: the
  write fails after \<open>n\<close> bytes; the same for \<open>t2\<close>; \<open>Select\<close>: one task has ended and the other is
  aborted.\<close>

datatype pipe_event = CopyOut nat | FailOut nat | CopyIn nat | FailIn nat | Select

definition read_len :: "nat \<Rightarrow> bytes \<Rightarrow> nat" where
  "read_len n src = min (max 1 n) (min PIPE_BUF (length src))"

fun pipe_tcp_quic :: "pipe \<Rightarrow> pipe_event \<Rightarrow> pipe" where
  "pipe_tcp_quic p (CopyOut n) =
     (if aborted p \<or> t1_done p then p
      else if local_in p = [] then p\<lparr>t1_done := True\<rparr>
      else (let k = read_len n (local_in p)
            in p\<lparr>local_in := drop k (local_in p), to_quic := to_quic p @ take k (local_in p)\<rparr>))"
| "pipe_tcp_quic p (FailOut n) =
     (if aborted p \<or> t1_done p \<or> local_in p = [] then p
      else p\<lparr>to_quic := to_quic p @ take (min n PIPE_BUF) (local_in p),
             local_in := drop (min n PIPE_BUF) (local_in p), t1_done := True\<rparr>)"
| "pipe_tcp_quic p (CopyIn n) =
     (if aborted p \<or> t2_done p then p
      else if quic_in p = [] then p\<lparr>t2_done := True\<rparr>
      else (let k = read_len n (quic_in p)
            in p\<lparr>quic_in := drop k (quic_in p), to_local := to_local p @ take k (quic_in p)\<rparr>))"
| "pipe_tcp_quic p (FailIn n) =
     (if aborted p \<or> t2_done p \<or> quic_in p = [] then p
      else p\<lparr>to_local := to_local p @ take (min n PIPE_BUF) (quic_in p),
             quic_in := drop (min n PIPE_BUF) (quic_in p), t2_done := True\<rparr>)"
| "pipe_tcp_quic p Select = (if t1_done p \<or> t2_done p then p\<lparr>aborted := True\<rparr> else p)"

text \<open>The client's TCP pipe, its X11 pipe for both kinds of socket, and the server's X11 pipe have the
  same two tasks and the same \<open>select!\<close>.\<close>

definition run_tcp_connection_quic :: "pipe \<Rightarrow> pipe_event \<Rightarrow> pipe" where
  "run_tcp_connection_quic p e = pipe_tcp_quic p e"

definition run_x11_connection_quic :: "x11_endpoint \<Rightarrow> pipe \<Rightarrow> pipe_event \<Rightarrow> pipe" where
  "run_x11_connection_quic stream p e =
     (case stream of UnixSocket _ \<Rightarrow> pipe_tcp_quic p e | TcpSocket _ \<Rightarrow> pipe_tcp_quic p e)"

definition pipe_generic_quic :: "pipe \<Rightarrow> pipe_event \<Rightarrow> pipe" where
  "pipe_generic_quic p e = pipe_tcp_quic p e"

definition pipe_run :: "pipe \<Rightarrow> pipe_event list \<Rightarrow> pipe" where
  "pipe_run p es = fold (\<lambda>e p. pipe_tcp_quic p e) es p"

section \<open>Lemmas\<close>

lemma proto_i32_round [simp]: "forward_proto_try_from (forward_proto_i32 p) = Some p"
  by (cases p) (simp_all add: forward_proto_try_from_def)

lemma payload_envelope_of [simp]: "payload (envelope_of p) = Some p"
  by (simp add: envelope_of_def)

lemma write_stream_header_unlimited:
  assumes "length (encode (envelope_of (PStreamOpen so))) \<le> MAX_CONTROL_MSG"
  shows "write_stream_header encode so \<lparr>outgoing = [], budget = None\<rparr> =
    (Inr (), \<lparr>outgoing = TAG_FORWARD # msg_bytes encode (envelope_of (PStreamOpen so)), budget = None\<rparr>)"
  using write_msg_unlimited[where encode = encode, OF assms, of "[TAG_FORWARD]"] by (simp add: write_stream_header_def write_all_def)

lemma ucast_port [simp]: "unat (ucast (p :: u16) :: u32) = unat p"
  using unat_lt[of p] by (simp add: unsigned_ucast_eq take_bit_nat_eq_self_iff)

lemma ucast_port_eq [simp]: "(ucast (p :: u16) :: u32) = ucast q \<longleftrightarrow> p = q"
  by (metis ucast_port word_unat_eq_iff)

lemma target_addr_of [simp]:
  "target_addr (stream_open_of spec pr) = remote_host spec @ '':'' @ show_u16 (remote_port spec)"
  by (simp add: target_addr_def stream_open_of_def show_u16_def)

lemma authorized_of_spec:
  "spec \<in> set specs \<Longrightarrow> is_authorized_reverse_stream (stream_open_of spec (proto spec)) x specs"
  using unat_lt[of "remote_port spec"]
  by (auto simp: is_authorized_reverse_stream_def stream_open_of_def list_ex_iff)

lemma authorizedD:
  assumes "is_authorized_reverse_stream so x specs"
  shows "sto_stream_type so = stream_type_i32 X11 \<and> x \<or>
    (\<exists>spec \<in> set specs. forward_proto_try_from (sto_forward_proto so) = Some (proto spec)
       \<and> target_addr so = remote_host spec @ '':'' @ show_u16 (remote_port spec))"
  using assms
  by (auto simp: is_authorized_reverse_stream_def target_addr_def show_u16_def list_ex_iff
      split: if_splits option.splits) (metis ucast_port)

lemma pipe_step_conserves:
  "to_quic (pipe_tcp_quic p e) @ local_in (pipe_tcp_quic p e) = to_quic p @ local_in p
   \<and> to_local (pipe_tcp_quic p e) @ quic_in (pipe_tcp_quic p e) = to_local p @ quic_in p"
  by (cases e) (auto simp: Let_def)

lemma pipe_run_Cons [simp]: "pipe_run p (e # es) = pipe_run (pipe_tcp_quic p e) es"
  and pipe_run_Nil [simp]: "pipe_run p [] = p"
  by (simp_all add: pipe_run_def)

lemma pipe_run_append: "pipe_run p (xs @ ys) = pipe_run (pipe_run p xs) ys"
  by (simp add: pipe_run_def)

lemma pipe_run_conserves:
  "to_quic (pipe_run p es) @ local_in (pipe_run p es) = to_quic p @ local_in p
   \<and> to_local (pipe_run p es) @ quic_in (pipe_run p es) = to_local p @ quic_in p"
  by (induction es arbitrary: p) (simp_all add: pipe_step_conserves)

lemma pipe_aborted_frozen: "aborted p \<Longrightarrow> pipe_run p es = p"
proof (induction es)
  case (Cons e es)
  then have "pipe_tcp_quic p e = p" by (cases e) auto
  with Cons show ?case by simp
qed simp

lemma read_len_pos: "src \<noteq> [] \<Longrightarrow> 0 < read_len n src"
  by (cases src) (simp_all add: read_len_def PIPE_BUF_def)

text \<open>Copying out, then in, until both inputs are used up.\<close>

lemma drain_out:
  "\<not> aborted p \<Longrightarrow> \<not> t1_done p \<Longrightarrow> \<exists>es. set es \<subseteq> {CopyOut 0} \<and>
     pipe_run p es = p\<lparr>local_in := [], to_quic := to_quic p @ local_in p\<rparr>"
proof (induction "length (local_in p)" arbitrary: p rule: less_induct)
  case less
  show ?case
  proof (cases "local_in p = []")
    case True
    then show ?thesis by (intro exI[of _ "[]"]) simp
  next
    case False
    let ?k = "read_len 0 (local_in p)"
    let ?p = "pipe_tcp_quic p (CopyOut 0)"
    have p: "?p = p\<lparr>local_in := drop ?k (local_in p), to_quic := to_quic p @ take ?k (local_in p)\<rparr>"
      using less False by (simp add: Let_def)
    have "length (local_in ?p) < length (local_in p)" using read_len_pos[OF False] False
      by (simp add: p del: pipe_tcp_quic.simps)
    from less(1)[OF this] less(2,3) obtain es where "set es \<subseteq> {CopyOut 0}"
      "pipe_run ?p es = ?p\<lparr>local_in := [], to_quic := to_quic ?p @ local_in ?p\<rparr>" by (auto simp: p simp del: pipe_tcp_quic.simps)
    then show ?thesis by (intro exI[of _ "CopyOut 0 # es"]) (simp add: p del: pipe_tcp_quic.simps)
  qed
qed

lemma drain_in:
  "\<not> aborted p \<Longrightarrow> \<not> t2_done p \<Longrightarrow> \<exists>es. set es \<subseteq> {CopyIn 0} \<and>
     pipe_run p es = p\<lparr>quic_in := [], to_local := to_local p @ quic_in p\<rparr>"
proof (induction "length (quic_in p)" arbitrary: p rule: less_induct)
  case less
  show ?case
  proof (cases "quic_in p = []")
    case True
    then show ?thesis by (intro exI[of _ "[]"]) simp
  next
    case False
    let ?k = "read_len 0 (quic_in p)"
    let ?p = "pipe_tcp_quic p (CopyIn 0)"
    have p: "?p = p\<lparr>quic_in := drop ?k (quic_in p), to_local := to_local p @ take ?k (quic_in p)\<rparr>"
      using less False by (simp add: Let_def)
    have "length (quic_in ?p) < length (quic_in p)" using read_len_pos[OF False] False
      by (simp add: p del: pipe_tcp_quic.simps)
    from less(1)[OF this] less(2,3) obtain es where "set es \<subseteq> {CopyIn 0}"
      "pipe_run ?p es = ?p\<lparr>quic_in := [], to_local := to_local ?p @ quic_in ?p\<rparr>" by (auto simp: p simp del: pipe_tcp_quic.simps)
    then show ?thesis by (intro exI[of _ "CopyIn 0 # es"]) (simp add: p del: pipe_tcp_quic.simps)
  qed
qed

section \<open>Properties\<close>

text \<open>C20 (safety): whatever a server sends, the client connects only where the user allowed it: to a
  local X11 display only when X11 forwarding is enabled, and to a TCP or UDP target only when it is the
  target, with the same protocol, of one of the user's \<open>-R\<close> specs.\<close>

theorem reverse_streams_authorized:
  assumes "accept_reverse_stream decode x11 specs display r = (act, r')"
  shows "case act of
      ConnectX11 _ \<Rightarrow> x11
    | ConnectTcp addr \<Rightarrow> (\<exists>spec \<in> set specs. proto spec = Tcp
        \<and> addr = remote_host spec @ '':'' @ show_u16 (remote_port spec))
    | RelayUdp addr \<Rightarrow> (\<exists>spec \<in> set specs. proto spec = Udp
        \<and> addr = remote_host spec @ '':'' @ show_u16 (remote_port spec))
    | _ \<Rightarrow> True"
proof (cases "act = FinishStream \<or> act = DropStream")
  case True
  then show ?thesis by auto
next
  case False
  then obtain so where so: "is_authorized_reverse_stream so x11 specs"
    "act = (if sto_stream_type so = stream_type_i32 X11 then (case display of None \<Rightarrow> FinishStream | Some d \<Rightarrow> ConnectX11 d)
            else (case forward_proto_try_from (sto_forward_proto so) of
                    Some Udp \<Rightarrow> RelayUdp (target_addr so) | _ \<Rightarrow> ConnectTcp (target_addr so)))"
    using assms
    by (auto simp: accept_reverse_stream_def split: prod.splits sum.splits option.splits Payload.splits
        ForwardProto.splits if_splits)
  from authorizedD[OF so(1)] show ?thesis
  proof
    assume "sto_stream_type so = stream_type_i32 X11 \<and> x11"
    with so(2) False show ?thesis by (auto split: option.splits)
  next
    assume "\<exists>spec \<in> set specs. forward_proto_try_from (sto_forward_proto so) = Some (proto spec)
       \<and> target_addr so = remote_host spec @ '':'' @ show_u16 (remote_port spec)"
    then obtain spec where spec: "spec \<in> set specs"
      "forward_proto_try_from (sto_forward_proto so) = Some (proto spec)"
      "target_addr so = remote_host spec @ '':'' @ show_u16 (remote_port spec)" by blast
    show ?thesis
    proof (cases "sto_stream_type so = stream_type_i32 X11")
      case True
      then have "x11" using so(1) by (simp add: is_authorized_reverse_stream_def)
      then show ?thesis using so(2) True False by (auto split: option.splits)
    next
      case tcp: False
      then show ?thesis using so(2) spec by (cases "proto spec") auto
    qed
  qed
qed

definition sample_spec :: ForwardSpec where
  "sample_spec = \<lparr>bind_address = None, local_port = 9090, remote_host = ''db'', remote_port = 80, proto = Tcp\<rparr>"

definition sample_encode :: "Envelope \<Rightarrow> bytes" where
  "sample_encode env = [26, 1]"

definition sample_decode :: "bytes \<Rightarrow> Envelope option" where
  "sample_decode bs =
     (if bs = [26, 1] then Some (envelope_of (PStreamOpen (stream_open_of sample_spec Tcp))) else None)"

lemma sample_accept:
  "accept_reverse_stream sample_decode False [sample_spec] None
     \<lparr>incoming = TAG_FORWARD # msg_bytes sample_encode (envelope_of (PStreamOpen (stream_open_of sample_spec Tcp))) @ rest,
      ending = Finished\<rparr>
   = (ConnectTcp (''db:'' @ show_u16 80), \<lparr>incoming = rest, ending = Finished\<rparr>)"
proof -
  have "read_msg sample_decode
      \<lparr>incoming = msg_bytes sample_encode (envelope_of (PStreamOpen (stream_open_of sample_spec Tcp))) @ rest, ending = Finished\<rparr>
      = (Inr (Some (envelope_of (PStreamOpen (stream_open_of sample_spec Tcp)))), \<lparr>incoming = rest, ending = Finished\<rparr>)"
    by (rule read_msg_of_msg) (simp_all add: sample_encode_def sample_decode_def MAX_CONTROL_MSG_def)
  moreover have "is_authorized_reverse_stream (stream_open_of sample_spec Tcp) False [sample_spec]"
    using authorized_of_spec[of sample_spec "[sample_spec]"] by (simp add: sample_spec_def)
  moreover have "sto_stream_type (stream_open_of sample_spec Tcp) = 1"
    "sto_forward_proto (stream_open_of sample_spec Tcp) = forward_proto_i32 Tcp"
    by (simp_all add: stream_open_of_def)
  moreover have "target_addr (stream_open_of sample_spec Tcp) = ''db:'' @ show_u16 80"
    unfolding target_addr_of by (simp add: sample_spec_def)
  ultimately show ?thesis
    by (simp add: accept_reverse_stream_def read_tag_Cons del: target_addr_of forward_proto_i32.simps)
qed

theorem reverse_streams_authorized_witness:
  "accept_reverse_stream sample_decode False [sample_spec] None
     \<lparr>incoming = TAG_FORWARD # msg_bytes sample_encode (envelope_of (PStreamOpen (stream_open_of sample_spec Tcp))) @ [7],
      ending = Finished\<rparr>
     = (ConnectTcp (''db:'' @ show_u16 80), \<lparr>incoming = [7], ending = Finished\<rparr>)
   \<and> (\<exists>spec \<in> set [sample_spec]. proto spec = Tcp
        \<and> ''db:'' @ show_u16 80 = remote_host spec @ '':'' @ show_u16 (remote_port spec))"
  using reverse_streams_authorized[OF sample_accept[of "[7]"]] sample_accept[of "[7]"] by simp

text \<open>C38 (round trip): the header that opens a forward stream for a spec reaches the other side as
  that spec's target: the server serves an \<open>-L\<close> stream over the spec's protocol to its host and port,
  and the client accepts an \<open>-R\<close> stream of its own spec and connects it there; the bytes after the
  header are left for the pipe.\<close>

theorem forward_header_round_trip:
  assumes "length (encode (envelope_of (PStreamOpen (stream_open_of spec (proto spec))))) \<le> MAX_CONTROL_MSG"
    and "decode (encode (envelope_of (PStreamOpen (stream_open_of spec (proto spec))))) =
           Some (envelope_of (PStreamOpen (stream_open_of spec (proto spec))))"
    and "spec \<in> set specs"
    and "addr = remote_host spec @ '':'' @ show_u16 (remote_port spec)"
  shows "let sent = outgoing (snd (write_stream_header encode (stream_open_of spec (proto spec))
                 \<lparr>outgoing = [], budget = None\<rparr>));
             r = \<lparr>incoming = sent @ rest, ending = e\<rparr>;
             r' = \<lparr>incoming = rest, ending = e\<rparr>
    in dispatch_stream decode pending r =
         ((case proto spec of Tcp \<Rightarrow> ServeTcp (stream_open_of spec Tcp) | Udp \<Rightarrow> ServeUdp (stream_open_of spec Udp)), r')
       \<and> target_addr (stream_open_of spec (proto spec)) = addr
       \<and> accept_reverse_stream decode x11 specs display r =
         ((case proto spec of Tcp \<Rightarrow> ConnectTcp addr | Udp \<Rightarrow> RelayUdp addr), r')"
proof -
  let ?so = "stream_open_of spec (proto spec)"
  have w: "outgoing (snd (write_stream_header encode ?so \<lparr>outgoing = [], budget = None\<rparr>)) =
      TAG_FORWARD # msg_bytes encode (envelope_of (PStreamOpen ?so))"
    using write_stream_header_unlimited[where encode = encode, OF assms(1)] by simp
  note rd = read_msg_of_msg[where encode = encode and decode = decode, OF assms(1,2), of rest e]
  have au: "is_authorized_reverse_stream ?so x11 specs" using assms(3) by (rule authorized_of_spec)
  have ne: "sto_stream_type ?so \<noteq> stream_type_i32 X11" by (simp add: stream_open_of_def)
  have pr: "forward_proto_try_from (sto_forward_proto ?so) = Some (proto spec)"
    by (simp add: stream_open_of_def)
  show ?thesis
    unfolding Let_def w append_Cons
    using assms(4) au ne pr rd
    by (cases "proto spec")
      (simp_all add: dispatch_stream_def accept_reverse_stream_def read_tag_Cons TAG_FORWARD_def TAG_PTY_def)
qed

theorem forward_header_round_trip_witness:
  "dispatch_stream sample_decode False
     \<lparr>incoming = outgoing (snd (write_stream_header sample_encode (stream_open_of sample_spec (proto sample_spec))
        \<lparr>outgoing = [], budget = None\<rparr>)) @ [7], ending = Lost\<rparr>
   = (ServeTcp (stream_open_of sample_spec Tcp), \<lparr>incoming = [7], ending = Lost\<rparr>)"
proof -
  have p: "proto sample_spec = Tcp" by (simp add: sample_spec_def)
  show ?thesis
    using forward_header_round_trip[of sample_encode sample_spec sample_decode "[sample_spec]"
        "remote_host sample_spec @ '':'' @ show_u16 (remote_port sample_spec)" "[7]" Lost False]
    by (simp add: Let_def p sample_encode_def sample_decode_def MAX_CONTROL_MSG_def)
qed

text \<open>(safety): a pipe loses, reorders and invents nothing in either direction, under any
  interleaving and with failing writes: what was handed on followed by what is still unread is what
  the source sent; and some interleaving hands on everything in both directions before the pipe is
  torn down.\<close>

theorem pipe_conserves_bytes:
  "to_quic (pipe_run (new_pipe a b) es) @ local_in (pipe_run (new_pipe a b) es) = a
   \<and> to_local (pipe_run (new_pipe a b) es) @ quic_in (pipe_run (new_pipe a b) es) = b
   \<and> (\<exists>es'. to_quic (pipe_run (new_pipe a b) es') = a \<and> to_local (pipe_run (new_pipe a b) es') = b
        \<and> aborted (pipe_run (new_pipe a b) es'))"
proof -
  let ?p = "new_pipe a b"
  obtain es1 where 1: "pipe_run ?p es1 = ?p\<lparr>local_in := [], to_quic := to_quic ?p @ local_in ?p\<rparr>"
    using drain_out[of ?p] by (auto simp: new_pipe_def)
  let ?q = "?p\<lparr>local_in := [], to_quic := to_quic ?p @ local_in ?p\<rparr>"
  obtain es2 where 2: "pipe_run ?q es2 = ?q\<lparr>quic_in := [], to_local := to_local ?q @ quic_in ?q\<rparr>"
    using drain_in[of ?q] by (auto simp: new_pipe_def)
  let ?es = "es1 @ es2 @ [CopyOut 0, Select]"
  have "to_quic (pipe_run ?p ?es) = a \<and> to_local (pipe_run ?p ?es) = b \<and> aborted (pipe_run ?p ?es)"
    by (simp add: pipe_run_append 1 2) (simp add: new_pipe_def)
  then show ?thesis using pipe_run_conserves[of ?p es] by (auto simp: new_pipe_def)
qed

text \<open>The first task to end takes the other with it: a peer that closes its sending half is never
  given the answer that is still to come.\<close>

lemma half_close_truncates:
  "to_local (pipe_run (new_pipe [] b) (CopyOut n # Select # es)) = []"
  using pipe_aborted_frozen[of "pipe_run (new_pipe [] b) [CopyOut n, Select]" es]
  by (simp add: new_pipe_def)

end
