(* ===== verification/Udp_Forward.thy ===== *)
theory Udp_Forward
  imports Tcp_Forward "HOL-Library.Multiset"
begin

text \<open>
  UDP forwarding: the reusable frame encoder and the peer-address check of \<open>src/forward.rs\<close>, the
  relay that gives every peer its own socket (\<open>serve_udp_forward\<close> in \<open>src/bin/etrs.rs\<close> and the UDP
  branch of the client's reverse acceptor in \<open>src/bin/etr.rs\<close>), and the server's reverse UDP socket.

  Time is in milliseconds.  A \<open>HashMap\<close> of senders is the list of its entries in iteration order;
  that order is unspecified, so the reachability relation below may permute it at any moment.
  The text of an IP address, its parser and prost's encoders are parameters.
\<close>

section \<open>Frame encoder\<close>

record UdpFrameEncoder =
  enc_dgram :: UdpDatagram
  cached_ip :: "IpAddr option"
  enc_out :: bytes

definition new_encoder :: UdpFrameEncoder where
  "new_encoder =
     \<lparr>enc_dgram = \<lparr>dg_peer_addr = [], dg_peer_port = 0, dg_data = []\<rparr>, cached_ip = None, enc_out = []\<rparr>"

text \<open>\<open>encoded_len\<close> and \<open>encode_field\<close> are \<open>prost::encoding::message::{encoded_len, encode}\<close>.  The
  \<open>debug_assert_eq!\<close> is compiled out of release builds.\<close>

definition frame ::
    "(IpAddr \<Rightarrow> string) \<Rightarrow> (nat \<Rightarrow> UdpDatagram \<Rightarrow> nat) \<Rightarrow> (nat \<Rightarrow> UdpDatagram \<Rightarrow> bytes)
     \<Rightarrow> SocketAddr \<Rightarrow> bytes \<Rightarrow> UdpFrameEncoder \<Rightarrow> bytes \<times> UdpFrameEncoder" where
  "frame ip_text encoded_len encode_field peer data enc =
     (let ip = sa_ip peer;
          enc1 = (if cached_ip enc \<noteq> Some ip
                  then enc\<lparr>enc_dgram := (enc_dgram enc)\<lparr>dg_peer_addr := ip_text ip\<rparr>, cached_ip := Some ip\<rparr>
                  else enc);
          d = (enc_dgram enc1)\<lparr>dg_peer_port := ucast (sa_port peer), dg_data := data\<rparr>;
          body_len = encoded_len 12 d;
          out = be_bytes 4 (unat (word_of_nat body_len :: u32)) @ encode_field 12 d
      in (out, enc1\<lparr>enc_dgram := d, enc_out := out\<rparr>))"

text \<open>The loop \<open>dgram_in\<close> of \<open>run_udp_forward_client_socket\<close>: every datagram received on the local
  socket is framed by the one encoder and written, until a write fails.\<close>

fun dgram_in ::
    "(IpAddr \<Rightarrow> string) \<Rightarrow> (nat \<Rightarrow> UdpDatagram \<Rightarrow> nat) \<Rightarrow> (nat \<Rightarrow> UdpDatagram \<Rightarrow> bytes)
     \<Rightarrow> (SocketAddr \<times> bytes) list \<Rightarrow> UdpFrameEncoder \<Rightarrow> send_stream \<Rightarrow> unit io_result \<times> send_stream" where
  "dgram_in ip_text encoded_len encode_field [] enc s = (Inr (), s)"
| "dgram_in ip_text encoded_len encode_field ((src, data) # ds) enc s =
     (case frame ip_text encoded_len encode_field src data enc of
        (framed, enc1) \<Rightarrow>
          (case write_framed framed s of
             (Inl e, s1) \<Rightarrow> (Inl e, s1)
           | (Inr _, s1) \<Rightarrow> dgram_in ip_text encoded_len encode_field ds enc1 s1))"

definition datagram_peer_addr :: "(string \<Rightarrow> IpAddr option) \<Rightarrow> string \<Rightarrow> u32 \<Rightarrow> SocketAddr option" where
  "datagram_peer_addr parse_ip peer_addr peer_port =
     (if 65535 < unat peer_port then None
      else (let port = ucast peer_port :: u16
            in if port = 0 then None
               else (case parse_ip peer_addr of None \<Rightarrow> None | Some ip \<Rightarrow> Some (SocketAddr ip port))))"

text \<open>What \<open>dgram_out\<close> (client) and the reader task of a reverse stream (server) do with a message.\<close>

definition dgram_out :: "(string \<Rightarrow> IpAddr option) \<Rightarrow> Envelope \<Rightarrow> (SocketAddr \<times> bytes) option" where
  "dgram_out parse_ip env =
     (case payload env of
        Some (PUdpDatagram dg) \<Rightarrow>
          map_option (\<lambda>dest. (dest, dg_data dg)) (datagram_peer_addr parse_ip (dg_peer_addr dg) (dg_peer_port dg))
      | _ \<Rightarrow> None)"

text \<open>The whole of \<open>run_udp_forward_client_socket\<close> on what its socket and its stream receive: what it
  writes to the stream and what it sends from the local socket; nothing when the stream cannot be
  opened or its header not be written.\<close>

definition run_udp_forward_client_socket ::
    "(Envelope \<Rightarrow> bytes) \<Rightarrow> (IpAddr \<Rightarrow> string) \<Rightarrow> (nat \<Rightarrow> UdpDatagram \<Rightarrow> nat) \<Rightarrow> (nat \<Rightarrow> UdpDatagram \<Rightarrow> bytes)
     \<Rightarrow> (string \<Rightarrow> IpAddr option) \<Rightarrow> ForwardSpec \<Rightarrow> send_stream option \<Rightarrow> (SocketAddr \<times> bytes) list
     \<Rightarrow> Envelope list \<Rightarrow> ((unit io_result \<times> send_stream) \<times> (SocketAddr \<times> bytes) list) option" where
  "run_udp_forward_client_socket encode ip_text encoded_len encode_field parse_ip spec open_bi received msgs =
     (case open_bi of
        None \<Rightarrow> None
      | Some quic_send \<Rightarrow>
          (case write_stream_header encode (stream_open_of spec Udp) quic_send of
             (Inl _, _) \<Rightarrow> None
           | (Inr _, s) \<Rightarrow>
               Some (dgram_in ip_text encoded_len encode_field received new_encoder s,
                     List.map_filter (dgram_out parse_ip) msgs)))"

section \<open>The relay\<close>

definition MAX_UDP_SENDERS :: nat where "MAX_UDP_SENDERS = 256"
definition SENDER_IDLE :: nat where "SENDER_IDLE = 30000"

type_synonym peer_key = "string \<times> u32"

text \<open>A sender: its socket, the time of its last datagram, and its reply task: the time its current
  \<open>timeout(SENDER_IDLE, recv_from)\<close> expires, or \<open>None\<close> when the task has ended.\<close>

record sender =
  s_sock :: nat
  s_last :: nat
  s_reader :: "nat option"

record relay =
  senders :: "(peer_key \<times> sender) list"
  next_sock :: nat

definition new_relay :: relay where "new_relay = \<lparr>senders = [], next_sock = 0\<rparr>"

definition retain_active :: "nat \<Rightarrow> (peer_key \<times> sender) list \<Rightarrow> (peer_key \<times> sender) list" where
  "retain_active now m = filter (\<lambda>e. now - s_last (snd e) < SENDER_IDLE) m"

text \<open>\<open>min_by_key\<close>: the first entry with the least time.\<close>

fun oldest :: "(peer_key \<times> sender) list \<Rightarrow> (peer_key \<times> sender) option" where
  "oldest [] = None"
| "oldest (e # es) =
     (case oldest es of
        None \<Rightarrow> Some e
      | Some f \<Rightarrow> if s_last (snd e) \<le> s_last (snd f) then Some e else Some f)"

definition evict_oldest :: "(peer_key \<times> sender) list \<Rightarrow> (peer_key \<times> sender) list" where
  "evict_oldest m =
     (if MAX_UDP_SENDERS \<le> length m
      then (case oldest m of None \<Rightarrow> m | Some old \<Rightarrow> filter (\<lambda>e. fst e \<noteq> fst old) m)
      else m)"

text \<open>One datagram of the stream: the socket and data of the \<open>send_to\<close>, if there is one.  \<open>bind_ok\<close>
  is the result of \<open>UdpSocket::bind\<close>, tried before anything is evicted.\<close>

definition relay_datagram :: "nat \<Rightarrow> bool \<Rightarrow> UdpDatagram \<Rightarrow> relay \<Rightarrow> (nat \<times> bytes) option \<times> relay" where
  "relay_datagram now bind_ok dg r =
     (if dg_peer_addr dg = [] then (None, r)
      else (let key = (dg_peer_addr dg, dg_peer_port dg);
                m = retain_active now (senders r)
            in case map_of m key of
                 Some snd_ \<Rightarrow>
                   (Some (s_sock snd_, dg_data dg),
                    r\<lparr>senders := map (\<lambda>(k, v). (k, if k = key then v\<lparr>s_last := now\<rparr> else v)) m\<rparr>)
               | None \<Rightarrow>
                   (if \<not> bind_ok then (None, r\<lparr>senders := m\<rparr>)
                    else (let sock = next_sock r;
                              new = \<lparr>s_sock = sock, s_last = now, s_reader = Some (now + SENDER_IDLE)\<rparr>
                          in (Some (sock, dg_data dg),
                              \<lparr>senders = (key, new) # evict_oldest m, next_sock = sock + 1\<rparr>)))))"

text \<open>A datagram from the target arrives on a socket: the reply task of the sender that owns it turns
  it into an envelope for that sender, unless the task has ended or its timeout has passed.  A socket
  whose entry was removed is closed and its task aborted.\<close>

definition relay_reply :: "nat \<Rightarrow> nat \<Rightarrow> bytes \<Rightarrow> relay \<Rightarrow> Envelope option \<times> relay" where
  "relay_reply now sock data r =
     (case find (\<lambda>e. s_sock (snd e) = sock) (senders r) of
        None \<Rightarrow> (None, r)
      | Some (key, v) \<Rightarrow>
          (let alive = (case s_reader v of None \<Rightarrow> False | Some t \<Rightarrow> now < t);
               v' = v\<lparr>s_reader := (if alive then Some (now + SENDER_IDLE) else None)\<rparr>
           in (if alive
               then Some (envelope_of (PUdpDatagram
                      \<lparr>dg_peer_addr = fst key, dg_peer_port = snd key, dg_data = data\<rparr>))
               else None,
               r\<lparr>senders := map (\<lambda>(k, w). (k, if k = key then v' else w)) (senders r)\<rparr>)))"

text \<open>The two places that run a relay, on the messages of their stream and the datagrams that come back
  from the target, with what they send from each socket and write to the stream: the target is resolved once, the sockets are bound to the
  wildcard of its family, and the stream is finished when the target does not resolve.  Each message
  of the stream that is a datagram goes through \<open>relay_datagram\<close>; others are skipped.\<close>

definition the_list :: "'a option \<Rightarrow> 'a list" where
  "the_list x = (case x of None \<Rightarrow> [] | Some y \<Rightarrow> [y])"

definition relay_message :: "nat \<Rightarrow> bool \<Rightarrow> Envelope \<Rightarrow> relay \<Rightarrow> (nat \<times> bytes) option \<times> relay" where
  "relay_message now bind_ok env r =
     (case payload env of Some (PUdpDatagram dg) \<Rightarrow> relay_datagram now bind_ok dg r | _ \<Rightarrow> (None, r))"

datatype relay_event = Message nat bool Envelope | TargetReply nat nat bytes

fun relay_run :: "relay_event list \<Rightarrow> relay \<Rightarrow> (nat \<times> bytes) list \<times> Envelope list" where
  "relay_run [] r = ([], [])"
| "relay_run (Message now bind_ok env # evs) r =
     (case relay_message now bind_ok env r of
        (sent, r1) \<Rightarrow> (case relay_run evs r1 of (out, back) \<Rightarrow> (the_list sent @ out, back)))"
| "relay_run (TargetReply now sock data # evs) r =
     (case relay_reply now sock data r of
        (reply, r1) \<Rightarrow> (case relay_run evs r1 of (out, back) \<Rightarrow> (out, the_list reply @ back)))"

definition serve_udp_forward ::
    "(string \<Rightarrow> SocketAddr list option) \<Rightarrow> kernel_routes \<Rightarrow> AddrPref \<Rightarrow> StreamOpen \<Rightarrow> relay_event list
     \<Rightarrow> (SocketAddr \<times> string \<times> (nat \<times> bytes) list \<times> Envelope list) option" where
  "serve_udp_forward lookup_host k addr_pref so evs =
     (case resolve_udp_target lookup_host k (target_addr so) addr_pref of
        None \<Rightarrow> None
      | Some remote_addr \<Rightarrow>
          Some (remote_addr, if is_ipv6 remote_addr then ''[::]:0'' else ''0.0.0.0:0'', relay_run evs new_relay))"

definition relay_reverse_udp ::
    "(string \<Rightarrow> SocketAddr list option) \<Rightarrow> kernel_routes \<Rightarrow> AddrPref \<Rightarrow> StreamOpen \<Rightarrow> relay_event list
     \<Rightarrow> (SocketAddr \<times> string \<times> (nat \<times> bytes) list \<times> Envelope list) option" where
  "relay_reverse_udp lookup_host k addr_pref so evs =
     (case resolve_udp_target lookup_host k (target_addr so) addr_pref of
        None \<Rightarrow> None
      | Some addr \<Rightarrow>
          Some (addr, if is_ipv6 addr then ''[::]:0'' else ''0.0.0.0:0'', relay_run evs new_relay))"

text \<open>Every state of a relay, with the history of the datagrams it sent (peer and socket) and of the
  replies it turned into envelopes (the peer they are addressed to and the socket they came from).\<close>

definition addressee :: "Envelope option \<Rightarrow> peer_key list" where
  "addressee res =
     (case Option.bind res payload of
        Some (PUdpDatagram dg) \<Rightarrow> [(dg_peer_addr dg, dg_peer_port dg)]
      | _ \<Rightarrow> [])"

inductive relay_reach :: "relay \<Rightarrow> (peer_key \<times> nat) list \<Rightarrow> (peer_key \<times> nat) list \<Rightarrow> bool" where
  start: "relay_reach new_relay [] []"
| datagram: "relay_reach r out ins \<Longrightarrow> relay_datagram now ok dg r = (res, r') \<Longrightarrow>
    relay_reach r' (case res of None \<Rightarrow> out
      | Some (sock, _) \<Rightarrow> ((dg_peer_addr dg, dg_peer_port dg), sock) # out) ins"
| reply: "relay_reach r out ins \<Longrightarrow> relay_reply now sock data r = (res, r') \<Longrightarrow>
    relay_reach r' out (map (\<lambda>key. (key, sock)) (addressee res) @ ins)"
| rehash: "relay_reach r out ins \<Longrightarrow> mset es = mset (senders r) \<Longrightarrow>
    relay_reach (r\<lparr>senders := es\<rparr>) out ins"

section \<open>The reverse UDP socket of the server\<close>

text \<open>\<open>current_quic_tx\<close> and \<open>last_conn_id\<close>; a connection is its \<open>stable_id\<close>.\<close>

record reverse_udp =
  current_tx :: "send_stream option"
  last_conn :: "nat option"

definition new_reverse_udp :: reverse_udp where
  "new_reverse_udp = \<lparr>current_tx = None, last_conn = None\<rparr>"

definition datagram_env :: "(IpAddr \<Rightarrow> string) \<Rightarrow> SocketAddr \<Rightarrow> bytes \<Rightarrow> Envelope" where
  "datagram_env ip_text src data =
     envelope_of (PUdpDatagram
       \<lparr>dg_peer_addr = ip_text (sa_ip src), dg_peer_port = ucast (sa_port src), dg_data = data\<rparr>)"

definition reverse_send ::
    "(Envelope \<Rightarrow> bytes) \<Rightarrow> Envelope \<Rightarrow> reverse_udp \<Rightarrow> reverse_udp" where
  "reverse_send encode env st =
     (case current_tx st of
        None \<Rightarrow> st
      | Some tx \<Rightarrow>
          (case write_msg encode env tx of
             (Inl _, _) \<Rightarrow> st\<lparr>current_tx := None\<rparr>
           | (Inr _, tx1) \<Rightarrow> st\<lparr>current_tx := Some tx1\<rparr>))"

text \<open>One datagram from \<open>src\<close>.  \<open>active_conn\<close> is the active connection with the result of \<open>open_bi\<close>
  on it.\<close>

definition run_udp_reverse_listener_socket ::
    "(Envelope \<Rightarrow> bytes) \<Rightarrow> (IpAddr \<Rightarrow> string) \<Rightarrow> ForwardSpec \<Rightarrow> (nat \<times> send_stream option) option
     \<Rightarrow> SocketAddr \<times> bytes \<Rightarrow> reverse_udp \<Rightarrow> reverse_udp" where
  "run_udp_reverse_listener_socket encode ip_text spec active_conn d st =
     (case active_conn of
        None \<Rightarrow> st
      | Some (conn, open_bi) \<Rightarrow>
          (let env = datagram_env ip_text (fst d) (snd d);
               need_new_stream = (current_tx st = None \<or> last_conn st \<noteq> Some conn)
           in if need_new_stream
              then (case open_bi of
                      None \<Rightarrow> st
                    | Some tx \<Rightarrow>
                        (case write_stream_header encode (stream_open_of spec Udp) tx of
                           (Inr _, tx1) \<Rightarrow>
                             reverse_send encode env (st\<lparr>current_tx := Some tx1, last_conn := Some conn\<rparr>)
                         | (Inl _, _) \<Rightarrow> st))
              else reverse_send encode env st))"

fun reverse_udp_run ::
    "(Envelope \<Rightarrow> bytes) \<Rightarrow> (IpAddr \<Rightarrow> string) \<Rightarrow> ForwardSpec
     \<Rightarrow> ((nat \<times> send_stream option) option \<times> SocketAddr \<times> bytes) list \<Rightarrow> reverse_udp \<Rightarrow> reverse_udp" where
  "reverse_udp_run encode ip_text spec [] st = st"
| "reverse_udp_run encode ip_text spec ((conn, d) # evs) st =
     reverse_udp_run encode ip_text spec evs (run_udp_reverse_listener_socket encode ip_text spec conn d st)"

text \<open>\<open>run_udp_forward_client_quic\<close> and \<open>run_udp_reverse_listener\<close>: the addresses of the sockets that
  are served; none can be bound: the forward is given up.\<close>

definition run_udp_forward_client_quic :: "(string \<Rightarrow> bool) \<Rightarrow> ForwardSpec \<Rightarrow> bool \<Rightarrow> string list option" where
  "run_udp_forward_client_quic can_listen spec gateway =
     (let sockets = filter can_listen
            (map (\<lambda>addr. addr @ '':'' @ show_u16 (local_port spec)) (get_bind_addresses spec gateway))
      in if sockets = [] then None else Some sockets)"

definition run_udp_reverse_listener :: "(string \<Rightarrow> bool) \<Rightarrow> ForwardSpec \<Rightarrow> bool \<Rightarrow> string list option" where
  "run_udp_reverse_listener can_listen spec gateway =
     (let sockets = filter can_listen
            (map (\<lambda>addr. addr @ '':'' @ show_u16 (local_port spec)) (get_bind_addresses spec gateway))
      in if sockets = [] then None else Some sockets)"


section \<open>Lemmas\<close>

text \<open>The encoder: \<open>dg_peer_addr\<close> always holds the text of the cached address.\<close>

definition enc_ok :: "(IpAddr \<Rightarrow> string) \<Rightarrow> UdpFrameEncoder \<Rightarrow> bool" where
  "enc_ok ip_text enc \<longleftrightarrow> (\<forall>ip. cached_ip enc = Some ip \<longrightarrow> dg_peer_addr (enc_dgram enc) = ip_text ip)"

lemma enc_ok_new: "enc_ok ip_text new_encoder"
  by (simp add: enc_ok_def new_encoder_def)

lemma frame_spec:
  assumes ok: "enc_ok ip_text enc"
    and len: "\<And>d. encoded_len 12 d = length (encode_field 12 d)"
    and field: "\<And>d. encode (envelope_of (PUdpDatagram d)) = encode_field 12 d"
    and f: "frame ip_text encoded_len encode_field peer data enc = (out, enc')"
  shows "enc_ok ip_text enc' \<and> write_framed out s = write_msg encode (datagram_env ip_text peer data) s"
proof -
  let ?d = "\<lparr>dg_peer_addr = ip_text (sa_ip peer), dg_peer_port = ucast (sa_port peer), dg_data = data\<rparr>"
  have "enc_dgram enc' = ?d \<and> cached_ip enc' = Some (sa_ip peer)"
    and "out = be_bytes 4 (unat (word_of_nat (length (encode_field 12 ?d)) :: u32)) @ encode_field 12 ?d"
    using f ok
    by (cases "enc_dgram enc"; auto simp: frame_def Let_def len enc_ok_def split: if_splits)+
  then show ?thesis
    by (simp add: enc_ok_def write_msg_def datagram_env_def field)
qed

text \<open>The relay.\<close>

lemma oldest_None_iff [simp]: "oldest m = None \<longleftrightarrow> m = []"
  by (cases m) (auto split: option.splits if_splits)

lemma oldest_least:
  "oldest m = Some e \<Longrightarrow> e \<in> set m \<and> (\<forall>f \<in> set m. s_last (snd e) \<le> s_last (snd f))"
proof (induction m arbitrary: e)
  case (Cons a m)
  then show ?case
    by (cases "oldest m") (fastforce split: if_splits)+
qed simp

lemma retain_active_subset: "set (retain_active now m) \<subseteq> set m"
  by (auto simp: retain_active_def)

lemma distinct_keys_filter: "distinct (map fst m) \<Longrightarrow> distinct (map fst (filter P m))"
  by (induction m) auto

lemma length_retain_active: "length (retain_active now m) \<le> length m"
  by (simp add: retain_active_def)

lemma evict_oldest_subset: "set (evict_oldest m) \<subseteq> set m"
  by (auto simp: evict_oldest_def split: option.split)

lemma distinct_evict_oldest: "distinct (map fst m) \<Longrightarrow> distinct (map fst (evict_oldest m))"
  by (auto simp: evict_oldest_def distinct_keys_filter split: option.split)

lemma length_evict_oldest: "length m \<le> MAX_UDP_SENDERS \<Longrightarrow> length (evict_oldest m) < MAX_UDP_SENDERS"
proof (cases "MAX_UDP_SENDERS \<le> length m")
  case True
  then obtain old where old: "oldest m = Some old"
    by (cases "oldest m") (auto simp: MAX_UDP_SENDERS_def)
  have "length (filter (\<lambda>e. fst e \<noteq> fst old) m) < length m"
    using oldest_least[OF old] by (intro length_filter_less[of old]) auto
  then show "length m \<le> MAX_UDP_SENDERS \<Longrightarrow> ?thesis"
    using True old by (simp add: evict_oldest_def)
qed (simp add: evict_oldest_def)

definition one_owner :: "(peer_key \<times> nat) list \<Rightarrow> bool" where
  "one_owner out \<longleftrightarrow> (\<forall>k k' sock. (k, sock) \<in> set out \<longrightarrow> (k', sock) \<in> set out \<longrightarrow> k = k')"

lemma one_owner_Nil [simp]: "one_owner []"
  by (simp add: one_owner_def)

lemma one_owner_old: "one_owner out \<Longrightarrow> p \<in> set out \<Longrightarrow> one_owner (p # out)"
  unfolding one_owner_def by (metis set_ConsD)

lemma one_owner_new: "one_owner out \<Longrightarrow> \<forall>p \<in> set out. snd p < n \<Longrightarrow> one_owner ((k, n) # out)"
  unfolding one_owner_def by (metis less_irrefl prod.inject set_ConsD snd_conv)

lemma keys_update [simp]: "map (fst \<circ> (\<lambda>(k, w). (k, f k w))) m = map fst m"
  by (induction m) auto

definition relay_ok :: "relay \<Rightarrow> (peer_key \<times> nat) list \<Rightarrow> (peer_key \<times> nat) list \<Rightarrow> bool" where
  "relay_ok r out ins \<longleftrightarrow>
     length (senders r) \<le> MAX_UDP_SENDERS \<and> distinct (map fst (senders r))
     \<and> (\<forall>e \<in> set (senders r). (fst e, s_sock (snd e)) \<in> set out)
     \<and> (\<forall>p \<in> set out. snd p < next_sock r)
     \<and> one_owner out
     \<and> set ins \<subseteq> set out"

lemma relay_ok_owner: "relay_ok r out ins \<Longrightarrow> (k, v) \<in> set (senders r) \<Longrightarrow> (k, s_sock v) \<in> set out"
  by (force simp: relay_ok_def)

lemma find_SomeD: "find P xs = Some x \<Longrightarrow> x \<in> set xs \<and> P x"
  by (induction xs) (auto split: if_splits)

lemma relay_datagram_cases:
  assumes "relay_datagram now b dg r = (res, r')"
  obtains (empty) "r' = r" "res = None"
    | (known) v where "map_of (retain_active now (senders r)) (dg_peer_addr dg, dg_peer_port dg) = Some v"
        "res = Some (s_sock v, dg_data dg)"
        "r' = r\<lparr>senders := map (\<lambda>(k, w). (k, if k = (dg_peer_addr dg, dg_peer_port dg)
            then w\<lparr>s_last := now\<rparr> else w)) (retain_active now (senders r))\<rparr>"
    | (unbound) "res = None" "r' = r\<lparr>senders := retain_active now (senders r)\<rparr>"
    | (fresh) "map_of (retain_active now (senders r)) (dg_peer_addr dg, dg_peer_port dg) = None"
        "res = Some (next_sock r, dg_data dg)"
        "r' = \<lparr>senders = ((dg_peer_addr dg, dg_peer_port dg),
            \<lparr>s_sock = next_sock r, s_last = now, s_reader = Some (now + SENDER_IDLE)\<rparr>)
            # evict_oldest (retain_active now (senders r)), next_sock = next_sock r + 1\<rparr>"
proof (cases "dg_peer_addr dg = []")
  case True
  then show thesis using assms empty by (simp add: relay_datagram_def)
next
  case False
  note d = assms[unfolded relay_datagram_def Let_def if_not_P[OF False]]
  show thesis
  proof (cases "map_of (retain_active now (senders r)) (dg_peer_addr dg, dg_peer_port dg)")
    case None
    then show thesis using d unbound fresh by (cases b) simp_all
  next
    case (Some v)
    then show thesis using d known by simp
  qed
qed

lemma relay_datagram_ok:
  assumes ok: "relay_ok r out ins" and d: "relay_datagram now b dg r = (res, r')"
  shows "relay_ok r' (case res of None \<Rightarrow> out
      | Some (sock, _) \<Rightarrow> ((dg_peer_addr dg, dg_peer_port dg), sock) # out) ins"
proof -
  let ?key = "(dg_peer_addr dg, dg_peer_port dg)"
  let ?m = "retain_active now (senders r)"
  note sub = retain_active_subset[of now "senders r"]
  have dm: "distinct (map fst ?m)"
    using ok by (auto simp: relay_ok_def retain_active_def distinct_keys_filter)
  have lm: "length ?m \<le> MAX_UDP_SENDERS"
    using ok length_retain_active[of now "senders r"] by (auto simp: relay_ok_def)
  from d show ?thesis
  proof (cases rule: relay_datagram_cases)
    case (known v)
    have "(?key, v) \<in> set ?m" using known(1) by (rule map_of_SomeD)
    then have "(?key, s_sock v) \<in> set out" using relay_ok_owner[OF ok] sub by blast
    moreover have "\<forall>e \<in> set (senders r'). (fst e, s_sock (snd e)) \<in> set out"
      using relay_ok_owner[OF ok subsetD[OF sub]] by (auto simp: known(3))
    ultimately show ?thesis
      using ok dm lm by (auto simp add: relay_ok_def known(2,3) one_owner_old simp del: split_paired_All)
  next
    case fresh
    have new: "?key \<notin> fst ` set (evict_oldest ?m)"
      using fresh(1) evict_oldest_subset[of ?m] by (auto simp: map_of_eq_None_iff)
    have "set (evict_oldest ?m) \<subseteq> set (senders r)" using evict_oldest_subset sub by blast
    then show ?thesis
      using ok new length_evict_oldest[OF lm] distinct_evict_oldest[OF dm]
      by (auto simp: relay_ok_def fresh(2,3) less_Suc_eq one_owner_new)
  qed (use ok sub dm lm in \<open>auto simp: relay_ok_def\<close>)
qed

lemma relay_reply_ok:
  assumes ok: "relay_ok r out ins" and d: "relay_reply now sock data r = (res, r')"
  shows "relay_ok r' out (map (\<lambda>key. (key, sock)) (addressee res) @ ins)"
proof (cases "find (\<lambda>e. s_sock (snd e) = sock) (senders r)")
  case None
  then show ?thesis using d ok by (auto simp: relay_reply_def addressee_def)
next
  case (Some e)
  obtain key v where e: "e = (key, v)" by (cases e)
  have mem: "(key, v) \<in> set (senders r)" and sk: "s_sock v = sock"
    using find_SomeD[OF Some] by (simp_all add: e)
  have "(key, sock) \<in> set out" using relay_ok_owner[OF ok mem] sk by simp
  moreover obtain v' where v': "s_sock v' = s_sock v"
    and r': "r' = r\<lparr>senders := map (\<lambda>(k, w). (k, if k = key then v' else w)) (senders r)\<rparr>"
    and a: "set (addressee res) \<subseteq> {key}"
    using d Some that[of "v\<lparr>s_reader := Some (now + SENDER_IDLE)\<rparr>"] that[of "v\<lparr>s_reader := None\<rparr>"]
    by (simp add: relay_reply_def e Let_def addressee_def split: if_splits) auto
  moreover have "\<forall>f \<in> set (senders r'). (fst f, s_sock (snd f)) \<in> set out"
    using relay_ok_owner[OF ok] v' sk calculation(1) by (auto simp: r')
  ultimately show ?thesis
    using ok a by (auto simp: relay_ok_def r')
qed

lemma relay_reach_ok: "relay_reach r out ins \<Longrightarrow> relay_ok r out ins"
proof (induction rule: relay_reach.induct)
  case start
  then show ?case by (simp add: relay_ok_def new_relay_def)
next
  case (datagram r out ins now ok dg res r')
  then show ?case by (simp add: relay_datagram_ok)
next
  case (reply r out ins now sock data res r')
  then show ?case by (simp add: relay_reply_ok)
next
  case (rehash r out ins es)
  have "set es = set (senders r)" "length es = length (senders r)"
    using rehash(2) by (auto dest: mset_eq_setD mset_eq_length)
  moreover have "distinct (map fst es) = distinct (map fst (senders r))"
    using rehash(2) by (intro mset_eq_imp_distinct_iff) simp
  ultimately show ?case using rehash(3) by (simp add: relay_ok_def)
qed

text \<open>A reply that comes after the target was silent for half a minute is dropped although its sender
  never was: the reply task has ended, and the entry that would be replaced stays in use.\<close>

lemma late_reply_lost:
  "let dg = \<lparr>dg_peer_addr = ''::1'', dg_peer_port = 5000, dg_data = [1]\<rparr>;
       r1 = snd (relay_datagram 0 True dg new_relay);
       r2 = snd (relay_datagram 20000 True dg r1)
   in fst (relay_reply 35000 0 [2] r2) = None \<and>
      fst (relay_datagram 35000 True dg (snd (relay_reply 35000 0 [2] r2))) = Some (0, [1])"
  by (simp add: relay_datagram_def relay_reply_def new_relay_def retain_active_def SENDER_IDLE_def
      evict_oldest_def MAX_UDP_SENDERS_def Let_def)

text \<open>The bytes of a reverse stream: the tag, the header, then the datagrams.\<close>

definition reverse_bytes ::
    "(Envelope \<Rightarrow> bytes) \<Rightarrow> (IpAddr \<Rightarrow> string) \<Rightarrow> ForwardSpec \<Rightarrow> (SocketAddr \<times> bytes) list \<Rightarrow> bytes" where
  "reverse_bytes encode ip_text spec ds =
     TAG_FORWARD # msg_bytes encode (envelope_of (PStreamOpen (stream_open_of spec Udp)))
       @ concat (map (\<lambda>(src, data). msg_bytes encode (datagram_env ip_text src data)) ds)"

lemma write_msg_bytes:
  assumes "length (encode env) < 2 ^ 32" and "write_msg encode env s = (Inr (), s')"
  shows "outgoing s' = outgoing s @ msg_bytes encode env"
  using assms
  by (auto simp: write_msg_def write_framed_def write_all_def msg_bytes_def Let_def unat_word_of_len
      split: option.splits if_splits)

lemma write_stream_header_bytes:
  assumes "\<And>env. length (encode env) < 2 ^ 32" and "outgoing s = []"
    and "write_stream_header encode so s = (Inr (), s')"
  shows "outgoing s' = TAG_FORWARD # msg_bytes encode (envelope_of (PStreamOpen so))"
proof -
  obtain s1 where s1: "write_all [TAG_FORWARD] s = (Inr (), s1)"
    and w: "write_msg encode (envelope_of (PStreamOpen so)) s1 = (Inr (), s')"
    using assms(3) by (auto simp: write_stream_header_def split: prod.splits sum.splits)
  have "outgoing s1 = [TAG_FORWARD]"
    using s1 assms(2) by (auto simp: write_all_def split: option.splits if_splits)
  then show ?thesis using write_msg_bytes[OF assms(1) w] by simp
qed

definition fresh_streams :: "((nat \<times> send_stream option) option \<times> SocketAddr \<times> bytes) list \<Rightarrow> bool" where
  "fresh_streams evs \<longleftrightarrow> (\<forall>(conn, _) \<in> set evs. \<forall>c s. conn = Some (c, Some s) \<longrightarrow> outgoing s = [])"

text \<open>What holds after some datagrams \<open>seen\<close>: the stream in use carries some of them in order, each
  of them received while the connection of the stream was the active one.\<close>

definition reverse_ok ::
    "(Envelope \<Rightarrow> bytes) \<Rightarrow> (IpAddr \<Rightarrow> string) \<Rightarrow> ForwardSpec
     \<Rightarrow> ((nat \<times> send_stream option) option \<times> SocketAddr \<times> bytes) list \<Rightarrow> reverse_udp \<Rightarrow> bool" where
  "reverse_ok encode ip_text spec seen st \<longleftrightarrow>
     (\<forall>s. current_tx st = Some s \<longrightarrow>
        (\<exists>conn ds. last_conn st = Some conn \<and> outgoing s = reverse_bytes encode ip_text spec ds
           \<and> subseq ds (map snd (filter (\<lambda>e. map_option fst (fst e) = Some conn) seen))))"

lemma reverse_send_ok:
  assumes len: "\<And>env. length (encode env) < 2 ^ 32"
    and s: "current_tx st = Some s" "last_conn st = Some c" "outgoing s = reverse_bytes encode ip_text spec ds"
    and sub: "subseq (ds @ [d]) (map snd (filter (\<lambda>e. map_option fst (fst e) = Some c) seen))"
  shows "reverse_ok encode ip_text spec seen (reverse_send encode (datagram_env ip_text (fst d) (snd d)) st)"
proof (cases "write_msg encode (datagram_env ip_text (fst d) (snd d)) s")
  case (Pair res s')
  show ?thesis
  proof (cases res)
    case (Inr u)
    have "outgoing s' = reverse_bytes encode ip_text spec (ds @ [d])"
      using write_msg_bytes[OF len] Pair s(3) by (simp add: Inr reverse_bytes_def case_prod_unfold)
    then show ?thesis using s sub Pair Inr by (auto simp: reverse_ok_def reverse_send_def)
  qed (use s(1) Pair in \<open>simp add: reverse_ok_def reverse_send_def\<close>)
qed

lemma reverse_step_ok:
  assumes len: "\<And>env. length (encode env) < 2 ^ 32"
    and ok: "reverse_ok encode ip_text spec seen st"
    and fresh: "fresh_streams [(conn, d)]"
  shows "reverse_ok encode ip_text spec (seen @ [(conn, d)])
    (run_udp_reverse_listener_socket encode ip_text spec conn d st)"
proof -
  have mono: "reverse_ok encode ip_text spec (seen @ [(conn, d)]) st"
    using ok unfolding reverse_ok_def by (fastforce intro: subseq_order.trans)
  note step = run_udp_reverse_listener_socket_def
  show ?thesis
  proof (cases conn)
    case None
    then show ?thesis using mono by (simp add: step)
  next
    case (Some p)
    obtain c open_bi where p: "p = (c, open_bi)" by (cases p)
    show ?thesis
    proof (cases "current_tx st = None \<or> last_conn st \<noteq> Some c")
      case new: True
      show ?thesis
      proof (cases "\<exists>s s1. open_bi = Some s \<and>
          write_stream_header encode (stream_open_of spec Udp) s = (Inr (), s1)")
        case True
        then obtain s s1 where o: "open_bi = Some s"
          and w: "write_stream_header encode (stream_open_of spec Udp) s = (Inr (), s1)" by blast
        have "outgoing s1 = reverse_bytes encode ip_text spec []"
          using write_stream_header_bytes[OF len _ w] fresh
          by (simp add: Some p o fresh_streams_def reverse_bytes_def)
        then have "reverse_ok encode ip_text spec (seen @ [(conn, d)])
            (reverse_send encode (datagram_env ip_text (fst d) (snd d))
              (st\<lparr>current_tx := Some s1, last_conn := Some c\<rparr>))"
          by (intro reverse_send_ok[OF len, where ds = "[]"]) (auto simp: Some p)
        then show ?thesis using new by (simp add: step Some p o w Let_def)
      next
        case False
        then show ?thesis
          using mono new by (auto simp: step Some p Let_def split: option.split prod.split sum.split)
      qed
    next
      case False
      then obtain s where s: "current_tx st = Some s" "last_conn st = Some c" by auto
      with ok obtain ds where ds: "outgoing s = reverse_bytes encode ip_text spec ds"
        "subseq ds (map snd (filter (\<lambda>e. map_option fst (fst e) = Some c) seen))"
        by (auto simp: reverse_ok_def)
      have "subseq (ds @ [d]) (map snd (filter (\<lambda>e. map_option fst (fst e) = Some c) (seen @ [(conn, d)])))"
        using ds(2) by (simp add: Some p list_emb_append_mono)
      from reverse_send_ok[OF len s ds(1) this] show ?thesis
        using s by (simp add: step Some p Let_def)
    qed
  qed
qed

lemma reverse_run_ok:
  assumes "\<And>env. length (encode env) < 2 ^ 32"
  shows "reverse_ok encode ip_text spec seen st \<Longrightarrow> fresh_streams evs \<Longrightarrow>
    reverse_ok encode ip_text spec (seen @ evs) (reverse_udp_run encode ip_text spec evs st)"
proof (induction evs arbitrary: seen st)
  case (Cons e evs)
  obtain conn d where e: "e = (conn, d)" by (cases e)
  have "fresh_streams [(conn, d)]" "fresh_streams evs"
    using Cons.prems(2) by (auto simp: fresh_streams_def e)
  then show ?case
    using Cons.IH[OF reverse_step_ok[OF assms Cons.prems(1)]] by (simp add: e)
qed simp

section \<open>Properties\<close>

text \<open>C32 (equivalence): the frames the one reused encoder writes for any sequence of datagrams are
  the ones a fresh \<open>Envelope\<close> per datagram and \<open>write_msg\<close> would write, whatever the order of the
  peers: the cached address text is never stale.  The hypotheses are prost's contract for a message
  field: \<open>encoded_len\<close> is the length of the encoding, and an envelope is the encoding of its only
  field.\<close>

theorem udp_encoder_equivalent:
  assumes "\<And>d. encoded_len 12 d = length (encode_field 12 d)"
    and "\<And>d. encode (envelope_of (PUdpDatagram d)) = encode_field 12 d"
  shows "dgram_in ip_text encoded_len encode_field ds new_encoder s =
    foldl (\<lambda>(res, s) (src, data). case res of Inl e \<Rightarrow> (Inl e, s)
        | Inr _ \<Rightarrow> write_msg encode (datagram_env ip_text src data) s) (Inr (), s) ds"
proof -
  let ?w = "\<lambda>(res, s) (src, data). case res of Inl e \<Rightarrow> (Inl e, s)
        | Inr _ \<Rightarrow> write_msg encode (datagram_env ip_text src data) s"
  have stop: "foldl ?w (Inl e, s) ds = (Inl e, s)" for e s ds
    by (induction ds) auto
  have "enc_ok ip_text enc \<Longrightarrow>
      dgram_in ip_text encoded_len encode_field ds enc s = foldl ?w (Inr (), s) ds" for enc
  proof (induction ds arbitrary: enc s)
    case (Cons d ds)
    obtain src data where d: "d = (src, data)" by (cases d)
    obtain out enc1 where f: "frame ip_text encoded_len encode_field src data enc = (out, enc1)"
      by fastforce
    obtain res s1 where w: "write_framed out s = (res, s1)" by fastforce
    from frame_spec[where encode = encode, OF Cons.prems assms f, of s] w
    have "enc_ok ip_text enc1" "write_msg encode (datagram_env ip_text src data) s = (res, s1)"
      by simp_all
    then show ?case
      using Cons.IH[of enc1 s1] stop by (cases res) (auto simp: d f w)
  qed simp
  then show ?thesis by (simp add: enc_ok_new)
qed

theorem udp_encoder_equivalent_witness:
  "let enc = (\<lambda>d. 98 # dg_data d);
       a = SocketAddr (V4 1) 53; b = SocketAddr (V6 [0]) 53;
       ip_text = (\<lambda>ip. case ip of V4 _ \<Rightarrow> ''0.0.0.1'' | V6 _ \<Rightarrow> ''::'')
   in dgram_in ip_text (\<lambda>_ d. length (enc d)) (\<lambda>_ d. enc d) [(a, [1]), (b, [2]), (a, [3])]
        new_encoder \<lparr>outgoing = [], budget = None\<rparr> =
      (Inr (), \<lparr>outgoing = [0, 0, 0, 2, 98, 1, 0, 0, 0, 2, 98, 2, 0, 0, 0, 2, 98, 3], budget = None\<rparr>)"
proof -
  define enc :: "UdpDatagram \<Rightarrow> bytes" where "enc = (\<lambda>d. 98 # dg_data d)"
  define encode :: "Envelope \<Rightarrow> bytes" where
    "encode env = (case payload env of Some (PUdpDatagram d) \<Rightarrow> enc d | _ \<Rightarrow> [])" for env
  note eq = udp_encoder_equivalent[where encoded_len = "\<lambda>_ d. length (enc d)" and
      encode_field = "\<lambda>_ d. enc d" and encode = encode]
  have be: "be_bytes 4 2 = [0, 0, 0, 2]" by code_simp
  show ?thesis
    unfolding Let_def enc_def[symmetric]
    by (subst eq) (simp_all add: encode_def enc_def write_msg_def write_framed_def write_all_def
        datagram_env_def be)
qed

text \<open>C29 (invariant): a UDP relay never holds more than 256 sockets, one entry per peer and one peer
  per socket, and every reply it forwards is addressed to the peer whose datagrams, and no one
  else's, were sent from the socket the reply arrived on.\<close>

theorem udp_replies_reach_their_sender:
  assumes "relay_reach r out ins"
  shows "length (senders r) \<le> 256 \<and> distinct (map fst (senders r))
    \<and> distinct (map (\<lambda>e. s_sock (snd e)) (senders r))
    \<and> (\<forall>key sock. (key, sock) \<in> set ins \<longrightarrow>
         (key, sock) \<in> set out \<and> (\<forall>other. (other, sock) \<in> set out \<longrightarrow> other = key))"
proof -
  have ok: "relay_ok r out ins" by (rule relay_reach_ok[OF assms])
  have one: "one_owner out" using ok by (simp add: relay_ok_def)
  have d: "distinct (map fst (senders r))" using ok by (simp add: relay_ok_def)
  have "e = f" if "e \<in> set (senders r)" "f \<in> set (senders r)" "s_sock (snd e) = s_sock (snd f)" for e f
  proof -
    have "fst e = fst f"
      using one relay_ok_owner[OF ok, of "fst e" "snd e"] relay_ok_owner[OF ok, of "fst f" "snd f"] that
      unfolding one_owner_def by (metis prod.collapse)
    then show ?thesis using d that by (meson distinct_map inj_onD)
  qed
  then have "distinct (map (\<lambda>e. s_sock (snd e)) (senders r))"
    using d by (auto simp: distinct_map inj_on_def)
  then show ?thesis
    using ok one unfolding relay_ok_def MAX_UDP_SENDERS_def one_owner_def by blast
qed

theorem udp_replies_reach_their_sender_witness:
  "\<exists>r. relay_reach r [((''::1'', 9), 1), ((''::1'', 7), 0)] [((''::1'', 7), 0)]
    \<and> distinct (map (\<lambda>e. s_sock (snd e)) (senders r))"
proof -
  let ?a = "\<lparr>dg_peer_addr = ''::1'', dg_peer_port = 7, dg_data = [1]\<rparr>"
  let ?b = "\<lparr>dg_peer_addr = ''::1'', dg_peer_port = 9, dg_data = [2]\<rparr>"
  note evs = relay_reach.datagram[OF relay_reach.datagram[OF relay_reach.start prod.collapse[symmetric],
      of 0 True ?a] prod.collapse[symmetric], of 5 True ?b]
  note reach = relay_reach.reply[OF evs prod.collapse[symmetric], of 9 0 "[3]"]
  have "relay_reach (snd (relay_reply 9 0 [3] (snd (relay_datagram 5 True ?b (snd (relay_datagram 0 True ?a new_relay))))))
     [((''::1'', 9), 1), ((''::1'', 7), 0)] [((''::1'', 7), 0)]"
    using reach by (simp add: relay_datagram_def relay_reply_def new_relay_def retain_active_def
        SENDER_IDLE_def evict_oldest_def MAX_UDP_SENDERS_def addressee_def)
  from udp_replies_reach_their_sender[OF this] this show ?thesis by blast
qed

text \<open>C33 (safety): whatever the connections do, the stream a reverse UDP socket writes to consists of
  the forward header of its spec and of whole datagram frames, in the order they were received, each
  received while the connection of that stream was the active one: after a reconnect nothing goes to
  a stream of the old connection.\<close>

theorem reverse_udp_stream_ok:
  assumes "\<And>env. length (encode env) < 2 ^ 32" and "fresh_streams evs"
    and "current_tx (reverse_udp_run encode ip_text spec evs new_reverse_udp) = Some s"
  shows "\<exists>conn ds. last_conn (reverse_udp_run encode ip_text spec evs new_reverse_udp) = Some conn
    \<and> outgoing s = reverse_bytes encode ip_text spec ds
    \<and> subseq ds (map snd (filter (\<lambda>e. map_option fst (fst e) = Some conn) evs))"
  using reverse_run_ok[of encode ip_text spec "[]" new_reverse_udp evs] assms
  by (auto simp: reverse_ok_def new_reverse_udp_def)

theorem reverse_udp_stream_ok_witness:
  "let spec = \<lparr>bind_address = None, local_port = 53, remote_host = ''h'', remote_port = 53, proto = Udp\<rparr>;
       s0 = \<lparr>outgoing = [], budget = None\<rparr>; a = SocketAddr (V4 1) 9;
       evs = [(Some (1, Some s0), a, [1]), (None, a, [2]), (Some (2, Some s0), a, [3])];
       st = reverse_udp_run (\<lambda>_. [7]) (\<lambda>_. ''0.0.0.1'') spec evs new_reverse_udp
   in \<exists>s conn ds. current_tx st = Some s \<and> last_conn st = Some conn
        \<and> outgoing s = reverse_bytes (\<lambda>_. [7]) (\<lambda>_. ''0.0.0.1'') spec ds
        \<and> subseq ds (map snd (filter (\<lambda>e. map_option fst (fst e) = Some conn) evs))"
proof -
  let ?spec = "\<lparr>bind_address = None, local_port = 53, remote_host = ''h'', remote_port = 53, proto = Udp\<rparr>"
  let ?s0 = "\<lparr>outgoing = [], budget = None\<rparr>" and ?a = "SocketAddr (V4 1) 9"
  let ?evs = "[(Some (1, Some ?s0), ?a, [1]), (None, ?a, [2]), (Some (2, Some ?s0), ?a, [3])]"
  have "fresh_streams ?evs" by (auto simp: fresh_streams_def)
  moreover have "\<exists>s. current_tx (reverse_udp_run (\<lambda>_. [7]) (\<lambda>_. ''0.0.0.1'') ?spec ?evs new_reverse_udp) = Some s"
    by (simp add: run_udp_reverse_listener_socket_def reverse_send_def new_reverse_udp_def
        write_stream_header_def write_msg_def write_framed_def write_all_def Let_def)
  ultimately show ?thesis
    unfolding Let_def using reverse_udp_stream_ok[of "\<lambda>_. [7]" ?evs "\<lambda>_. ''0.0.0.1''" ?spec] by fastforce
qed

text \<open>(round trip): the peer named in a datagram message is found again on the other side: for any
  address with a non-zero port, the text of the address and the port as \<open>u32\<close> give back that address.
  A port of 0 or above 65535 is refused, never truncated.\<close>

theorem datagram_peer_round_trip:
  assumes "parse_ip (ip_text (sa_ip src)) = Some (sa_ip src)"
  shows "dgram_out parse_ip (datagram_env ip_text src data) = (if sa_port src = 0 then None else Some (src, data))
    \<and> (datagram_peer_addr parse_ip addr port \<noteq> None \<longrightarrow> 0 < unat port \<and> unat port \<le> 65535)"
proof -
  have "(ucast (ucast (p :: u16) :: u32) :: u16) = p" for p
    by (simp add: bit_eq_iff bit_simps)
  moreover have "unat (sa_port src) \<le> 65535" using unat_lt[of "sa_port src"] by simp
  ultimately show ?thesis
    using assms
    by (cases src)
      (auto simp: dgram_out_def datagram_env_def datagram_peer_addr_def Let_def unat_gt_0
        split: if_splits option.splits)
qed

theorem datagram_peer_round_trip_witness:
  "let ip_text = (\<lambda>ip :: IpAddr. ''127.0.0.1'');
       parse_ip = (\<lambda>s. if s = ''127.0.0.1'' then Some (V4 2130706433) else None);
       src = SocketAddr (V4 2130706433) 5353
   in dgram_out parse_ip (datagram_env ip_text src [1, 2]) = Some (src, [1, 2])
    \<and> datagram_peer_addr parse_ip ''127.0.0.1'' 65536 = None"
  unfolding Let_def
  using datagram_peer_round_trip[where src = "SocketAddr (V4 2130706433) 5353" and data = "[1, 2]" and
      ip_text = "\<lambda>ip. ''127.0.0.1''" and parse_ip = "\<lambda>s. if s = ''127.0.0.1'' then Some (V4 2130706433) else None"
      and addr = "''127.0.0.1''" and port = 65536]
  by auto

end
