(* ===== verification/Server_Conn.thy ===== *)
theory Server_Conn
  imports Udp_Forward Session_State
begin

text \<open>
  The server's session of \<open>src/bin/etrs.rs\<close>: the PTY reader, \<open>handle_connection\<close> from the first
  stream to the tasks of an established connection, and the reconnect loop of \<open>run_session\<close> with its
  teardown.

  The state is what the tasks share: the session behind its mutex, the two channel slots, the active
  connection, the set of reverse forwards already listening, the X11 cookie, and what reached the PTY,
  the client and utmp; \<open>sv_output\<close> and \<open>sv_requested\<close> are history variables: all the shell has
  written, and the reverse forwards every connection has asked for.  A step is what one task does between two points where others can run, so that
  an arbitrary sequence of steps is an arbitrary interleaving of the PTY reader with a connection.
\<close>

section \<open>The state\<close>

datatype utmp_event = RecordLogin string | RecordLogout

text \<open>A connection between the handshake and the installation of its channels: its id, the client's
  \<open>SessionOpen\<close>, the sending half of its control stream after the \<open>SessionAccept\<close>, the replays
  collected for it and whether the channels are installed.\<close>

record pending =
  pd_conn :: nat
  pd_open :: SessionOpen
  pd_ctrl :: send_stream
  pd_replays :: "chunk list"
  pd_installed :: bool

record server =
  sv_session :: SessionState
  sv_master_fd :: bool
  sv_holding :: "chunk option"
  sv_pty_tx :: "chunk list option"
  sv_ctrl_tx :: "Envelope list option"
  sv_active_conn :: "nat option"
  sv_listening :: "string list"
  sv_requested :: "string list"
  sv_spawned :: "(ForwardSpec \<times> bool) list"
  sv_x11_cookie :: "bytes option"
  sv_pty_in :: "bytes list"
  sv_size :: "u16 \<times> u16"
  sv_shell_exited :: bool
  sv_utmp :: "utmp_event list"
  sv_pending :: "pending option"
  sv_written :: "chunk list"
  sv_output :: "bytes list"

text \<open>Before the first connection: a 24 by 80 PTY and an empty session.\<close>

definition new_server :: "bytes \<Rightarrow> string \<Rightarrow> bool \<Rightarrow> server" where
  "new_server sid pk has_fd =
     \<lparr>sv_session = new_session sid pk, sv_master_fd = has_fd, sv_holding = None, sv_pty_tx = None,
      sv_ctrl_tx = None, sv_active_conn = None, sv_listening = [], sv_requested = [], sv_spawned = [],
      sv_x11_cookie = None, sv_pty_in = [], sv_size = (24, 80), sv_shell_exited = False, sv_utmp = [],
      sv_pending = None, sv_written = [], sv_output = []\<rparr>"

definition PTY_CHANNEL :: nat where "PTY_CHANNEL = 1000"
definition CTRL_CHANNEL :: nat where "CTRL_CHANNEL = 64"

text \<open>\<open>try_send\<close> drops the message when the channel is full.\<close>

definition try_send :: "nat \<Rightarrow> 'm \<Rightarrow> 'm list \<Rightarrow> 'm list" where
  "try_send cap m q = (if length q < cap then q @ [m] else q)"

section \<open>The PTY reader\<close>

text \<open>A read of at most 4096 bytes is recorded under the session lock; the reader then holds the
  numbered chunk until it has looked at the channel slot.  \<open>None\<close> is a step that is not possible
  now: \<open>blocking_send\<close> waits while the channel is full.\<close>

definition pty_read :: "bytes \<Rightarrow> server \<Rightarrow> server option" where
  "pty_read data sv =
     (if sv_holding sv \<noteq> None \<or> data = [] \<or> 4096 < length data then None
      else (case send_chunk (sv_session sv) data of
              None \<Rightarrow> None
            | Some (sq, st) \<Rightarrow> Some (sv\<lparr>sv_session := st, sv_holding := Some (sq, data),
                  sv_output := sv_output sv @ [data]\<rparr>)))"

definition pty_forward :: "server \<Rightarrow> server option" where
  "pty_forward sv =
     (case sv_holding sv of
        None \<Rightarrow> None
      | Some c \<Rightarrow>
          (case sv_pty_tx sv of
             None \<Rightarrow> Some (sv\<lparr>sv_holding := None\<rparr>)
           | Some q \<Rightarrow>
               (if PTY_CHANNEL \<le> length q then None
                else Some (sv\<lparr>sv_holding := None, sv_pty_tx := Some (q @ [c])\<rparr>))))"

section \<open>The handshake\<close>

datatype refusal = AcceptBiError | ReadTagError | WrongTag u8 | ExpectedSessionOpen | NoSessionOpen

text \<open>The first stream of the connection, \<open>None\<close> when \<open>accept_bi\<close> fails.\<close>

definition read_session_open ::
    "(bytes \<Rightarrow> Envelope option) \<Rightarrow> recv_stream option \<Rightarrow> refusal + SessionOpen \<times> recv_stream" where
  "read_session_open decode ctrl =
     (case ctrl of
        None \<Rightarrow> Inl AcceptBiError
      | Some r \<Rightarrow>
          (case read_tag r of
             (Inl _, _) \<Rightarrow> Inl ReadTagError
           | (Inr tag, r1) \<Rightarrow>
               (if tag \<noteq> TAG_CONTROL then Inl (WrongTag tag)
                else (case read_msg decode r1 of
                        (Inr (Some env), r2) \<Rightarrow>
                          (case payload env of
                             Some (PSessionOpen so) \<Rightarrow> Inr (so, r2)
                           | _ \<Rightarrow> Inl ExpectedSessionOpen)
                      | (_, _) \<Rightarrow> Inl NoSessionOpen))))"

definition authenticated :: "SessionState \<Rightarrow> SessionOpen \<Rightarrow> bool" where
  "authenticated st so \<longleftrightarrow> constant_time_eq (so_session_id so) (session_id st)
     \<and> constant_time_eq (as_bytes (so_passkey so)) (as_bytes (passkey st))"

text \<open>The part under the session lock and the values taken from it.\<close>

definition resume_session :: "SessionState \<Rightarrow> SessionOpen \<Rightarrow> chunk list \<times> (u32 \<rightharpoonup> u64) \<times> SessionState" where
  "resume_session st so =
     (let st1 = apply_server_acks st (so_last_received_seq so);
          replays = collect_replays st1 (so_last_received_seq so);
          server_last = last_received_map st1
      in (case replays 0 of None \<Rightarrow> [] | Some cs \<Rightarrow> cs, server_last, st1))"

datatype close_reason =
    HandshakeTimeout | InvalidHandshake refusal | AuthenticationFailed | AcceptNotWritten | SessionOpened

text \<open>From the first stream to the \<open>SessionAccept\<close>: \<open>timed_out\<close> is the 10 s limit on the first
  message, \<open>peer\<close> the text recorded in utmp, \<open>s\<close> the sending half of the control stream.\<close>

definition open_session ::
    "(bytes \<Rightarrow> Envelope option) \<Rightarrow> (Envelope \<Rightarrow> bytes) \<Rightarrow> nat \<Rightarrow> string \<Rightarrow> bool \<Rightarrow> recv_stream option
     \<Rightarrow> send_stream \<Rightarrow> server \<Rightarrow> close_reason \<times> server" where
  "open_session decode encode conn peer timed_out ctrl s sv =
     (if timed_out then (HandshakeTimeout, sv)
      else (case read_session_open decode ctrl of
              Inl e \<Rightarrow> (InvalidHandshake e, sv)
            | Inr (so, _) \<Rightarrow>
                (if \<not> authenticated (sv_session sv) so then (AuthenticationFailed, sv)
                 else (let sv1 = (if sv_master_fd sv
                                  then sv\<lparr>sv_utmp := sv_utmp sv @ [RecordLogin peer]\<rparr> else sv);
                           sv2 = (if so_x11_enabled so
                                  then sv1\<lparr>sv_x11_cookie := Some (so_x11_auth_cookie so)\<rparr> else sv1);
                           (replays, server_last, st) = resume_session (sv_session sv2) so;
                           sv3 = sv2\<lparr>sv_session := st\<rparr>;
                           accept = envelope_of (PSessionAccept \<lparr>sa_last_received_seq = server_last\<rparr>)
                       in (case write_msg encode accept s of
                             (Inl _, _) \<Rightarrow> (AcceptNotWritten, sv3)
                           | (Inr _, s1) \<Rightarrow>
                               (SessionOpened,
                                sv3\<lparr>sv_pending := Some \<lparr>pd_conn = conn, pd_open = so, pd_ctrl = s1,
                                     pd_replays = replays, pd_installed = False\<rparr>\<rparr>))))))"

section \<open>Setting the connection up\<close>

fun start_listeners ::
    "bool \<Rightarrow> string list \<Rightarrow> string list \<Rightarrow> (ForwardSpec \<times> bool) list \<Rightarrow> string list \<times> (ForwardSpec \<times> bool) list" where
  "start_listeners gateway [] started spawned = (started, spawned)"
| "start_listeners gateway (spec_str # rest) started spawned =
     (if spec_str \<in> set started then start_listeners gateway rest started spawned
      else (case parse_spec spec_str of
              Inl _ \<Rightarrow> start_listeners gateway rest started spawned
            | Inr spec \<Rightarrow>
                start_listeners gateway rest (spec_str # started) ((spec, gateway) # spawned)))"

text \<open>\<open>active_conn\<close>, the listeners, and the two fresh channels with the \<open>Disconnect\<close> of a shell that
  has already exited.\<close>

definition install_connection :: "server \<Rightarrow> server option" where
  "install_connection sv =
     (case sv_pending sv of
        None \<Rightarrow> None
      | Some p \<Rightarrow>
          (if pd_installed p then None
           else (let (started, spawned) =
                       start_listeners (so_gateway_ports (pd_open p)) (so_reverse_forwards (pd_open p))
                         (sv_listening sv) (sv_spawned sv);
                     ctrl = (if sv_shell_exited sv
                             then try_send CTRL_CHANNEL (envelope_of PDisconnect) [] else [])
                 in Some (sv\<lparr>sv_active_conn := Some (pd_conn p), sv_listening := started,
                      sv_requested := sv_requested sv @ so_reverse_forwards (pd_open p),
                      sv_spawned := spawned, sv_pty_tx := Some [], sv_ctrl_tx := Some ctrl,
                      sv_pending := Some (p\<lparr>pd_installed := True\<rparr>), sv_written := []\<rparr>))))"

text \<open>The loop over the replays, which uses \<open>try_send\<close>.\<close>

definition queue_replays :: "server \<Rightarrow> server option" where
  "queue_replays sv =
     (case (sv_pending sv, sv_pty_tx sv) of
        (Some p, Some q) \<Rightarrow>
          (if pd_installed p
           then Some (sv\<lparr>sv_pty_tx := Some (fold (try_send PTY_CHANNEL) (pd_replays p) q), sv_pending := None\<rparr>)
           else None)
      | _ \<Rightarrow> None)"

section \<open>The tasks of a connection\<close>

definition pty_writer_step :: "server \<Rightarrow> server option" where
  "pty_writer_step sv =
     (case (sv_pending sv, sv_pty_tx sv) of
        (None, Some (c # q)) \<Rightarrow> Some (sv\<lparr>sv_pty_tx := Some q, sv_written := sv_written sv @ [c]\<rparr>)
      | _ \<Rightarrow> None)"

definition pty_reader_step :: "u64 \<Rightarrow> bytes \<Rightarrow> server \<Rightarrow> server" where
  "pty_reader_step sq data sv =
     sv\<lparr>sv_session := receive_chunk (sv_session sv) sq, sv_pty_in := sv_pty_in sv @ [data]\<rparr>"

text \<open>One message of the control stream; the result of the task when it ends.\<close>

definition ctrl_reader_step :: "Envelope option io_result \<Rightarrow> server \<Rightarrow> bool option \<times> server" where
  "ctrl_reader_step msg sv =
     (case msg of
        Inr (Some env) \<Rightarrow>
          (case payload env of
             Some (PTerminalResize tr) \<Rightarrow> (None, sv\<lparr>sv_size := (ucast (tr_rows tr), ucast (tr_cols tr))\<rparr>)
           | Some PDisconnect \<Rightarrow> (Some True, sv)
           | Some (PHeartbeat hb) \<Rightarrow>
               (None, sv\<lparr>sv_session := apply_server_acks (sv_session sv) (hb_last_received_seq hb)\<rparr>)
           | _ \<Rightarrow> (None, sv))
      | _ \<Rightarrow> (Some False, sv))"

text \<open>The control writer sends the queue in order and stops after a \<open>Disconnect\<close>; a failed write is
  ignored.\<close>

fun ctrl_writer :: "Envelope list \<Rightarrow> Envelope list" where
  "ctrl_writer [] = []"
| "ctrl_writer (env # q) =
     env # (case payload env of Some PDisconnect \<Rightarrow> [] | _ \<Rightarrow> ctrl_writer q)"

definition heartbeat_step :: "server \<Rightarrow> server option" where
  "heartbeat_step sv =
     (case sv_ctrl_tx sv of
        None \<Rightarrow> None
      | Some q \<Rightarrow>
          (if CTRL_CHANNEL \<le> length q then None
           else Some (sv\<lparr>sv_ctrl_tx := Some (q @ [envelope_of (PHeartbeat
                  \<lparr>hb_last_received_seq = last_received_map (sv_session sv)\<rparr>)])\<rparr>)))"

text \<open>The shell-exit watcher: the \<open>Disconnect\<close> goes out, with \<open>blocking_send\<close>, before the logout is
  recorded.\<close>

definition shell_exit :: "server \<Rightarrow> server option" where
  "shell_exit sv =
     (if sv_shell_exited sv \<or> (case sv_ctrl_tx sv of None \<Rightarrow> False | Some q \<Rightarrow> CTRL_CHANNEL \<le> length q) then None
      else (let sv1 = (case sv_ctrl_tx sv of
                         None \<Rightarrow> sv
                       | Some q \<Rightarrow> sv\<lparr>sv_ctrl_tx := Some (q @ [envelope_of PDisconnect])\<rparr>);
                sv2 = sv1\<lparr>sv_shell_exited := True\<rparr>
            in Some (if sv_master_fd sv then sv2\<lparr>sv_utmp := sv_utmp sv2 @ [RecordLogout]\<rparr> else sv2)))"

datatype conn_task = CtrlReader bool | PtyWriter | PtyReader | CtrlWriter | HeartbeatTask | Dispatch

text \<open>The \<open>select!\<close> over the tasks: what \<open>handle_connection\<close> returns, by the task that ended first.\<close>

fun select_clean :: "conn_task \<Rightarrow> bool" where
  "select_clean (CtrlReader r) = r"
| "select_clean _ = False"

text \<open>After \<open>handle_connection\<close> the loop empties the slots.\<close>

definition end_connection :: "server \<Rightarrow> server" where
  "end_connection sv = sv\<lparr>sv_pty_tx := None, sv_ctrl_tx := None, sv_active_conn := None, sv_pending := None\<rparr>"

section \<open>Interleavings\<close>

datatype server_event =
    PtyRead bytes | PtyForward
  | OpenSession nat string bool "recv_stream option" send_stream
  | Install | QueueReplays | PtyWrite | Received u64 bytes | CtrlMsg "Envelope option io_result"
  | SendHeartbeat | ShellExit | EndConnection

fun server_step :: "(bytes \<Rightarrow> Envelope option) \<Rightarrow> (Envelope \<Rightarrow> bytes) \<Rightarrow> server \<Rightarrow> server_event \<Rightarrow> server option" where
  "server_step decode encode sv (PtyRead d) = pty_read d sv"
| "server_step decode encode sv PtyForward = pty_forward sv"
| "server_step decode encode sv (OpenSession conn peer t ctrl s) =
     (if sv_active_conn sv = None \<and> sv_pending sv = None
      then Some (snd (open_session decode encode conn peer t ctrl s sv)) else None)"
| "server_step decode encode sv Install = install_connection sv"
| "server_step decode encode sv QueueReplays = queue_replays sv"
| "server_step decode encode sv PtyWrite = pty_writer_step sv"
| "server_step decode encode sv (Received sq d) =
     (if sv_active_conn sv \<noteq> None \<and> sv_pending sv = None then Some (pty_reader_step sq d sv) else None)"
| "server_step decode encode sv (CtrlMsg m) =
     (if sv_active_conn sv \<noteq> None \<and> sv_pending sv = None then Some (snd (ctrl_reader_step m sv)) else None)"
| "server_step decode encode sv SendHeartbeat = heartbeat_step sv"
| "server_step decode encode sv ShellExit = shell_exit sv"
| "server_step decode encode sv EndConnection = Some (end_connection sv)"

abbreviation server_run ::
    "(bytes \<Rightarrow> Envelope option) \<Rightarrow> (Envelope \<Rightarrow> bytes) \<Rightarrow> server \<Rightarrow> server_event list \<Rightarrow> server option" where
  "server_run decode encode \<equiv> run_steps (server_step decode encode)"

section \<open>Lemmas\<close>

lemma as_bytes_inject [simp]: "as_bytes s = as_bytes t \<longleftrightarrow> s = t"
proof -
  have "inj (\<lambda>c. word_of_nat (of_char c) :: u8)"
  proof (rule injI)
    fix c d :: char assume "word_of_nat (of_char c) = (word_of_nat (of_char d) :: u8)"
    then have "unat (word_of_nat (of_char c) :: u8) = unat (word_of_nat (of_char d) :: u8)" by simp
    then have "(of_char c :: nat) mod 256 = of_char d mod 256" by (simp only: unat_of_nat) simp
    then show "c = d" by (simp add: of_char_mod_256)
  qed
  then show ?thesis by (simp add: as_bytes_def inj_map_eq_map)
qed

lemma authenticated_iff:
  "authenticated st so \<longleftrightarrow> so_session_id so = session_id st \<and> so_passkey so = passkey st"
  by (simp add: authenticated_def constant_time_eq_iff_eq)

lemma open_session_refused:
  assumes "timed_out \<or> (\<forall>so r. read_session_open decode ctrl = Inr (so, r) \<longrightarrow>
      \<not> (so_session_id so = session_id (sv_session sv) \<and> so_passkey so = passkey (sv_session sv)))"
  shows "snd (open_session decode encode conn peer timed_out ctrl s sv) = sv \<and>
    fst (open_session decode encode conn peer timed_out ctrl s sv) \<noteq> SessionOpened"
  using assms by (auto simp: open_session_def authenticated_iff split: sum.split)

text \<open>The credentials of a session never change.\<close>

lemma session_credentials [simp]:
  "session_id (apply_server_acks st a) = session_id st" "passkey (apply_server_acks st a) = passkey st"
  "session_id (receive_chunk st q) = session_id st" "passkey (receive_chunk st q) = passkey st"
  by (simp_all add: apply_server_acks_def receive_chunk_def stream_mut_def split: option.split)

lemma send_chunk_credentials:
  "send_chunk st d = Some (q, st') \<Longrightarrow> session_id st' = session_id st \<and> passkey st' = passkey st"
  by (auto simp: send_chunk_def stream_mut_def Let_def split: option.splits)

lemma fst_resume_session:
  "resume_session st so =
    (case collect_replays (apply_server_acks st (so_last_received_seq so)) (so_last_received_seq so) 0 of
       None \<Rightarrow> [] | Some cs \<Rightarrow> cs,
     last_received_map (apply_server_acks st (so_last_received_seq so)),
     apply_server_acks st (so_last_received_seq so))"
  by (simp add: resume_session_def Let_def)

text \<open>Nothing of the session is given to, or taken from, a client without the credentials.\<close>

fun presents :: "(bytes \<Rightarrow> Envelope option) \<Rightarrow> bytes \<Rightarrow> string \<Rightarrow> server_event \<Rightarrow> bool" where
  "presents decode sid pk (OpenSession conn peer timed_out ctrl s) \<longleftrightarrow>
     \<not> timed_out \<and> (\<exists>so r. read_session_open decode ctrl = Inr (so, r) \<and> so_session_id so = sid \<and> so_passkey so = pk)"
| "presents decode sid pk _ \<longleftrightarrow> False"

definition untouched :: "bytes \<Rightarrow> string \<Rightarrow> server \<Rightarrow> bool" where
  "untouched sid pk sv \<longleftrightarrow>
     session_id (sv_session sv) = sid \<and> passkey (sv_session sv) = pk
     \<and> sv_active_conn sv = None \<and> sv_pending sv = None \<and> sv_pty_tx sv = None \<and> sv_ctrl_tx sv = None
     \<and> sv_written sv = [] \<and> sv_pty_in sv = [] \<and> sv_listening sv = [] \<and> sv_spawned sv = []
     \<and> sv_x11_cookie sv = None \<and> sv_size sv = (24, 80) \<and> set (sv_utmp sv) \<subseteq> {RecordLogout}"

lemmas task_defs = pty_read_def pty_forward_def install_connection_def queue_replays_def
  pty_writer_step_def pty_reader_step_def ctrl_reader_step_def heartbeat_step_def shell_exit_def
  end_connection_def

lemma untouched_step:
  assumes inv: "untouched sid pk sv" and e: "\<not> presents decode sid pk e"
    and step: "server_step decode encode sv e = Some sv'"
  shows "untouched sid pk sv'"
proof (cases e)
  case (OpenSession conn peer t ctrl s)
  have "snd (open_session decode encode conn peer t ctrl s sv) = sv"
    using inv e by (intro conjunct1[OF open_session_refused]) (auto simp: OpenSession untouched_def)
  then show ?thesis using inv step by (auto simp: OpenSession untouched_def)
next
  case (PtyRead d)
  then show ?thesis
    using inv step
    by (auto simp: untouched_def pty_read_def dest: send_chunk_credentials split: if_splits option.splits)
qed (use inv step in \<open>auto simp: untouched_def task_defs Let_def split: if_splits option.splits\<close>)

interpretation untouched: step_invariant "server_step decode encode" "\<lambda>_ e. \<not> presents decode sid pk e"
    "untouched sid pk" for decode encode sid pk
  by unfold_locales (rule untouched_step)

text \<open>The invariant of the shared state: a well-formed session, channels within their capacity, and
  one listener per reverse forward the clients have asked for and that is a specification.\<close>

definition listeners_ok :: "string list \<Rightarrow> string list \<Rightarrow> (ForwardSpec \<times> bool) list \<Rightarrow> bool" where
  "listeners_ok requested started spawned \<longleftrightarrow>
     distinct started \<and> list_all2 (\<lambda>s p. parse_spec s = Inr (fst p)) started spawned
     \<and> set started = {s \<in> set requested. \<not> isl (parse_spec s)}"

definition server_ok :: "server \<Rightarrow> bool" where
  "server_ok sv \<longleftrightarrow> session_ok (sv_session sv)
     \<and> listeners_ok (sv_requested sv) (sv_listening sv) (sv_spawned sv)
     \<and> (\<forall>q. sv_pty_tx sv = Some q \<longrightarrow> length q \<le> PTY_CHANNEL)
     \<and> (\<forall>q. sv_ctrl_tx sv = Some q \<longrightarrow> length q \<le> CTRL_CHANNEL)"

lemma listeners_ok_skip:
  assumes "listeners_ok requested started spawned" and "s \<in> set started \<or> isl (parse_spec s)"
  shows "listeners_ok (requested @ [s]) started spawned"
  using assms unfolding listeners_ok_def by fastforce

lemma listeners_ok_start:
  assumes "listeners_ok requested started spawned" and "s \<notin> set started" and "parse_spec s = Inr spec"
  shows "listeners_ok (requested @ [s]) (s # started) ((spec, gateway) # spawned)"
proof -
  have "set (s # started) = {x \<in> set (requested @ [s]). \<not> isl (parse_spec x)}"
    using assms unfolding listeners_ok_def by (simp only: set_append list.set) fastforce
  then show ?thesis using assms by (simp add: listeners_ok_def)
qed

lemma start_listeners_ok:
  "listeners_ok requested started spawned \<Longrightarrow> start_listeners g specs started spawned = (started', spawned') \<Longrightarrow>
   listeners_ok (requested @ specs) started' spawned'"
proof (induction g specs started spawned arbitrary: requested rule: start_listeners.induct)
  case (2 gateway spec_str rest started spawned)
  have ?case if "listeners_ok ((requested @ [spec_str]) @ rest) started' spawned'" using that by simp
  moreover have "listeners_ok ((requested @ [spec_str]) @ rest) started' spawned'"
  proof (cases "spec_str \<in> set started")
    case True
    have "listeners_ok (requested @ [spec_str]) started spawned"
      using 2(4) by (rule listeners_ok_skip) (simp add: True)
    then show ?thesis by (rule 2(1)[OF True]) (use 2(5) True in simp)
  next
    case False
    show ?thesis
    proof (cases "parse_spec spec_str")
      case (Inl e)
      have "listeners_ok (requested @ [spec_str]) started spawned"
        using 2(4) by (rule listeners_ok_skip) (simp add: Inl)
      then show ?thesis by (rule 2(2)[OF False Inl]) (use 2(5) False Inl in simp)
    next
      case (Inr spec)
      have "listeners_ok (requested @ [spec_str]) (spec_str # started) ((spec, gateway) # spawned)"
        using 2(4) by (rule listeners_ok_start[OF _ False Inr])
      then show ?thesis by (rule 2(3)[OF False Inr]) (use 2(5) False Inr in simp)
    qed
  qed
  ultimately show ?case by blast
qed simp

lemma length_try_send: "length q \<le> cap \<Longrightarrow> length (fold (try_send cap) ms q) \<le> cap"
  by (induction ms arbitrary: q) (auto simp: try_send_def)

lemma fold_try_send: "length q + length ms \<le> cap \<Longrightarrow> fold (try_send cap) ms q = q @ ms"
  by (induction ms arbitrary: q) (auto simp: try_send_def)

lemma fold_try_send_full: "cap \<le> length q \<Longrightarrow> fold (try_send cap) ms q = q"
  by (induction ms) (auto simp: try_send_def)

lemma queue_is_prefix: "fold (try_send cap) ms [] = take cap ms"
proof (cases "length ms \<le> cap")
  case False
  have "fold (try_send cap) ms [] = fold (try_send cap) (drop cap ms) (fold (try_send cap) (take cap ms) [])"
    by (metis append_take_drop_id fold_append comp_apply)
  also have "fold (try_send cap) (take cap ms) [] = take cap ms" using False by (simp add: fold_try_send)
  finally show ?thesis using False by (simp add: fold_try_send_full)
qed (simp add: fold_try_send)

lemma open_session_parts:
  assumes "open_session decode encode conn peer t ctrl s sv = (res, sv')"
  shows "sv_listening sv' = sv_listening sv \<and> sv_requested sv' = sv_requested sv \<and> sv_spawned sv' = sv_spawned sv \<and> sv_pty_tx sv' = sv_pty_tx sv
    \<and> sv_ctrl_tx sv' = sv_ctrl_tx sv \<and> sv_written sv' = sv_written sv \<and> sv_output sv' = sv_output sv
    \<and> sv_holding sv' = sv_holding sv
    \<and> (sv_session sv' = sv_session sv \<or> (\<exists>a. sv_session sv' = apply_server_acks (sv_session sv) a))"
  using assms
  by (auto simp: open_session_def fst_resume_session Let_def split: if_splits sum.splits prod.splits)

lemma server_ok_step:
  assumes ok: "server_ok sv" and step: "server_step decode encode sv e = Some sv'"
  shows "server_ok sv'"
proof (cases e)
  case (OpenSession conn peer t ctrl s)
  then show ?thesis
    using ok step open_session_parts[of decode encode conn peer t ctrl s sv]
    by (cases "open_session decode encode conn peer t ctrl s sv")
      (auto simp: server_ok_def session_ok_acks split: if_splits)
next
  case (PtyRead d)
  have "vec_ok d" if "length d \<le> 4096" using that by (simp add: vec_ok_def)
  then show ?thesis
    using ok step PtyRead
    by (auto simp: server_ok_def pty_read_def dest: session_ok_send split: if_splits option.splits)
next
  case Install
  then show ?thesis
    using ok step
    by (auto simp: server_ok_def install_connection_def try_send_def CTRL_CHANNEL_def Let_def
        split: option.splits if_splits prod.splits dest: start_listeners_ok)
next
  case QueueReplays
  then show ?thesis
    using ok step by (auto simp: server_ok_def queue_replays_def length_try_send split: option.splits if_splits)
next
  case (Received sq d)
  then show ?thesis
    using ok step by (auto simp: server_ok_def pty_reader_step_def session_ok_receive split: if_splits)
next
  case (CtrlMsg m)
  then show ?thesis
    using ok step
    by (auto simp: server_ok_def ctrl_reader_step_def session_ok_acks
        split: if_splits sum.splits option.splits Payload.splits)
qed (use ok step in \<open>auto simp: server_ok_def task_defs Let_def split: if_splits option.splits list.splits\<close>)

lemma server_ok_new: "server_ok (new_server sid pk fd)"
  by (simp add: server_ok_def new_server_def session_ok_new listeners_ok_def)

interpretation server: step_invariant "server_step decode encode" "\<lambda>_ _. True" server_ok for decode encode
  by unfold_locales (rule server_ok_step)

section \<open>The output stream\<close>

text \<open>A handshake is quiet when the PTY reader neither holds a chunk nor takes a step between the
  session lock and the end of the replay loop, and the replays fit into the channel.\<close>

fun quiet :: "server \<Rightarrow> server_event \<Rightarrow> bool" where
  "quiet sv (PtyRead d) \<longleftrightarrow> sv_pending sv = None \<and> length (sv_output sv) < 2 ^ 64 - 3"
| "quiet sv PtyForward \<longleftrightarrow> sv_pending sv = None"
| "quiet sv (OpenSession conn peer t ctrl s) \<longleftrightarrow> sv_holding sv = None"
| "quiet sv QueueReplays \<longleftrightarrow>
     (case sv_pending sv of None \<Rightarrow> True | Some p \<Rightarrow> length (pd_replays p) \<le> PTY_CHANNEL)"
| "quiet sv _ \<longleftrightarrow> True"

definition history_at :: "server \<Rightarrow> StreamState \<Rightarrow> nat \<Rightarrow> bool" where
  "history_at sv s j \<longleftrightarrow> streams (sv_session sv) 0 = Some s \<and> hist_ok s
     \<and> length (sv_output sv) < 2 ^ 64 - 2 \<and> j \<le> length (sv_output sv)
     \<and> next_out_seq s = word_of_nat (Suc (length (sv_output sv)))
     \<and> send_history s = drop j (numbered (sv_output sv))"

definition tail_of :: "bytes list \<Rightarrow> chunk list \<Rightarrow> bool" where
  "tail_of ds cs \<longleftrightarrow> (\<exists>m. cs = drop m (numbered ds))"

definition gapless :: "server \<Rightarrow> bool" where
  "gapless sv \<longleftrightarrow> (\<exists>s j. history_at sv s j) \<and>
     (case sv_pending sv of
        Some p \<Rightarrow> sv_holding sv = None \<and> tail_of (sv_output sv) (pd_replays p)
          \<and> (pd_installed p \<longrightarrow> sv_pty_tx sv = Some [] \<and> sv_written sv = [])
      | None \<Rightarrow>
          (case sv_pty_tx sv of
             None \<Rightarrow> True
           | Some q \<Rightarrow> tail_of (sv_output sv) (sv_written sv @ q @ the_list (sv_holding sv))))"

lemma tail_of_snoc:
  assumes "tail_of ds cs"
  shows "tail_of (ds @ [d]) (cs @ [(word_of_nat (Suc (length ds)), d)])"
proof -
  obtain m where "cs = drop m (numbered ds)" using assms by (auto simp: tail_of_def)
  then have "cs @ [(word_of_nat (Suc (length ds)), d)] = drop (min m (length ds)) (numbered (ds @ [d]))"
    by (cases "m \<le> length ds") (simp_all add: numbered_snoc min_def)
  then show ?thesis unfolding tail_of_def by blast
qed

lemma dropWhile_is_drop: "\<exists>n. dropWhile P xs = drop n xs"
  by (metis dropWhile_eq_drop)

lemma acknowledge_next_out [simp]: "next_out_seq (acknowledge_up_to s a) = next_out_seq s"
  by (simp add: acknowledge_up_to_def Let_def split: prod.split)

lemma history_at_acks:
  assumes h: "history_at sv s j" and st: "sv_session sv' = apply_server_acks (sv_session sv) acks"
    and out: "sv_output sv' = sv_output sv"
  shows "\<exists>s' j'. history_at sv' s' j'"
proof (cases "acks 0")
  case None
  then have "history_at sv' s j" using h by (simp add: history_at_def st out apply_server_acks_def)
  then show ?thesis by blast
next
  case (Some a)
  obtain n where n: "dropWhile (\<lambda>(q, _). q \<le> a) (send_history s) = drop n (send_history s)"
    using dropWhile_is_drop by blast
  have "history_at sv' (acknowledge_up_to s a) (min (n + j) (length (sv_output sv)))"
    using h n hist.log_ack[of s a] hist.invar_ack[of s a]
    by (auto simp: history_at_def st out apply_server_acks_def Some min_def)
  then show ?thesis by blast
qed

lemma replays_tail:
  assumes h: "history_at sv s j"
  shows "tail_of (sv_output sv) (case collect_replays (sv_session sv) peer 0 of None \<Rightarrow> [] | Some cs \<Rightarrow> cs)"
proof -
  let ?w = "case peer 0 of None \<Rightarrow> 0 | Some q \<Rightarrow> q"
  have "(case collect_replays (sv_session sv) peer 0 of None \<Rightarrow> [] | Some cs \<Rightarrow> cs) =
      filter (\<lambda>(q, _). ?w < q) (send_history s)"
    using h by (auto simp: collect_replays_def history_at_def Let_def replay_from_def split: option.split)
  also have "\<dots> = dropWhile (\<lambda>(q, _). q \<le> ?w) (send_history s)"
    using h by (intro dropWhile_acked[symmetric])
      (simp add: history_at_def increasing_drop increasing_numbered)
  finally show ?thesis
    using h dropWhile_is_drop[of "\<lambda>(q, _). q \<le> ?w" "send_history s"]
    by (auto simp: tail_of_def history_at_def)
qed

lemma history_at_send:
  assumes h: "history_at sv s j" and d: "length d \<le> 4096" and room: "length (sv_output sv) < 2 ^ 64 - 3"
    and send: "send_chunk (sv_session sv) d = Some (q, st)"
    and sv': "sv_session sv' = st" "sv_output sv' = sv_output sv @ [d]"
  shows "(\<exists>s' j'. history_at sv' s' j') \<and> q = word_of_nat (Suc (length (sv_output sv)))"
proof -
  let ?q = "word_of_nat (Suc (length (sv_output sv))) :: u64"
  let ?s = "s\<lparr>next_out_seq := next_out_seq s + 1\<rparr>"
  have q: "q = ?q" and st: "streams st 0 = Some (record_send ?s ?q d)"
    using send h by (auto simp: send_chunk_def stream_mut_def history_at_def Let_def)
  have ok: "hist_ok ?s" "vec_ok d" using h d by (simp_all add: history_at_def hist_ok_def vec_ok_def)
  obtain j' where "j' \<le> Suc (length (sv_output sv))"
    "send_history (record_send ?s ?q d) = drop j' (numbered (sv_output sv @ [d]))"
    using hist.tracks_record[OF ok, of j "sv_output sv"] h by (auto simp: history_at_def)
  moreover have "next_out_seq (record_send ?s ?q d) = word_of_nat (Suc (Suc (length (sv_output sv))))"
    using h by (simp add: record_send_def Let_def history_at_def split: prod.split)
  ultimately have "history_at sv' (record_send ?s ?q d) j'"
    using st room hist.invar_record[OF ok] by (simp add: history_at_def sv')
  then show ?thesis using q by blast
qed

lemma gapless_open:
  assumes inv: "gapless sv" and idle: "sv_pending sv = None" "sv_holding sv = None"
    and open_: "open_session decode encode conn peer t ctrl s sv = (res, sv')"
  shows "gapless sv'"
proof -
  obtain st j where h: "history_at sv st j" using inv by (auto simp: gapless_def)
  note parts = open_session_parts[OF open_]
  have h': "\<exists>s j. history_at sv' s j"
    using h parts history_at_acks[OF h] by (auto simp: history_at_def)
  have "sv_pending sv' = None \<or> (\<exists>p. sv_pending sv' = Some p \<and> \<not> pd_installed p \<and>
      pd_replays p = (case collect_replays (sv_session sv') (so_last_received_seq (pd_open p)) 0 of
        None \<Rightarrow> [] | Some cs \<Rightarrow> cs))"
    using open_ idle(1)
    by (auto simp: open_session_def fst_resume_session Let_def split: if_splits sum.splits prod.splits)
  then show ?thesis
  proof
    assume none: "sv_pending sv' = None"
    then show ?thesis using h' inv idle parts by (auto simp: gapless_def split: option.splits)
  next
    assume "\<exists>p. sv_pending sv' = Some p \<and> \<not> pd_installed p \<and>
      pd_replays p = (case collect_replays (sv_session sv') (so_last_received_seq (pd_open p)) 0 of
        None \<Rightarrow> [] | Some cs \<Rightarrow> cs)"
    then obtain p where p: "sv_pending sv' = Some p" "\<not> pd_installed p"
      "pd_replays p = (case collect_replays (sv_session sv') (so_last_received_seq (pd_open p)) 0 of
        None \<Rightarrow> [] | Some cs \<Rightarrow> cs)" by blast
    obtain s' j' where "history_at sv' s' j'" using h' by blast
    from replays_tail[OF this] p show ?thesis using h' idle(2) parts by (simp add: gapless_def)
  qed
qed

lemma gapless_read:
  assumes inv: "gapless sv" and q: "sv_pending sv = None" "length (sv_output sv) < 2 ^ 64 - 3"
    and step: "pty_read d sv = Some sv'"
  shows "gapless sv'"
proof -
  obtain st j where h: "history_at sv st j" using inv by (auto simp: gapless_def)
  obtain sq st' where sv': "sv_holding sv = None" "length d \<le> 4096"
    "send_chunk (sv_session sv) d = Some (sq, st')"
    "sv' = sv\<lparr>sv_session := st', sv_holding := Some (sq, d), sv_output := sv_output sv @ [d]\<rparr>"
    using step by (cases "sv_holding sv") (auto simp: pty_read_def split: if_splits option.splits)
  have "(\<exists>s j. history_at sv' s j) \<and> sq = word_of_nat (Suc (length (sv_output sv)))"
    by (rule history_at_send[OF h sv'(2) q(2) sv'(3)]) (simp_all add: sv'(4))
  then show ?thesis
    using inv q(1) sv'(1) tail_of_snoc[where d = d]
    by (fastforce simp: gapless_def sv'(4) the_list_def split: option.splits)
qed

lemma gapless_session:
  assumes inv: "gapless sv" and st: "sv_session sv' = apply_server_acks (sv_session sv) a"
    and eq: "sv_output sv' = sv_output sv" "sv_pending sv' = sv_pending sv" "sv_pty_tx sv' = sv_pty_tx sv"
      "sv_written sv' = sv_written sv" "sv_holding sv' = sv_holding sv"
  shows "gapless sv'"
proof -
  obtain s j where "history_at sv s j" using inv by (auto simp: gapless_def)
  from history_at_acks[OF this st eq(1)] show ?thesis
    using inv by (auto simp: gapless_def eq split: option.splits)
qed

lemma gapless_frame:
  assumes inv: "gapless sv" and eq: "sv_session sv' = sv_session sv" "sv_output sv' = sv_output sv"
      "sv_pending sv' = sv_pending sv" "sv_pty_tx sv' = sv_pty_tx sv" "sv_written sv' = sv_written sv"
      "sv_holding sv' = sv_holding sv"
  shows "gapless sv'"
  using inv by (auto simp: gapless_def history_at_def eq split: option.splits)

lemma gapless_parts:
  assumes "gapless sv" and "sv_session sv' = sv_session sv" "sv_output sv' = sv_output sv"
  shows "\<exists>s j. history_at sv' s j"
  using assms by (auto simp: gapless_def history_at_def)

lemma ctrl_reader_cases:
  obtains "snd (ctrl_reader_step m sv) = sv" | n where "snd (ctrl_reader_step m sv) = sv\<lparr>sv_size := n\<rparr>"
    | a where "snd (ctrl_reader_step m sv) = sv\<lparr>sv_session := apply_server_acks (sv_session sv) a\<rparr>"
proof (cases "\<exists>env pl. m = Inr (Some env) \<and> payload env = Some pl")
  case True
  then obtain env pl where m: "m = Inr (Some env)" "payload env = Some pl" by blast
  show ?thesis by (cases pl) (use m that in \<open>auto simp: ctrl_reader_step_def\<close>)
next
  case False
  then have "snd (ctrl_reader_step m sv) = sv"
    by (auto simp: ctrl_reader_step_def split: sum.splits option.splits)
  then show ?thesis by (rule that)
qed

lemma history_at_receive:
  assumes "history_at sv s j" "sv_session sv' = receive_chunk (sv_session sv) q" "sv_output sv' = sv_output sv"
  shows "\<exists>s' j'. history_at sv' s' j'"
proof -
  have "history_at sv' (s\<lparr>next_in_seq := q + 1\<rparr>) j"
    using assms by (simp add: history_at_def receive_chunk_def stream_mut_def hist_ok_def)
  then show ?thesis by blast
qed

lemma gapless_step:
  assumes inv: "gapless sv" and q: "quiet sv e" and step: "server_step decode encode sv e = Some sv'"
  shows "gapless sv'"
proof (cases e)
  case (OpenSession conn peer t ctrl s)
  obtain res sv1 where o: "open_session decode encode conn peer t ctrl s sv = (res, sv1)" by fastforce
  show ?thesis
    using gapless_open[OF inv _ _ o] step q by (auto simp: OpenSession o split: if_splits)
next
  case (PtyRead d)
  then show ?thesis using gapless_read[OF inv] step q by simp
next
  case (Received sq d)
  obtain s j where h: "history_at sv s j" using inv by (auto simp: gapless_def)
  have sv': "sv' = pty_reader_step sq d sv" using step by (auto simp: Received split: if_splits)
  have "\<exists>s' j'. history_at sv' s' j'"
    by (rule history_at_receive[OF h]) (simp_all add: sv' pty_reader_step_def)
  then show ?thesis using inv by (auto simp: gapless_def sv' pty_reader_step_def split: option.splits)
next
  case (CtrlMsg m)
  then have sv': "sv' = snd (ctrl_reader_step m sv)" using step by (auto split: if_splits)
  show ?thesis unfolding sv'
  proof (cases m sv rule: ctrl_reader_cases)
    case (2 n)
    then show "gapless (snd (ctrl_reader_step m sv))"
      using inv by (auto simp: gapless_def history_at_def split: option.splits)
  next
    case (3 a)
    show "gapless (snd (ctrl_reader_step m sv))"
      by (rule gapless_session[OF inv]) (simp_all add: 3)
  qed (simp add: inv)
next
  case QueueReplays
  then obtain p where p: "sv_pending sv = Some p" "pd_installed p" "sv_pty_tx sv = Some []" "sv_written sv = []"
    "sv' = sv\<lparr>sv_pty_tx := Some (fold (try_send PTY_CHANNEL) (pd_replays p) []), sv_pending := None\<rparr>"
    using step inv by (auto simp: queue_replays_def gapless_def split: option.splits if_splits)
  have "fold (try_send PTY_CHANNEL) (pd_replays p) [] = pd_replays p"
    using q p(1) by (simp add: QueueReplays fold_try_send)
  then show ?thesis
    using inv p by (auto simp: gapless_def history_at_def the_list_def)
next
  case PtyForward
  then obtain c where c: "sv_pending sv = None" "sv_holding sv = Some c"
    and sv': "sv' = sv\<lparr>sv_holding := None\<rparr> \<and> sv_pty_tx sv = None \<or>
      (\<exists>x. sv_pty_tx sv = Some x \<and> sv' = sv\<lparr>sv_holding := None, sv_pty_tx := Some (x @ [c])\<rparr>)"
    using step q by (simp add: pty_forward_def split: option.splits if_splits)
  have "\<exists>s j. history_at sv' s j" by (rule gapless_parts[OF inv]) (use sv' in auto)
  with inv c sv' show ?thesis by (auto simp: gapless_def the_list_def)
next
  case Install
  then obtain p where p: "sv_pending sv = Some p" "sv_pending sv' = Some (p\<lparr>pd_installed := True\<rparr>)"
    "sv_session sv' = sv_session sv" "sv_output sv' = sv_output sv" "sv_holding sv' = sv_holding sv"
    "sv_pty_tx sv' = Some []" "sv_written sv' = []"
    using step by (auto simp: install_connection_def Let_def split: option.splits if_splits prod.splits)
  then show ?thesis using inv gapless_parts[OF inv p(3,4)] by (simp add: gapless_def)
next
  case PtyWrite
  then obtain c x where c: "sv_pending sv = None" "sv_pty_tx sv = Some (c # x)"
    and sv': "sv' = sv\<lparr>sv_pty_tx := Some x, sv_written := sv_written sv @ [c]\<rparr>"
    using step by (auto simp: pty_writer_step_def split: option.splits list.splits)
  have "\<exists>s j. history_at sv' s j" by (rule gapless_parts[OF inv]) (simp_all add: sv')
  with inv c sv' show ?thesis by (simp add: gapless_def)
next
  case EndConnection
  then have "sv' = end_connection sv" using step by simp
  then show ?thesis
    using gapless_parts[OF inv, of sv'] by (simp add: gapless_def end_connection_def)
next
  case SendHeartbeat
  then show ?thesis
    using step by (intro gapless_frame[OF inv]) (auto simp: heartbeat_step_def split: option.splits if_splits)
next
  case ShellExit
  then show ?thesis
    using step
    by (intro gapless_frame[OF inv]) (auto simp: shell_exit_def Let_def split: option.splits if_splits)
qed

lemma gapless_new: "gapless (new_server sid pk fd)"
proof -
  have "history_at (new_server sid pk fd) (new_stream 0 Terminal) 0"
    by (simp add: history_at_def new_server_def new_session_def new_stream_def hist_ok_def numbered_def
        word_le_nat_alt)
  then show ?thesis by (auto simp: gapless_def new_server_def)
qed

interpretation outstream: step_invariant "server_step decode encode" quiet gapless for decode encode
  by unfold_locales (rule gapless_step)

section \<open>Handshake races\<close>

text \<open>A concrete client, and what happens to the shell's output when the PTY reader runs during its
  handshake: a chunk read after the session lock and before the channels exist is never sent on the
  connection, although a later one is; a chunk held across the handshake is sent twice; a chunk read
  between the installation and the replay loop overtakes the replays.\<close>

definition sample_open :: SessionOpen where
  "sample_open = \<lparr>so_session_id = [7], so_passkey = ''k'', so_last_received_seq = Map.empty,
     so_reverse_forwards = [], so_gateway_ports = False, so_x11_enabled = False, so_x11_auth_proto = [],
     so_x11_auth_cookie = []\<rparr>"

definition decode_open :: "bytes \<Rightarrow> Envelope option" where
  "decode_open bs = Some (envelope_of (PSessionOpen sample_open))"

definition open_event :: server_event where
  "open_event = OpenSession 1 ''::1'' False (Some \<lparr>incoming = [1, 0, 0, 0, 0], ending = Lost\<rparr>)
     \<lparr>outgoing = [], budget = None\<rparr>"

definition written_by :: "server_event list \<Rightarrow> chunk list" where
  "written_by evs =
     (case server_run decode_open (\<lambda>_. []) (new_server [7] ''k'' True) evs of
        None \<Rightarrow> [] | Some sv \<Rightarrow> sv_written sv)"

lemmas server_eval = written_by_def open_event_def new_server_def open_session_def read_session_open_def
  read_tag_def read_msg_def read_exact_def from_be_bytes_def decode_open_def envelope_of_def sample_open_def
  TAG_CONTROL_def MAX_CONTROL_MSG_def authenticated_iff new_session_def new_stream_def fst_resume_session
  apply_server_acks_def collect_replays_def replay_from_def write_msg_def write_framed_def write_all_def
  task_defs send_chunk_def stream_mut_def record_send_def Let_def PTY_CHANNEL_def CTRL_CHANNEL_def
  try_send_def MAX_HISTORY_BYTES_def last_received_map_def

lemma race_loses_chunk:
  "written_by [open_event, PtyRead [65], PtyForward, Install, QueueReplays, PtyRead [66], PtyForward, PtyWrite]
     = [(2, [66])]"
  by (simp add: server_eval)

lemma race_duplicates_chunk:
  "written_by [PtyRead [65], open_event, Install, QueueReplays, PtyForward, PtyWrite, PtyWrite]
     = [(1, [65]), (1, [65])]"
  by (simp add: server_eval)

lemma race_reorders_chunks:
  "written_by [PtyRead [65], PtyForward, open_event, Install, PtyRead [66], PtyForward, QueueReplays,
     PtyWrite, PtyWrite] = [(2, [66]), (1, [65])]"
  by (simp add: server_eval)

section \<open>Properties\<close>

text \<open>C6 (safety): as long as no client has presented the session id and the passkey, whatever else
  clients send and however the tasks interleave, nothing of the shell's output is written, nothing is
  typed into the shell, no reverse forward listens, no X11 cookie is taken, the terminal keeps its
  size and no login is recorded.\<close>

theorem unauthenticated_gets_nothing:
  assumes "server_run decode encode (new_server sid pk fd) evs = Some sv"
    and "list_all (\<lambda>e. \<not> presents decode sid pk e) evs"
  shows "sv_written sv = [] \<and> sv_pty_in sv = [] \<and> sv_spawned sv = [] \<and> sv_x11_cookie sv = None
    \<and> sv_size sv = (24, 80) \<and> sv_active_conn sv = None \<and> set (sv_utmp sv) \<subseteq> {RecordLogout}"
proof -
  have "untouched sid pk (new_server sid pk fd)"
    by (simp add: untouched_def new_server_def new_session_def)
  from untouched.invar_run[OF this run_allowed_list_all[OF assms(2)] assms(1)]
  show ?thesis by (simp add: untouched_def)
qed

theorem unauthenticated_gets_nothing_witness:
  "\<exists>sv. server_run decode_open (\<lambda>_. []) (new_server [7] ''other'' True)
       [PtyRead [65], open_event, PtyForward, ShellExit] = Some sv
     \<and> sv_written sv = [] \<and> sv_active_conn sv = None"
proof -
  let ?evs = "[PtyRead [65], open_event, PtyForward, ShellExit]"
  have "server_run decode_open (\<lambda>_. []) (new_server [7] ''other'' True) ?evs \<noteq> None" by (simp add: server_eval)
  then obtain sv where sv: "server_run decode_open (\<lambda>_. []) (new_server [7] ''other'' True) ?evs = Some sv" by blast
  have "list_all (\<lambda>e. \<not> presents decode_open [7] ''other'' e) ?evs"
    by (simp add: open_event_def read_session_open_def read_tag_Cons TAG_CONTROL_def read_msg_def read_exact_def
        decode_open_def envelope_of_def sample_open_def from_be_bytes_def MAX_CONTROL_MSG_def)
  from unauthenticated_gets_nothing[OF sv this] sv show ?thesis by blast
qed

text \<open>C23 (invariant): in every interleaving of the PTY reader, the connections and the shell, the
  session stays well formed, the channels stay within their capacities, and the reverse forwards have
  exactly one listener each: the specifications that have a listener are those that some connection has
  asked for and that parse, each of them once however often clients reconnect and ask for it again, and
  the listener is one for the forward it specifies.\<close>

theorem server_invariant:
  assumes "server_run decode encode (new_server sid pk fd) evs = Some sv"
  shows "session_ok (sv_session sv) \<and> distinct (sv_listening sv)
    \<and> set (sv_listening sv) = {s \<in> set (sv_requested sv). \<not> isl (parse_spec s)}
    \<and> length (sv_spawned sv) = length (sv_listening sv)
    \<and> list_all2 (\<lambda>s p. parse_spec s = Inr (fst p)) (sv_listening sv) (sv_spawned sv)
    \<and> (case sv_pty_tx sv of None \<Rightarrow> True | Some q \<Rightarrow> length q \<le> 1000)
    \<and> (case sv_ctrl_tx sv of None \<Rightarrow> True | Some q \<Rightarrow> length q \<le> 64)"
  using server.invar_run[OF server_ok_new _ assms]
  by (auto simp: server_ok_def listeners_ok_def PTY_CHANNEL_def CTRL_CHANNEL_def list_all2_lengthD
      split: option.split)

theorem server_invariant_witness:
  "\<exists>sv. server_run decode_open (\<lambda>_. []) (new_server [7] ''k'' True)
       [PtyRead [65], open_event, Install, EndConnection, open_event, Install, QueueReplays] = Some sv
     \<and> session_ok (sv_session sv) \<and> distinct (sv_listening sv)"
proof -
  let ?run = "server_run decode_open (\<lambda>_. []) (new_server [7] ''k'' True)
       [PtyRead [65], open_event, Install, EndConnection, open_event, Install, QueueReplays]"
  have "?run \<noteq> None" by (simp add: server_eval)
  then obtain sv where sv: "?run = Some sv" by blast
  from server_invariant[OF sv] sv show ?thesis by blast
qed

text \<open>C9 (safety): when every handshake is quiet, what is written to a client's PTY stream on a
  connection, followed by what is queued and what the reader holds, is the shell's output from some
  chunk on: consecutive sequence numbers, nothing lost, repeated, reordered or altered in between.\<close>

theorem server_output_gapless:
  assumes "server_run decode encode (new_server sid pk fd) evs = Some sv"
    and "run_allowed (server_step decode encode) quiet (new_server sid pk fd) evs"
    and "sv_pending sv = None" and "sv_pty_tx sv = Some q"
  shows "\<exists>m. sv_written sv @ q @ the_list (sv_holding sv) = drop m (numbered (sv_output sv))"
  using outstream.invar_run[OF gapless_new assms(2,1)] assms(3,4) by (simp add: gapless_def tail_of_def)

theorem server_output_gapless_witness:
  "\<exists>sv q m. server_run decode_open (\<lambda>_. []) (new_server [7] ''k'' True)
       [PtyRead [65], PtyForward, open_event, Install, QueueReplays, PtyWrite, PtyRead [66], PtyForward] = Some sv
     \<and> sv_pty_tx sv = Some q
     \<and> sv_written sv @ q @ the_list (sv_holding sv) = drop m (numbered (sv_output sv))"
proof -
  let ?sv = "new_server [7] ''k'' True"
  let ?evs = "[PtyRead [65], PtyForward, open_event, Install, QueueReplays, PtyWrite, PtyRead [66], PtyForward]"
  have "case server_run decode_open (\<lambda>_. []) ?sv ?evs of None \<Rightarrow> False
      | Some sv \<Rightarrow> sv_pending sv = None \<and> sv_pty_tx sv \<noteq> None" by (simp add: server_eval)
  then obtain sv q where sv: "server_run decode_open (\<lambda>_. []) ?sv ?evs = Some sv" "sv_pending sv = None"
    "sv_pty_tx sv = Some q" by (auto split: option.splits)
  have "run_allowed (server_step decode_open (\<lambda>_. [])) quiet ?sv ?evs" by (simp add: server_eval)
  from server_output_gapless[OF sv(1) this sv(2,3)] sv show ?thesis by blast
qed

end
