(* ===== verification/Client_Conn.thy ===== *)
theory Client_Conn
  imports Client_Stdin Server_Conn
begin

text \<open>
  The client of \<open>src/bin/etr.rs\<close>: \<open>run_session\<close> (the opening of a session, its tasks and how the first
  task to end decides the result), \<open>run_connection_loop\<close> (reconnecting, exit codes, the terminal) and
  \<open>restore_terminal\<close>.
\<close>

section \<open>Opening a session\<close>

text \<open>What the client sends first: the tag and \<open>SessionOpen\<close> with its own watermarks.\<close>

definition session_open_of ::
    "bytes \<Rightarrow> string \<Rightarrow> SessionState \<Rightarrow> string list \<Rightarrow> bool \<Rightarrow> bool \<Rightarrow> string \<Rightarrow> bytes \<Rightarrow> SessionOpen" where
  "session_open_of sid pk st reverse gateway x11 x11_proto x11_cookie =
     \<lparr>so_session_id = sid, so_passkey = pk, so_last_received_seq = last_received_map st,
      so_reverse_forwards = reverse, so_gateway_ports = gateway, so_x11_enabled = x11,
      so_x11_auth_proto = x11_proto, so_x11_auth_cookie = x11_cookie\<rparr>"

definition send_session_open ::
    "(Envelope \<Rightarrow> bytes) \<Rightarrow> SessionOpen \<Rightarrow> send_stream option \<Rightarrow> send_stream io_result" where
  "send_session_open encode so ctrl =
     (case ctrl of
        None \<Rightarrow> Inl OtherError
      | Some s \<Rightarrow>
          (case write_all [TAG_CONTROL] s of
             (Inl _, _) \<Rightarrow> Inl OtherError
           | (Inr _, s1) \<Rightarrow>
               (case write_msg encode (envelope_of (PSessionOpen so)) s1 of
                  (Inl e, _) \<Rightarrow> Inl e
                | (Inr _, s2) \<Rightarrow> Inr s2)))"

definition read_session_accept ::
    "(bytes \<Rightarrow> Envelope option) \<Rightarrow> recv_stream \<Rightarrow> ((u32 \<rightharpoonup> u64) \<times> recv_stream) io_result" where
  "read_session_accept decode ctrl_recv =
     (case read_msg decode ctrl_recv of
        (Inl e, _) \<Rightarrow> Inl e
      | (Inr None, _) \<Rightarrow> Inl UnexpectedEof
      | (Inr (Some env), r) \<Rightarrow>
          (case payload env of
             Some (PSessionAccept sa) \<Rightarrow> Inr (sa_last_received_seq sa, r)
           | _ \<Rightarrow> Inl InvalidData))"

fun write_replays :: "chunk list \<Rightarrow> send_stream \<Rightarrow> unit io_result \<times> send_stream" where
  "write_replays [] s = (Inr (), s)"
| "write_replays ((sq, data) # cs) s =
     (case write_pty_chunk sq data s of
        (Inl e, s1) \<Rightarrow> (Inl e, s1)
      | (Inr _, s1) \<Rightarrow> write_replays cs s1)"

text \<open>The acknowledged history is trimmed, the PTY stream is opened and the rest is replayed on it.\<close>

definition resume_pty ::
    "(u32 \<rightharpoonup> u64) \<Rightarrow> send_stream option \<Rightarrow> SessionState \<Rightarrow> send_stream io_result \<times> SessionState" where
  "resume_pty server_acks pty st =
     (let st1 = apply_server_acks st server_acks
      in case pty of
           None \<Rightarrow> (Inl OtherError, st1)
         | Some s \<Rightarrow>
             (case write_all [TAG_PTY] s of
                (Inl _, _) \<Rightarrow> (Inl OtherError, st1)
              | (Inr _, s1) \<Rightarrow>
                  (case write_replays (case collect_replays st1 server_acks 0 of None \<Rightarrow> [] | Some cs \<Rightarrow> cs) s1 of
                     (Inl e, _) \<Rightarrow> (Inl e, st1)
                   | (Inr _, s2) \<Rightarrow> (Inr s2, st1))))"

section \<open>The tasks\<close>

definition STDOUT_CHANNEL :: nat where "STDOUT_CHANNEL = 512"

text \<open>The PTY receiver: the session, the queue of the stdout task, and the result when it ends.\<close>

definition pty_recv_step ::
    "(u64 \<times> bytes) option io_result \<Rightarrow> SessionState \<Rightarrow> bytes list \<Rightarrow> unit io_result option \<times> SessionState \<times> bytes list" where
  "pty_recv_step msg st q =
     (case msg of
        Inr (Some (sq, data)) \<Rightarrow> (None, receive_chunk st sq, try_send STDOUT_CHANNEL data q)
      | Inr None \<Rightarrow> (Some (Inr ()), st, q)
      | Inl _ \<Rightarrow> (Some (Inl BrokenPipe), st, q))"

definition client_ctrl_step :: "Envelope option io_result \<Rightarrow> SessionState \<Rightarrow> unit io_result option \<times> SessionState" where
  "client_ctrl_step msg st =
     (case msg of
        Inr (Some env) \<Rightarrow>
          (case payload env of
             Some PDisconnect \<Rightarrow> (Some (Inl ConnectionAborted), st)
           | Some (PHeartbeat hb) \<Rightarrow> (None, apply_server_acks st (hb_last_received_seq hb))
           | _ \<Rightarrow> (None, st))
      | Inr None \<Rightarrow> (Some (Inr ()), st)
      | Inl e \<Rightarrow> (Some (Inl e), st))"

text \<open>The control sender: first the terminal size, then a heartbeat at every tick and every resize.\<close>

definition resize_env :: "u16 \<times> u16 \<Rightarrow> Envelope" where
  "resize_env sz = envelope_of (PTerminalResize \<lparr>tr_rows = ucast (snd sz), tr_cols = ucast (fst sz)\<rparr>)"

datatype ctrl_event = Tick | Resized "u16 \<times> u16"

fun ctrl_messages :: "(u16 \<times> u16) option \<Rightarrow> (nat \<Rightarrow> SessionState) \<Rightarrow> nat \<Rightarrow> ctrl_event list \<Rightarrow> Envelope list" where
  "ctrl_messages (Some sz) st n evs = resize_env sz # ctrl_messages None st n evs"
| "ctrl_messages None st n [] = []"
| "ctrl_messages None st n (Tick # evs) =
     envelope_of (PHeartbeat \<lparr>hb_last_received_seq = last_received_map (st n)\<rparr>) # ctrl_messages None st (Suc n) evs"
| "ctrl_messages None st n (Resized sz # evs) = resize_env sz # ctrl_messages None st (Suc n) evs"

datatype client_task =
    CtrlReaderTask "unit io_result" | StdinTask | PtyRecvTask "unit io_result"
  | CtrlSendTask | SigwinchTask | StdoutTask

text \<open>The \<open>select!\<close>: the result of \<open>run_session\<close> by the task that ended first; the arm of the stdin
  task is disabled for a remote command.  A panicked task is \<open>OtherError\<close>.\<close>

fun client_select :: "bool \<Rightarrow> client_task \<Rightarrow> unit io_result option" where
  "client_select cmd (CtrlReaderTask r) = Some r"
| "client_select cmd StdinTask = (if cmd then None else Some (Inr ()))"
| "client_select cmd (PtyRecvTask r) = Some r"
| "client_select cmd _ = Some (Inr ())"

text \<open>What \<open>run_session\<close> returns: the error of the handshake or of the opening of the streams, before there are
  tasks, or what the \<open>select!\<close> makes of the task that ended first.\<close>

fun run_session_result :: "bool \<Rightarrow> error_kind + client_task \<Rightarrow> unit io_result option" where
  "run_session_result cmd (Inl k) = Some (Inl k)"
| "run_session_result cmd (Inr task) = client_select cmd task"

section \<open>The terminal\<close>

definition TERM_RESET_MODES :: string where
  "TERM_RESET_MODES =
     CHR 0x1B # ''[?1000l'' @ CHR 0x1B # ''[?1002l'' @ CHR 0x1B # ''[?1003l'' @ CHR 0x1B # ''[?1006l''
     @ CHR 0x1B # ''[?1015l'' @ CHR 0x1B # ''[?2004l'' @ CHR 0x1B # ''[?1l'' @ CHR 0x1B # ''>''
     @ CHR 0x1B # ''[?7h'' @ CHR 0x1B # ''[?25h'' @ CHR 0x1B # ''[0m''"

definition TERM_RESET_SCREEN :: string where
  "TERM_RESET_SCREEN = CHR 0x1B # ''[?1049l'' @ CHR 0x1B # ''[r''"

record terminal =
  raw_ever_enabled :: bool
  raw_now :: bool
  stdout_bytes :: string

definition new_terminal :: terminal where
  "new_terminal = \<lparr>raw_ever_enabled = False, raw_now = False, stdout_bytes = []\<rparr>"

definition restore_terminal :: "bool \<Rightarrow> terminal \<Rightarrow> terminal" where
  "restore_terminal reset_screen t =
     (if \<not> raw_ever_enabled t then t
      else t\<lparr>raw_now := False,
             stdout_bytes := stdout_bytes t @ (if reset_screen then TERM_RESET_SCREEN else []) @ TERM_RESET_MODES\<rparr>)"

section \<open>The connection loop\<close>

text \<open>What an iteration meets: \<open>~.\<close> during the two-second delay or while connecting, the result of
  \<open>connect\<close> and its handshake, whether raw mode can be entered, and the end of the session: its
  result, or \<open>~.\<close> first.\<close>

datatype connecting = ConnectError | HandshakeFailed | ConnectTimeout | EscapeWhileConnecting | Connected

datatype session_end = SessionResult "unit io_result" | EscapeInSession

record attempt =
  at_escape_in_delay :: bool
  at_connect :: connecting
  at_raw_ok :: bool
  at_end :: session_end

datatype client_exit = ReturnOk | ExitCode nat

record loop_state =
  is_first :: bool
  in_raw :: bool
  term_state :: terminal

definition new_loop :: loop_state where
  "new_loop = \<lparr>is_first = True, in_raw = False, term_state = new_terminal\<rparr>"

text \<open>\<open>Inl\<close>: the process ends, with the terminal as it leaves it; \<open>Inr\<close>: the next iteration.\<close>

definition quit_escape :: "loop_state \<Rightarrow> client_exit \<times> terminal" where
  "quit_escape ls = (ReturnOk, if in_raw ls then restore_terminal True (term_state ls) else term_state ls)"

definition enter_raw :: "bool \<Rightarrow> bool \<Rightarrow> loop_state \<Rightarrow> loop_state option" where
  "enter_raw cmd raw_ok ls =
     (if raw_ok
      then Some (ls\<lparr>in_raw := True, term_state := (term_state ls)\<lparr>raw_ever_enabled := True, raw_now := True\<rparr>\<rparr>)
      else if cmd then Some ls else None)"

definition finish_session :: "bool \<Rightarrow> session_end \<Rightarrow> loop_state \<Rightarrow> (client_exit \<times> terminal) + loop_state" where
  "finish_session cmd e ls =
     (case e of
        EscapeInSession \<Rightarrow> Inl (ExitCode 0, restore_terminal True (term_state ls))
      | SessionResult (Inr _) \<Rightarrow> Inl (ExitCode 0, restore_terminal False (term_state ls))
      | SessionResult (Inl k) \<Rightarrow>
          (if k = ConnectionAborted then Inl (ExitCode 0, restore_terminal False (term_state ls))
           else if cmd then Inl (ExitCode 1, restore_terminal True (term_state ls))
           else Inr ls))"

definition connect_attempt :: "bool \<Rightarrow> attempt \<Rightarrow> loop_state \<Rightarrow> (client_exit \<times> terminal) + loop_state" where
  "connect_attempt cmd a ls0 =
     (if \<not> is_first ls0 \<and> at_escape_in_delay a then Inl (quit_escape ls0)
      else (let ls = ls0\<lparr>is_first := False\<rparr>
            in case at_connect a of
                 EscapeWhileConnecting \<Rightarrow> Inl (quit_escape ls)
               | Connected \<Rightarrow>
                   (case enter_raw cmd (at_raw_ok a) ls of
                      None \<Rightarrow> Inl (ExitCode 1, term_state ls)
                    | Some ls1 \<Rightarrow> finish_session cmd (at_end a) ls1)
               | _ \<Rightarrow> (if cmd then Inl (ExitCode 1, term_state ls) else Inr ls)))"

fun connection_loop :: "bool \<Rightarrow> attempt list \<Rightarrow> loop_state \<Rightarrow> (client_exit \<times> terminal) + loop_state" where
  "connection_loop cmd [] ls = Inr ls"
| "connection_loop cmd (a # as) ls =
     (case connect_attempt cmd a ls of Inl x \<Rightarrow> Inl x | Inr ls' \<Rightarrow> connection_loop cmd as ls')"

text \<open>Before the loop: the peer address and the local bind address.\<close>

definition host_of :: "string \<Rightarrow> string" where
  "host_of target = (case after_first CHR ''@'' target of Some h \<Rightarrow> h | None \<Rightarrow> target)"

definition client_addresses ::
    "(string \<Rightarrow> SocketAddr list option) \<Rightarrow> kernel_routes \<Rightarrow> string \<Rightarrow> u16 \<Rightarrow> AddrPref \<Rightarrow> (SocketAddr \<times> string) io_result" where
  "client_addresses lookup_host k target port addr_pref =
     (case resolve_preferred lookup_host k (host_of target @ '':'' @ show_u16 port) addr_pref of
        None \<Rightarrow> Inl InvalidInput
      | Some a \<Rightarrow> Inr (a, if is_ipv6 a then ''[::]:0'' else ''0.0.0.0:0''))"

definition run_connection_loop ::
    "(string \<Rightarrow> SocketAddr list option) \<Rightarrow> kernel_routes \<Rightarrow> string \<Rightarrow> u16 \<Rightarrow> AddrPref \<Rightarrow> bool \<Rightarrow> attempt list
     \<Rightarrow> ((client_exit \<times> terminal) + loop_state) io_result" where
  "run_connection_loop lookup_host k target port addr_pref cmd as =
     (case client_addresses lookup_host k target port addr_pref of
        Inl e \<Rightarrow> Inl e
      | Inr _ \<Rightarrow> Inr (connection_loop cmd as new_loop))"

section \<open>Lemmas\<close>

text \<open>The loop between iterations: raw mode is on exactly when it was ever entered, nothing was
  written to the terminal, and a remote command is never in a second iteration.\<close>

definition loop_ok :: "bool \<Rightarrow> bool \<Rightarrow> loop_state \<Rightarrow> bool" where
  "loop_ok cmd tty ls \<longleftrightarrow>
     raw_ever_enabled (term_state ls) = in_raw ls \<and> raw_now (term_state ls) = in_raw ls
     \<and> stdout_bytes (term_state ls) = [] \<and> (in_raw ls \<longrightarrow> tty)
     \<and> (is_first ls \<longrightarrow> \<not> in_raw ls) \<and> (cmd \<longrightarrow> is_first ls)"

definition restored :: "bool \<Rightarrow> terminal \<Rightarrow> bool" where
  "restored tty t \<longleftrightarrow> \<not> raw_now t \<and>
     (if raw_ever_enabled t then tty \<and> stdout_bytes t \<in> {TERM_RESET_MODES, TERM_RESET_SCREEN @ TERM_RESET_MODES}
      else stdout_bytes t = [])"

lemma loop_ok_new: "loop_ok cmd tty new_loop"
  by (simp add: loop_ok_def new_loop_def new_terminal_def)

lemma connect_attempt_ok:
  assumes "loop_ok cmd tty ls" and "at_raw_ok a = tty"
  shows "case connect_attempt cmd a ls of Inl (x, t) \<Rightarrow> restored tty t | Inr ls' \<Rightarrow> loop_ok cmd tty ls'"
  using assms
  by (auto simp: connect_attempt_def quit_escape_def enter_raw_def finish_session_def restore_terminal_def
      loop_ok_def restored_def Let_def split: connecting.splits session_end.splits sum.splits if_splits)

lemma connection_loop_ok:
  "loop_ok cmd tty ls \<Longrightarrow> list_all (\<lambda>a. at_raw_ok a = tty) as \<Longrightarrow>
   case connection_loop cmd as ls of Inl (x, t) \<Rightarrow> restored tty t | Inr ls' \<Rightarrow> loop_ok cmd tty ls'"
proof (induction as arbitrary: ls)
  case (Cons a as)
  have tty: "at_raw_ok a = tty" "list_all (\<lambda>a. at_raw_ok a = tty) as" using Cons.prems(2) by simp_all
  show ?case
  proof (cases "connect_attempt cmd a ls")
    case (Inr ls1)
    then have "loop_ok cmd tty ls1" using connect_attempt_ok[OF Cons.prems(1) tty(1)] by simp
    from Cons.IH[OF this tty(2)] show ?thesis by (simp add: Inr)
  qed (use connect_attempt_ok[OF Cons.prems(1) tty(1)] in simp)
qed simp

text \<open>A session whose end is reported as a loss: before the tasks, by the control reader or by the PTY receiver;
  \<open>ConnectionAborted\<close> is the kind that stands for the server's \<open>Disconnect\<close>.\<close>

fun reports_loss :: "error_kind + client_task \<Rightarrow> bool" where
  "reports_loss (Inl k) \<longleftrightarrow> k \<noteq> ConnectionAborted"
| "reports_loss (Inr (CtrlReaderTask (Inl k))) \<longleftrightarrow> k \<noteq> ConnectionAborted"
| "reports_loss (Inr (PtyRecvTask (Inl k))) \<longleftrightarrow> k \<noteq> ConnectionAborted"
| "reports_loss _ \<longleftrightarrow> False"

lemma reports_loss_result:
  assumes "run_session_result cmd how = Some r"
  shows "reports_loss how \<longleftrightarrow> (\<exists>k. r = Inl k \<and> k \<noteq> ConnectionAborted)"
proof (cases how)
  case (Inl k)
  with assms show ?thesis by auto
next
  case (Inr task)
  show ?thesis
  proof (cases task)
    case (CtrlReaderTask x)
    then have "r = x" using assms Inr by simp
    then show ?thesis by (cases x) (simp_all add: Inr CtrlReaderTask)
  next
    case (PtyRecvTask x)
    then have "r = x" using assms Inr by simp
    then show ?thesis by (cases x) (simp_all add: Inr PtyRecvTask)
  qed (use assms Inr in \<open>simp_all split: if_splits\<close>, blast+)
qed

text \<open>The two readers end with an error when the connection is gone.\<close>

lemma lost_connection_is_reported:
  "fst (pty_recv_step (Inl e) st q) = Some (Inl BrokenPipe)"
  "fst (client_ctrl_step (Inl e) st) = Some (Inl e)"
  by (simp_all add: pty_recv_step_def client_ctrl_step_def)

text \<open>An attempt that fails without ending an interactive client.\<close>

definition transient :: "attempt \<Rightarrow> bool" where
  "transient a \<longleftrightarrow> \<not> at_escape_in_delay a \<and> at_raw_ok a \<and>
     (at_connect a \<in> {ConnectError, HandshakeFailed, ConnectTimeout} \<or>
      at_connect a = Connected \<and> (\<exists>k. at_end a = SessionResult (Inl k) \<and> k \<noteq> ConnectionAborted))"

lemma transient_continues: "transient a \<Longrightarrow> \<exists>ls'. connect_attempt False a ls = Inr ls'"
  by (auto simp: transient_def connect_attempt_def enter_raw_def finish_session_def Let_def)

lemma transient_run: "list_all transient as \<Longrightarrow> \<exists>ls'. connection_loop False as ls = Inr ls'"
proof (induction as arbitrary: ls)
  case (Cons a as)
  then obtain ls1 where "connect_attempt False a ls = Inr ls1" using transient_continues by fastforce
  with Cons show ?case by auto
qed simp

lemma connection_loop_append:
  "connection_loop cmd (as @ bs) ls =
    (case connection_loop cmd as ls of Inl x \<Rightarrow> Inl x | Inr ls' \<Rightarrow> connection_loop cmd bs ls')"
  by (induction as arbitrary: ls) (auto split: sum.split)

text \<open>A write of the stdin task or of the control sender that fails, as it does when the connection is
  lost, ends the session with \<open>Ok\<close>: when its task is the first that \<open>select!\<close> sees, the client exits
  with status 0 where a failed read would make it reconnect.\<close>

lemma failed_write_exits_cleanly:
  assumes "task = StdinTask \<or> task = CtrlSendTask"
  shows "client_select False task = Some (Inr ())"
    and "finish_session False (SessionResult (Inr ())) ls = Inl (ExitCode 0, restore_terminal False (term_state ls))"
    and "finish_session False (SessionResult (Inl BrokenPipe)) ls = Inr ls"
  using assms by (auto simp: finish_session_def)

text \<open>A chunk that finds the queue of the stdout task full is acknowledged and dropped.\<close>

lemma stdout_overflow_drops:
  assumes "STDOUT_CHANNEL \<le> length q"
  shows "pty_recv_step (Inr (Some (sq, data))) st q = (None, receive_chunk st sq, q)"
  using assms by (simp add: pty_recv_step_def try_send_def)

text \<open>The stdin task on an unlimited stream.\<close>

lemma send_input_unlimited:
  assumes "streams st 0 = Some x" and "next_out_seq x = word_of_nat (Suc (length prev))" and "budget s = None"
    and "outgoing s = concat (map chunk_bytes (numbered prev))"
  obtains st' s' y where "send_input d st s = Some (Inr (), st', s')" and "streams st' 0 = Some y"
    and "next_out_seq y = word_of_nat (Suc (length (prev @ [d])))" and "budget s' = None"
    and "outgoing s' = concat (map chunk_bytes (numbered (prev @ [d])))"
proof -
  let ?y = "record_send (x\<lparr>next_out_seq := next_out_seq x + 1\<rparr>) (next_out_seq x) d"
  have send: "send_chunk st d = Some (next_out_seq x, st\<lparr>streams := (streams st)(0 \<mapsto> ?y)\<rparr>)"
    using assms(1) by (simp add: send_chunk_def stream_mut_def Let_def)
  obtain res s' where w: "write_pty_chunk (next_out_seq x) d s = (res, s')" by fastforce
  have "res = Inr ()" "budget s' = None" "outgoing s' = outgoing s @ chunk_bytes (next_out_seq x, d)"
    using write_pty_chunk_result[of "next_out_seq x" d s] write_pty_chunk_budget[of "next_out_seq x" d s]
      write_pty_chunk_outgoing[of "next_out_seq x" d s] assms(3) by (simp_all add: w)
  moreover have "next_out_seq ?y = word_of_nat (Suc (length (prev @ [d])))"
    using assms(2) by (simp add: record_send_def Let_def split: prod.split)
  ultimately show ?thesis
    using that[of "st\<lparr>streams := (streams st)(0 \<mapsto> ?y)\<rparr>" s' ?y] send w assms(2,4)
    by (simp add: send_input_def numbered_snoc)
qed

lemma stdin_task_unlimited:
  assumes "streams st 0 = Some x" and "next_out_seq x = word_of_nat (Suc (length prev))" and "budget s = None"
    and "outgoing s = concat (map chunk_bytes (numbered prev))"
  shows "\<exists>st' s'. stdin_task cmd False ps True st s = Some (\<not> cmd, st', s') \<and>
    outgoing s' = concat (map chunk_bytes (numbered (prev @ ps @ (if cmd then [[4]] else []))))"
  using assms
proof (induction ps arbitrary: st s x prev)
  case Nil
  show ?case
  proof (cases cmd)
    case True
    obtain st' s' where "send_input [4] st s = Some (Inr (), st', s')"
      "outgoing s' = concat (map chunk_bytes (numbered (prev @ [[4]])))"
      using send_input_unlimited[OF Nil, of "[4]"] by metis
    then show ?thesis using True by (simp add: stdin_turn_of_def)
  qed (use Nil in \<open>simp add: stdin_turn_of_def\<close>)
next
  case (Cons p ps)
  obtain st' s' y where s: "send_input p st s = Some (Inr (), st', s')" "streams st' 0 = Some y"
    "next_out_seq y = word_of_nat (Suc (length (prev @ [p])))" "budget s' = None"
    "outgoing s' = concat (map chunk_bytes (numbered (prev @ [p])))"
    using send_input_unlimited[OF Cons.prems, of p] by metis
  from Cons.IH[OF s(2-5)] show ?case by (simp add: s(1) stdin_turn_of_def)
qed

section \<open>Properties\<close>

text \<open>C25 (safety): however the client ends, with any number of reconnects behind it, the terminal is
  left out of raw mode: after raw mode the reset sequences have been written, exactly once, and without
  a terminal not a byte of them reaches the redirected output.  The hypothesis is that whether there is
  a terminal does not change while the client runs.\<close>

theorem terminal_always_restored:
  assumes "connection_loop cmd as new_loop = Inl (x, t)" and "list_all (\<lambda>a. at_raw_ok a = tty) as"
  shows "\<not> raw_now t \<and>
    (if raw_ever_enabled t then tty \<and> stdout_bytes t \<in> {TERM_RESET_MODES, TERM_RESET_SCREEN @ TERM_RESET_MODES}
     else stdout_bytes t = [])"
proof -
  have "restored tty t" using connection_loop_ok[OF loop_ok_new assms(2), of cmd] by (simp add: assms(1))
  then show ?thesis unfolding restored_def .
qed

theorem terminal_always_restored_witness:
  "let a = \<lparr>at_escape_in_delay = False, at_connect = Connected, at_raw_ok = True, at_end = SessionResult (Inl BrokenPipe)\<rparr>;
       b = a\<lparr>at_escape_in_delay := True\<rparr>
   in \<exists>x t. connection_loop False [a, b] new_loop = Inl (x, t) \<and> \<not> raw_now t
        \<and> stdout_bytes t \<in> {TERM_RESET_MODES, TERM_RESET_SCREEN @ TERM_RESET_MODES}"
proof -
  let ?a = "\<lparr>at_escape_in_delay = False, at_connect = Connected, at_raw_ok = True, at_end = SessionResult (Inl BrokenPipe)\<rparr>"
  let ?run = "connection_loop False [?a, ?a\<lparr>at_escape_in_delay := True\<rparr>] new_loop"
  have "\<exists>x t. ?run = Inl (x, t) \<and> raw_ever_enabled t"
    by (simp add: connect_attempt_def enter_raw_def finish_session_def quit_escape_def restore_terminal_def
        new_loop_def new_terminal_def Let_def)
  then obtain x t where r: "?run = Inl (x, t)" "raw_ever_enabled t" by blast
  have "\<not> raw_now t \<and> stdout_bytes t \<in> {TERM_RESET_MODES, TERM_RESET_SCREEN @ TERM_RESET_MODES}"
    using terminal_always_restored[OF r(1), of True] r(2) by simp
  then show ?thesis unfolding Let_def using r(1) by blast
qed

text \<open>C28 (liveness): an interactive client reconnects after every loss that is reported to it, and only a session
  that ends otherwise ends it.  After any number of failed connects, handshakes and timeouts and of
  sessions that returned an error other than \<open>ConnectionAborted\<close>, the client is still in its loop; and what
  the next session does to it is decided by how \<open>run_session\<close> ends: if it fails before its tasks, or its
  control reader or its PTY receiver is the first task to end and ends with an error (as
  \<open>lost_connection_is_reported\<close> has it for a dead connection), the client goes on in its loop; if it ends in any
  other way, the process exits with code 0, the terminal out of raw mode and the modes reset exactly
  once.  The latter includes a loss that a failed write of the stdin task or the control sender shows first
  (\<open>failed_write_exits_cleanly\<close>): then the client does give up.  There is a terminal, and \<open>~.\<close> is not typed.\<close>

theorem interactive_client_reconnects:
  assumes "list_all transient as"
    and "\<not> at_escape_in_delay a" and "at_connect a = Connected" and "at_raw_ok a"
    and "run_session_result False how = Some r" and "at_end a = SessionResult r"
  shows "\<exists>ls'. connection_loop False as new_loop = Inr ls' \<and>
    (if reports_loss how then \<exists>ls''. connection_loop False (as @ [a]) new_loop = Inr ls''
     else connection_loop False (as @ [a]) new_loop =
       Inl (ExitCode 0, \<lparr>raw_ever_enabled = True, raw_now = False, stdout_bytes = TERM_RESET_MODES\<rparr>))"
proof -
  obtain ls' where ls': "connection_loop False as new_loop = Inr ls'" using transient_run[OF assms(1)] by blast
  have "list_all (\<lambda>a. at_raw_ok a = True) as" using assms(1) by (auto simp: list_all_iff transient_def)
  from connection_loop_ok[OF loop_ok_new[of False True] this] have ok: "loop_ok False True ls'" by (simp add: ls')
  show ?thesis
  proof (cases "reports_loss how")
    case True
    then have "transient a" using assms(2-6) reports_loss_result[OF assms(5)] by (auto simp: transient_def)
    then show ?thesis using ls' True transient_continues[of a ls'] by (auto simp: connection_loop_append)
  next
    case False
    then have "r = Inr () \<or> r = Inl ConnectionAborted"
      using reports_loss_result[OF assms(5)] by (cases r) auto
    with assms(2-4,6) ok have "connect_attempt False a ls' =
        Inl (ExitCode 0, \<lparr>raw_ever_enabled = True, raw_now = False, stdout_bytes = TERM_RESET_MODES\<rparr>)"
      by (auto simp: connect_attempt_def enter_raw_def finish_session_def restore_terminal_def loop_ok_def Let_def)
    then show ?thesis using ls' False by (simp add: connection_loop_append)
  qed
qed

text \<open>A timeout, a session whose PTY receiver meets the end of the connection, and the server's \<open>Disconnect\<close>.\<close>

definition sample_attempt :: "connecting \<Rightarrow> unit io_result \<Rightarrow> attempt" where
  "sample_attempt c r = \<lparr>at_escape_in_delay = False, at_connect = c, at_raw_ok = True, at_end = SessionResult r\<rparr>"

theorem interactive_client_reconnects_witness:
  "(\<exists>ls. connection_loop False [sample_attempt ConnectTimeout (Inr ()), sample_attempt Connected (Inl BrokenPipe)] new_loop = Inr ls)
   \<and> connection_loop False [sample_attempt ConnectTimeout (Inr ()), sample_attempt Connected (Inl ConnectionAborted)] new_loop =
      Inl (ExitCode 0, \<lparr>raw_ever_enabled = True, raw_now = False, stdout_bytes = TERM_RESET_MODES\<rparr>)"
proof -
  have first: "list_all transient [sample_attempt ConnectTimeout (Inr ())]"
    by (simp add: transient_def sample_attempt_def)
  note thm1 = interactive_client_reconnects[OF first, of "sample_attempt Connected (Inl BrokenPipe)"
      "Inr (PtyRecvTask (Inl BrokenPipe))" "Inl BrokenPipe"]
  note thm2 = interactive_client_reconnects[OF first, of "sample_attempt Connected (Inl ConnectionAborted)"
      "Inr (CtrlReaderTask (Inl ConnectionAborted))" "Inl ConnectionAborted"]
  show ?thesis using thm1 thm2 by (simp add: sample_attempt_def)
qed

text \<open>C39 (termination): a remote command makes one attempt only, whatever would come after, and its
  exit code follows from how the attempt ends, with or without a terminal: 1 when no connection was made, when
  \<open>run_session\<close> failed before its tasks, and when the control reader or the PTY receiver was the first task to
  end, with an error that is not the server's \<open>Disconnect\<close>; 0 when the first task ended in any other way, which is
  how a session ends by itself but also, since a failed write of the control sender counts as a clean end
  (\<open>failed_write_exits_cleanly\<close>), how one can end that broke off; and 0 for \<open>~.\<close>.\<close>

theorem remote_command_runs_once:
  assumes "run_session_result True how = Some r"
  shows "\<exists>t u. connection_loop True (a\<lparr>at_end := SessionResult r\<rparr> # as) new_loop =
      Inl (case at_connect a of
             EscapeWhileConnecting \<Rightarrow> ReturnOk
           | Connected \<Rightarrow> ExitCode (if reports_loss how then 1 else 0)
           | _ \<Rightarrow> ExitCode 1, t)
    \<and> connection_loop True (a\<lparr>at_end := EscapeInSession\<rparr> # as) new_loop =
      Inl (case at_connect a of
             EscapeWhileConnecting \<Rightarrow> ReturnOk
           | Connected \<Rightarrow> ExitCode 0
           | _ \<Rightarrow> ExitCode 1, u)"
  unfolding reports_loss_result[OF assms]
  by (cases r) (auto simp: new_loop_def connect_attempt_def quit_escape_def enter_raw_def finish_session_def Let_def
      split: connecting.split)

text \<open>A command whose connection dies: what the PTY receiver reports, and what the control sender does.\<close>

theorem remote_command_runs_once_witness:
  "\<exists>t u. connection_loop True [sample_attempt Connected (Inl BrokenPipe)] new_loop = Inl (ExitCode 1, t)
     \<and> connection_loop True [sample_attempt Connected (Inr ())] new_loop = Inl (ExitCode 0, u)"
proof -
  obtain t where "connection_loop True [sample_attempt Connected (Inl BrokenPipe)] new_loop = Inl (ExitCode 1, t)"
    using remote_command_runs_once[of "Inr (PtyRecvTask (Inl BrokenPipe))" "Inl BrokenPipe" "sample_attempt Connected (Inr ())" "[]"]
    by (auto simp: sample_attempt_def)
  moreover obtain u where "connection_loop True [sample_attempt Connected (Inr ())] new_loop = Inl (ExitCode 0, u)"
    using remote_command_runs_once[of "Inr CtrlSendTask" "Inr ()" "sample_attempt Connected (Inr ())" "[]"]
    by (auto simp: sample_attempt_def)
  ultimately show ?thesis by blast
qed

text \<open>(functional): at the end of its input the stdin task has sent all of it, numbered from 1; for a
  remote command it then sends one \<open>VEOF\<close> and keeps the stream open, for a shell it ends.\<close>

theorem stdin_task_sends_all:
  "\<exists>st s. stdin_task cmd False ps True (new_session sid pk) \<lparr>outgoing = [], budget = None\<rparr> = Some (\<not> cmd, st, s)
     \<and> outgoing s = concat (map chunk_bytes (numbered (ps @ (if cmd then [[4]] else []))))"
  using stdin_task_unlimited[of "new_session sid pk" "new_stream 0 Terminal" "[]" "\<lparr>outgoing = [], budget = None\<rparr>" cmd ps]
  by (simp add: new_session_def new_stream_def numbered_def)

end
