(* ===== verification/Shell_Output.thy ===== *)
theory Shell_Output
  imports Delivery Client_Conn
begin

text \<open>
  The shell's output end to end: the server of \<open>src/bin/etrs.rs\<close> with all its task steps, the PTY stream
  of its current connection, and the PTY receiver and stdout task of the client in \<open>src/bin/etr.rs\<close>.
  The connection of the two is the handshake: what the client presents is its own watermark.

  A step is a step of the server, the client reading one chunk, the stdout task writing one, or the end of
  the client's \<open>run_session\<close>, which aborts its tasks and drops the channel between them.  The
  client reads the chunks the server has written on the current connection in order, possibly none
  of the last ones when the connection is lost; it does not read while a handshake is under way.
\<close>

section \<open>The joint system\<close>

text \<open>\<open>jo_session\<close>: the client is in the \<open>run_session\<close> whose opening was accepted last; \<open>jo_queue\<close>: the
  channel to its stdout task; \<open>jo_read\<close>: how many of the chunks written on the connection it has read.\<close>

record joint =
  jo_server :: server
  jo_client :: SessionState
  jo_session :: bool
  jo_read :: nat
  jo_queue :: "bytes list"
  jo_printed :: "bytes list"

definition new_joint :: "bytes \<Rightarrow> string \<Rightarrow> bool \<Rightarrow> joint" where
  "new_joint sid pk fd =
     \<lparr>jo_server = new_server sid pk fd, jo_client = new_session sid pk, jo_session = False, jo_read = 0,
      jo_queue = [], jo_printed = []\<rparr>"

datatype joint_event = Server server_event | ClientRecv | StdoutWrite | ClientEnds

definition client_recv :: "joint \<Rightarrow> joint option" where
  "client_recv j =
     (if jo_session j \<and> sv_pending (jo_server j) = None \<and> jo_read j < length (sv_written (jo_server j))
      then (case pty_recv_step (Inr (Some (sv_written (jo_server j) ! jo_read j))) (jo_client j) (jo_queue j) of
              (_, st, q) \<Rightarrow> Some (j\<lparr>jo_client := st, jo_queue := q, jo_read := Suc (jo_read j)\<rparr>))
      else None)"

text \<open>One chunk from the channel to stdout: the task does not yield between taking and writing it.\<close>

definition stdout_write :: "joint \<Rightarrow> joint option" where
  "stdout_write j =
     (case (jo_session j, jo_queue j) of
        (True, d # q) \<Rightarrow> Some (j\<lparr>jo_queue := q, jo_printed := jo_printed j @ [d]\<rparr>)
      | _ \<Rightarrow> None)"

text \<open>\<open>run_session\<close> returns: its tasks are aborted, and what is in the channel is gone.\<close>

definition client_ends :: "joint \<Rightarrow> joint option" where
  "client_ends j = (if jo_session j then Some (j\<lparr>jo_session := False, jo_queue := []\<rparr>) else None)"

text \<open>A step of the server.  The one client opens a connection only after its last \<open>run_session\<close> has
  returned; when the opening is accepted, the new one has a channel of its own.\<close>

definition joint_server :: "joint \<Rightarrow> server_event \<Rightarrow> server \<Rightarrow> joint option" where
  "joint_server j e sv =
     (if sv_pending (jo_server j) = None \<and> sv_pending sv \<noteq> None
      then (if jo_session j then None else Some (j\<lparr>jo_server := sv, jo_session := True, jo_queue := []\<rparr>))
      else Some (j\<lparr>jo_server := sv, jo_read := (if e = Install then 0 else jo_read j)\<rparr>))"

lemma joint_server_received [simp]:
  "joint_server j (Received sq data) (pty_reader_step sq data (jo_server j)) =
     Some (j\<lparr>jo_server := pty_reader_step sq data (jo_server j)\<rparr>)"
  by (cases "sv_pending (jo_server j)") (simp_all add: joint_server_def pty_reader_step_def)

fun joint_step ::
    "(bytes \<Rightarrow> Envelope option) \<Rightarrow> (Envelope \<Rightarrow> bytes) \<Rightarrow> joint \<Rightarrow> joint_event \<Rightarrow> joint option" where
  "joint_step decode encode j (Server e) =
     Option.bind (server_step decode encode (jo_server j) e) (joint_server j e)"
| "joint_step decode encode j ClientRecv = client_recv j"
| "joint_step decode encode j StdoutWrite = stdout_write j"
| "joint_step decode encode j ClientEnds = client_ends j"

text \<open>What is left out of account: handshakes that race with the PTY reader (\<open>quiet\<close>), more than
  4 MiB of unacknowledged output, a full stdout queue, and a \<open>run_session\<close> that returns before its
  stdout task has written what was received (\<open>ended_session_loses_output\<close>).  The holder of the credentials is one client,
  so an accepted \<open>SessionOpen\<close> carries its watermark, and a heartbeat one it has had.\<close>

fun honest :: "(bytes \<Rightarrow> Envelope option) \<Rightarrow> server \<Rightarrow> u64 option \<Rightarrow> server_event \<Rightarrow> bool" where
  "honest decode sv w (PtyRead d) \<longleftrightarrow>
     (case streams (sv_session sv) 0 of
        None \<Rightarrow> True | Some s \<Rightarrow> hist_total (send_history s) + length d \<le> unat MAX_HISTORY_BYTES)"
| "honest decode sv w (OpenSession conn peer t ctrl s) \<longleftrightarrow>
     (case read_session_open decode ctrl of
        Inl _ \<Rightarrow> True
      | Inr (so, _) \<Rightarrow> authenticated (sv_session sv) so \<longrightarrow> so_last_received_seq so 0 = w)"
| "honest decode sv w (CtrlMsg m) \<longleftrightarrow>
     (case m of
        Inr (Some env) \<Rightarrow>
          (case payload env of
             Some (PHeartbeat hb) \<Rightarrow>
               (case (hb_last_received_seq hb 0, w) of
                  (Some a, Some b) \<Rightarrow> a \<le> b | (Some _, None) \<Rightarrow> False | (None, _) \<Rightarrow> True)
           | _ \<Rightarrow> True)
      | _ \<Rightarrow> True)"
| "honest decode sv w _ \<longleftrightarrow> True"

fun calm :: "(bytes \<Rightarrow> Envelope option) \<Rightarrow> joint \<Rightarrow> joint_event \<Rightarrow> bool" where
  "calm decode j (Server e) \<longleftrightarrow>
     quiet (jo_server j) e \<and> honest decode (jo_server j) (last_received_map (jo_client j) 0) e"
| "calm decode j ClientRecv \<longleftrightarrow> length (jo_queue j) < STDOUT_CHANNEL"
| "calm decode j StdoutWrite \<longleftrightarrow> True"
| "calm decode j ClientEnds \<longleftrightarrow> jo_queue j = []"

section \<open>The invariant\<close>

text \<open>\<open>k\<close> chunks have reached the client, which has read \<open>rd\<close> of those written on the connection.  The
  history still holds everything from \<open>k\<close> on; what is written but not read, queued and held is, while a
  connection is open, exactly what the client does not have yet.\<close>

definition out_ok :: "server \<Rightarrow> nat \<Rightarrow> nat \<Rightarrow> bool" where
  "out_ok sv k rd \<longleftrightarrow>
     (\<exists>s j. history_at sv s j \<and> j \<le> k) \<and> k \<le> length (sv_output sv) \<and> rd \<le> length (sv_written sv)
     \<and> prefix (drop rd (sv_written sv)) (drop k (numbered (sv_output sv)))
     \<and> (case sv_pending sv of
          Some p \<Rightarrow> sv_holding sv = None \<and> pd_replays p = drop k (numbered (sv_output sv))
            \<and> (pd_installed p \<longrightarrow> sv_pty_tx sv = Some [] \<and> sv_written sv = [])
        | None \<Rightarrow>
            (case sv_pty_tx sv of
               None \<Rightarrow> True
             | Some q \<Rightarrow> drop rd (sv_written sv) @ q @ the_list (sv_holding sv) = drop k (numbered (sv_output sv))))"

definition joint_at :: "joint \<Rightarrow> nat \<Rightarrow> bool" where
  "joint_at j k \<longleftrightarrow>
     out_ok (jo_server j) k (jo_read j) \<and> jo_printed j @ jo_queue j = take k (sv_output (jo_server j))
     \<and> (\<not> jo_session j \<longrightarrow> jo_queue j = [])
     \<and> (\<exists>r. streams (jo_client j) 0 = Some r \<and> next_in_seq r = word_of_nat (Suc k))"

definition joint_ok :: "joint \<Rightarrow> bool" where
  "joint_ok j \<longleftrightarrow> (\<exists>k. joint_at j k)"

lemma out_ok_history: "out_ok sv k rd \<Longrightarrow> \<exists>s j. history_at sv s j \<and> j \<le> k"
  by (simp add: out_ok_def)

lemma history_at_ack_to:
  assumes h: "history_at sv s j" "j \<le> k" and k: "k \<le> length (sv_output sv)"
    and st: "sv_session sv' = apply_server_acks (sv_session sv) acks" and out: "sv_output sv' = sv_output sv"
    and acks: "\<And>a. acks 0 = Some a \<Longrightarrow> a \<le> word_of_nat k"
  shows "\<exists>s' j'. history_at sv' s' j' \<and> j' \<le> k"
proof (cases "acks 0")
  case None
  then have "history_at sv' s j" using h by (simp add: history_at_def st out apply_server_acks_def)
  then show ?thesis using h by blast
next
  case (Some a)
  have len: "length (sv_output sv) < 2 ^ 64 - 2" using h by (simp add: history_at_def)
  then have a: "unat a \<le> k"
    using acks[OF Some] k by (simp add: word_le_nat_alt unat_of_nat)
  have "send_history (acknowledge_up_to s a) = drop (max j (unat a)) (numbered (sv_output sv))"
    using hist.tracks_ack[of s "sv_output sv" "unat a" j] h a k len by (simp add: history_at_def)
  then have "history_at sv' (acknowledge_up_to s a) (max j (unat a))"
    using h a k hist.invar_ack[of s a] by (auto simp: history_at_def st out apply_server_acks_def Some)
  then show ?thesis using h(2) a by (metis max.bounded_iff)
qed

lemma replays_from_watermark:
  assumes h: "history_at sv s j" and k: "j \<le> k" "k \<le> length (sv_output sv)" and w: "peer 0 = Some (word_of_nat k)"
  shows "(case collect_replays (sv_session sv) peer 0 of None \<Rightarrow> [] | Some cs \<Rightarrow> cs) =
    drop k (numbered (sv_output sv))"
proof -
  have "replay_from s (word_of_nat k) = drop (max j k) (numbered (sv_output sv))"
    using h k by (intro hist.replay_missing) (simp_all add: history_at_def)
  then show ?thesis using h k w by (simp add: collect_replays_def history_at_def Let_def)
qed

lemma history_at_read:
  assumes h: "history_at sv s j" and d: "length d \<le> 4096" and room: "length (sv_output sv) < 2 ^ 64 - 3"
    and fits: "hist_total (send_history s) + length d \<le> 4194304"
    and send: "send_chunk (sv_session sv) d = Some (q, st)"
    and sv': "sv_session sv' = st" "sv_output sv' = sv_output sv @ [d]"
  shows "\<exists>s'. history_at sv' s' j"
proof -
  let ?q = "word_of_nat (Suc (length (sv_output sv))) :: u64"
  let ?s = "s\<lparr>next_out_seq := next_out_seq s + 1\<rparr>"
  have st: "streams st 0 = Some (record_send ?s ?q d)"
    using send h by (auto simp: send_chunk_def stream_mut_def history_at_def Let_def)
  have ok: "hist_ok ?s" "vec_ok d" using h d by (simp_all add: history_at_def hist_ok_def vec_ok_def)
  have "send_history (record_send ?s ?q d) = drop j (numbered (sv_output sv @ [d]))"
    using hist.tracks_record_room[OF ok, of j "sv_output sv"] h fits by (simp add: history_at_def)
  moreover have "next_out_seq (record_send ?s ?q d) = word_of_nat (Suc (Suc (length (sv_output sv))))"
    using h by (simp add: record_send_def Let_def history_at_def split: prod.split)
  ultimately have "history_at sv' (record_send ?s ?q d) j"
    using st room h hist.invar_record[OF ok] by (simp add: history_at_def sv')
  then show ?thesis by blast
qed

text \<open>Steps that leave the output alone.\<close>

lemma out_ok_frame:
  assumes ok: "out_ok sv k rd" and h: "\<exists>s j. history_at sv' s j \<and> j \<le> k"
    and eq: "sv_output sv' = sv_output sv" "sv_pending sv' = sv_pending sv" "sv_pty_tx sv' = sv_pty_tx sv"
      "sv_written sv' = sv_written sv" "sv_holding sv' = sv_holding sv"
  shows "out_ok sv' k rd"
  using ok h by (auto simp: out_ok_def eq split: option.splits)

lemma history_at_same:
  "sv_session sv' = sv_session sv \<Longrightarrow> sv_output sv' = sv_output sv \<Longrightarrow> history_at sv' s j = history_at sv s j"
  by (simp add: history_at_def)

lemma out_ok_same:
  assumes "out_ok sv k rd" and "sv_session sv' = sv_session sv" "sv_output sv' = sv_output sv"
  shows "\<exists>s j. history_at sv' s j \<and> j \<le> k"
  using out_ok_history[OF assms(1)] history_at_same[OF assms(2,3)] by simp

lemma out_ok_open:
  assumes ok: "out_ok sv k rd" and q: "sv_pending sv = None" "sv_holding sv = None"
    and honest: "honest decode sv (Some (word_of_nat k)) (OpenSession conn peer t ctrl s)"
    and open_: "open_session decode encode conn peer t ctrl s sv = (res, sv')"
  shows "out_ok sv' k rd"
proof (cases "\<exists>so r. \<not> t \<and> read_session_open decode ctrl = Inr (so, r) \<and> authenticated (sv_session sv) so")
  case False
  then have "sv' = sv" using open_ by (auto simp: open_session_def split: if_splits sum.splits)
  then show ?thesis using ok by simp
next
  case True
  then obtain so r where so: "\<not> t" "read_session_open decode ctrl = Inr (so, r)" "authenticated (sv_session sv) so"
    by blast
  have w: "so_last_received_seq so 0 = Some (word_of_nat k)" using honest so by simp
  have sess: "sv_session sv' = apply_server_acks (sv_session sv) (so_last_received_seq so)"
    and same: "sv_output sv' = sv_output sv" "sv_pty_tx sv' = sv_pty_tx sv" "sv_written sv' = sv_written sv"
      "sv_holding sv' = sv_holding sv"
    and pend: "sv_pending sv' = None \<or> (\<exists>p. sv_pending sv' = Some p \<and> \<not> pd_installed p \<and>
      pd_replays p = (case collect_replays (sv_session sv') (so_last_received_seq so) 0 of None \<Rightarrow> [] | Some cs \<Rightarrow> cs))"
    using open_ so q(1)
    by (auto simp: open_session_def fst_resume_session Let_def split: if_splits sum.splits prod.splits)
  obtain x j where "history_at sv x j" "j \<le> k" using out_ok_history[OF ok] by blast
  moreover have k: "k \<le> length (sv_output sv)" using ok by (simp add: out_ok_def)
  ultimately obtain x' j' where h': "history_at sv' x' j'" "j' \<le> k"
    using history_at_ack_to[OF _ _ _ sess same(1)] w by (metis option.inject order_refl)
  have "(case collect_replays (sv_session sv') (so_last_received_seq so) 0 of None \<Rightarrow> [] | Some cs \<Rightarrow> cs)
      = drop k (numbered (sv_output sv))"
    using replays_from_watermark[OF h', of "so_last_received_seq so"] w k same(1) by simp
  then show ?thesis using ok pend h' q by (auto simp: out_ok_def same split: option.splits)
qed

lemma out_ok_read:
  assumes ok: "out_ok sv k rd" and q: "sv_pending sv = None" "length (sv_output sv) < 2 ^ 64 - 3"
    and honest: "honest decode sv w (PtyRead d)" and step: "pty_read d sv = Some sv'"
  shows "out_ok sv' k rd"
proof -
  obtain s j where h: "history_at sv s j" "j \<le> k" using out_ok_history[OF ok] by blast
  obtain sq st' where sv': "sv_holding sv = None" "length d \<le> 4096"
    "send_chunk (sv_session sv) d = Some (sq, st')"
    "sv' = sv\<lparr>sv_session := st', sv_holding := Some (sq, d), sv_output := sv_output sv @ [d]\<rparr>"
    using step by (cases "sv_holding sv") (auto simp: pty_read_def split: if_splits option.splits)
  have sq: "sq = word_of_nat (Suc (length (sv_output sv)))"
    using history_at_send[OF h(1) sv'(2) q(2) sv'(3), of sv'] by (simp add: sv'(4))
  have "hist_total (send_history s) + length d \<le> 4194304" using honest h by (simp add: history_at_def)
  from history_at_read[OF h(1) sv'(2) q(2) this sv'(3), of sv'] have "\<exists>s. history_at sv' s j"
    by (simp add: sv'(4))
  moreover have k: "k \<le> length (sv_output sv)" using ok by (simp add: out_ok_def)
  ultimately show ?thesis
    using ok q(1) sv'(1) h(2)
    by (auto simp: out_ok_def sv'(4) sq numbered_snoc the_list_def split: option.splits)
qed

lemma out_ok_ctrl:
  assumes ok: "out_ok sv k rd" and honest: "honest decode sv (Some (word_of_nat k)) (CtrlMsg m)"
  shows "out_ok (snd (ctrl_reader_step m sv)) k rd"
proof (cases "\<exists>env hb. m = Inr (Some env) \<and> payload env = Some (PHeartbeat hb)")
  case True
  then obtain env hb where m: "m = Inr (Some env)" "payload env = Some (PHeartbeat hb)" by blast
  let ?sv = "sv\<lparr>sv_session := apply_server_acks (sv_session sv) (hb_last_received_seq hb)\<rparr>"
  obtain s j where h: "history_at sv s j" "j \<le> k" using out_ok_history[OF ok] by blast
  have "\<exists>s' j'. history_at ?sv s' j' \<and> j' \<le> k"
  proof (rule history_at_ack_to[OF h])
    show "k \<le> length (sv_output sv)" using ok by (simp add: out_ok_def)
    show "a \<le> word_of_nat k" if "hb_last_received_seq hb 0 = Some a" for a using honest m that by simp
  qed simp_all
  then have "out_ok ?sv k rd" by (rule out_ok_frame[OF ok]) simp_all
  then show ?thesis by (simp add: ctrl_reader_step_def m)
next
  case False
  then have "sv_session (snd (ctrl_reader_step m sv)) = sv_session sv \<and> sv_output (snd (ctrl_reader_step m sv)) = sv_output sv
    \<and> sv_pending (snd (ctrl_reader_step m sv)) = sv_pending sv \<and> sv_pty_tx (snd (ctrl_reader_step m sv)) = sv_pty_tx sv
    \<and> sv_written (snd (ctrl_reader_step m sv)) = sv_written sv \<and> sv_holding (snd (ctrl_reader_step m sv)) = sv_holding sv"
    by (auto simp: ctrl_reader_step_def split: sum.splits option.splits Payload.splits)
  then show ?thesis using out_ok_frame[OF ok out_ok_same[OF ok]] by simp
qed

lemma prefix_step: "prefix (c # x) y \<Longrightarrow> prefix x (tl y)"
  by (cases y) auto

lemma out_ok_step:
  assumes ok: "out_ok sv k rd" and q: "quiet sv e" and honest: "honest decode sv (Some (word_of_nat k)) e"
    and step: "server_step decode encode sv e = Some sv'"
  shows "out_ok sv' k (if e = Install then 0 else rd)"
proof (cases e)
  case (OpenSession conn peer t ctrl s)
  obtain res sv1 where o: "open_session decode encode conn peer t ctrl s sv = (res, sv1)" by fastforce
  show ?thesis
    using out_ok_open[OF ok _ _ _ o] step q honest by (auto simp: OpenSession o split: if_splits)
next
  case (PtyRead d)
  then show ?thesis using out_ok_read[OF ok] step q honest by simp
next
  case (CtrlMsg m)
  then show ?thesis using out_ok_ctrl[OF ok] step honest by (auto split: if_splits)
next
  case (Received sq d)
  obtain s j where h: "history_at sv s j" "j \<le> k" using out_ok_history[OF ok] by blast
  have sv': "sv' = pty_reader_step sq d sv" using step by (auto simp: Received split: if_splits)
  have "history_at sv' (s\<lparr>next_in_seq := sq + 1\<rparr>) j"
    using h(1) by (simp add: history_at_def sv' pty_reader_step_def receive_chunk_def stream_mut_def hist_ok_def)
  then show ?thesis
    using h(2) by (auto simp: Received intro!: out_ok_frame[OF ok]) (auto simp: sv' pty_reader_step_def)
next
  case QueueReplays
  then obtain p where p: "sv_pending sv = Some p" "pd_installed p" "sv_pty_tx sv = Some []" "sv_written sv = []"
    "sv' = sv\<lparr>sv_pty_tx := Some (fold (try_send PTY_CHANNEL) (pd_replays p) []), sv_pending := None\<rparr>"
    using step ok by (auto simp: queue_replays_def out_ok_def split: option.splits if_splits)
  have "fold (try_send PTY_CHANNEL) (pd_replays p) [] = pd_replays p"
    using q p(1) by (simp add: QueueReplays fold_try_send)
  moreover have "\<exists>s j. history_at sv' s j \<and> j \<le> k" by (rule out_ok_same[OF ok]) (simp_all add: p)
  ultimately show ?thesis using ok p QueueReplays by (auto simp: out_ok_def the_list_def)
next
  case PtyForward
  then obtain c where c: "sv_pending sv = None" "sv_holding sv = Some c"
    and sv': "sv' = sv\<lparr>sv_holding := None\<rparr> \<and> sv_pty_tx sv = None \<or>
      (\<exists>x. sv_pty_tx sv = Some x \<and> sv' = sv\<lparr>sv_holding := None, sv_pty_tx := Some (x @ [c])\<rparr>)"
    using step q by (simp add: pty_forward_def split: option.splits if_splits)
  have "\<exists>s j. history_at sv' s j \<and> j \<le> k" by (rule out_ok_same[OF ok]) (use sv' in auto)
  with ok c sv' PtyForward show ?thesis by (auto simp: out_ok_def the_list_def)
next
  case Install
  then obtain p where p: "sv_pending sv = Some p" "sv_pending sv' = Some (p\<lparr>pd_installed := True\<rparr>)"
    "sv_session sv' = sv_session sv" "sv_output sv' = sv_output sv" "sv_holding sv' = sv_holding sv"
    "sv_pty_tx sv' = Some []" "sv_written sv' = []"
    using step by (auto simp: install_connection_def Let_def split: option.splits if_splits prod.splits)
  have "\<exists>s j. history_at sv' s j \<and> j \<le> k" by (rule out_ok_same[OF ok p(3,4)])
  then show ?thesis using ok p Install by (simp add: out_ok_def)
next
  case PtyWrite
  then obtain c x where c: "sv_pending sv = None" "sv_pty_tx sv = Some (c # x)"
    and sv': "sv' = sv\<lparr>sv_pty_tx := Some x, sv_written := sv_written sv @ [c]\<rparr>"
    using step by (auto simp: pty_writer_step_def split: option.splits list.splits)
  have "\<exists>s j. history_at sv' s j \<and> j \<le> k" by (rule out_ok_same[OF ok]) (simp_all add: sv')
  moreover have all: "drop rd (sv_written sv) @ (c # x) @ the_list (sv_holding sv) = drop k (numbered (sv_output sv))"
    using ok c by (simp add: out_ok_def)
  then have "prefix (drop rd (sv_written sv) @ [c]) (drop k (numbered (sv_output sv)))"
    by (metis append.assoc append_Cons append_Nil prefixI)
  ultimately show ?thesis using ok c PtyWrite by (simp add: out_ok_def sv')
next
  case EndConnection
  then have sv': "sv' = end_connection sv" using step by simp
  have "\<exists>s j. history_at sv' s j \<and> j \<le> k"
    by (rule out_ok_same[OF ok]) (simp_all add: sv' end_connection_def)
  then show ?thesis using ok EndConnection by (simp add: out_ok_def sv' end_connection_def)
next
  case SendHeartbeat
  then have "sv_session sv' = sv_session sv \<and> sv_output sv' = sv_output sv \<and> sv_pending sv' = sv_pending sv
    \<and> sv_pty_tx sv' = sv_pty_tx sv \<and> sv_written sv' = sv_written sv \<and> sv_holding sv' = sv_holding sv"
    using step by (auto simp: heartbeat_step_def split: option.splits if_splits)
  then show ?thesis using out_ok_frame[OF ok out_ok_same[OF ok]] SendHeartbeat by simp
next
  case ShellExit
  then have "sv_session sv' = sv_session sv \<and> sv_output sv' = sv_output sv \<and> sv_pending sv' = sv_pending sv
    \<and> sv_pty_tx sv' = sv_pty_tx sv \<and> sv_written sv' = sv_written sv \<and> sv_holding sv' = sv_holding sv"
    using step by (auto simp: shell_exit_def Let_def split: option.splits if_splits)
  then show ?thesis using out_ok_frame[OF ok out_ok_same[OF ok]] ShellExit by simp
qed

section \<open>The joint invariant\<close>

lemma server_step_output:
  assumes "server_step decode encode sv e = Some sv'"
  shows "prefix (sv_output sv) (sv_output sv')"
proof (cases e)
  case (OpenSession conn peer t ctrl s)
  obtain res sv1 where "open_session decode encode conn peer t ctrl s sv = (res, sv1)" by fastforce
  with open_session_parts[OF this] assms show ?thesis by (auto simp: OpenSession split: if_splits)
next
  case (CtrlMsg m)
  then have "sv' = snd (ctrl_reader_step m sv)" using assms by (auto split: if_splits)
  then show ?thesis by (cases m sv rule: ctrl_reader_cases) simp_all
qed (use assms in \<open>auto simp: task_defs Let_def split: if_splits option.splits list.splits prod.splits\<close>)

lemma take_prefix: "prefix xs ys \<Longrightarrow> k \<le> length xs \<Longrightarrow> take k ys = take k xs"
  by (auto simp: prefix_def)

lemma joint_watermark:
  assumes "joint_at j k"
  shows "last_received_map (jo_client j) 0 = Some (word_of_nat k)"
proof -
  have "k < 2 ^ 64 - 1" using assms by (auto simp: joint_at_def out_ok_def history_at_def)
  then show ?thesis using assms watermark_of by (auto simp: joint_at_def)
qed

lemma pending_by_open:
  assumes "server_step decode encode sv e = Some sv'" and "sv_pending sv = None" "sv_pending sv' \<noteq> None"
  shows "\<exists>conn peer t ctrl s. e = OpenSession conn peer t ctrl s"
proof (cases e)
  case (CtrlMsg m)
  then have "sv' = snd (ctrl_reader_step m sv)" using assms(1) by (auto split: if_splits)
  then show ?thesis using assms(2,3) by (cases m sv rule: ctrl_reader_cases) simp_all
qed (use assms in \<open>auto simp: task_defs Let_def split: if_splits option.splits list.splits prod.splits\<close>)

lemma joint_server_cases:
  assumes "joint_step decode encode j (Server e) = Some j'"
  obtains sv where "server_step decode encode (jo_server j) e = Some sv" "jo_server j' = sv"
    "jo_client j' = jo_client j" "jo_printed j' = jo_printed j"
    "jo_queue j' = (if jo_session j' \<and> \<not> jo_session j then [] else jo_queue j)"
    "jo_session j' = (jo_session j \<or> (sv_pending (jo_server j) = None \<and> sv_pending sv \<noteq> None))"
    "jo_read j' = (if e = Install then 0 else jo_read j)"
proof -
  obtain sv where sv: "server_step decode encode (jo_server j) e = Some sv" "joint_server j e sv = Some j'"
    using assms by (auto split: Option.bind_splits)
  show ?thesis
  proof (cases "sv_pending (jo_server j) = None \<and> sv_pending sv \<noteq> None")
    case True
    then have "e \<noteq> Install" using pending_by_open[OF sv(1)] by auto
    then show ?thesis using that[OF sv(1)] sv(2) True by (auto simp: joint_server_def split: if_splits)
  next
    case False
    then show ?thesis using that[OF sv(1)] sv(2) by (auto simp: joint_server_def)
  qed
qed

lemma joint_server_step:
  assumes at: "joint_at j k" and calm: "calm decode j (Server e)" and step: "joint_step decode encode j (Server e) = Some j'"
  shows "joint_at j' k"
proof -
  obtain sv where sv: "server_step decode encode (jo_server j) e = Some sv"
    and j': "jo_server j' = sv" "jo_client j' = jo_client j" "jo_printed j' = jo_printed j"
      "jo_queue j' = (if jo_session j' \<and> \<not> jo_session j then [] else jo_queue j)"
      "jo_session j' = (jo_session j \<or> (sv_pending (jo_server j) = None \<and> sv_pending sv \<noteq> None))"
      "jo_read j' = (if e = Install then 0 else jo_read j)"
    by (rule joint_server_cases[OF step])
  have queue: "jo_queue j' = jo_queue j" "\<not> jo_session j' \<Longrightarrow> jo_queue j' = []"
    using at j' by (auto simp: joint_at_def)
  have out: "out_ok (jo_server j) k (jo_read j)" using at by (simp add: joint_at_def)
  have q: "quiet (jo_server j) e" "honest decode (jo_server j) (Some (word_of_nat k)) e"
    using calm joint_watermark[OF at] by simp_all
  have "out_ok sv k (jo_read j')" using out_ok_step[OF out q sv] by (simp add: j'(6))
  moreover have "k \<le> length (sv_output (jo_server j))" using out by (simp add: out_ok_def)
  then have "take k (sv_output sv) = take k (sv_output (jo_server j))"
    using take_prefix[OF server_step_output[OF sv]] by simp
  ultimately show ?thesis using at queue by (simp add: joint_at_def j'(1-3))
qed

lemma joint_recv_step:
  assumes at: "joint_at j k" and room: "length (jo_queue j) < STDOUT_CHANNEL" and step: "client_recv j = Some j'"
  shows "joint_at j' (Suc k)"
proof -
  let ?sv = "jo_server j"
  let ?c = "sv_written ?sv ! jo_read j"
  have out: "out_ok ?sv k (jo_read j)" using at by (simp add: joint_at_def)
  have rd: "sv_pending ?sv = None" "jo_read j < length (sv_written ?sv)" "jo_session j"
    using step by (auto simp: client_recv_def split: if_splits)
  then have hd: "drop (jo_read j) (sv_written ?sv) = ?c # drop (Suc (jo_read j)) (sv_written ?sv)"
    by (simp add: Cons_nth_drop_Suc)
  have pre: "prefix (?c # drop (Suc (jo_read j)) (sv_written ?sv)) (drop k (numbered (sv_output ?sv)))"
    using out hd by (simp add: out_ok_def)
  then have k: "k < length (sv_output ?sv)" by (cases "k < length (sv_output ?sv)") auto
  have nth: "drop k (numbered (sv_output ?sv)) =
      (word_of_nat (Suc k), sv_output ?sv ! k) # drop (Suc k) (numbered (sv_output ?sv))"
    using k by (simp add: Cons_nth_drop_Suc[symmetric] nth_numbered)
  then have c: "?c = (word_of_nat (Suc k), sv_output ?sv ! k)"
    and pre': "prefix (drop (Suc (jo_read j)) (sv_written ?sv)) (drop (Suc k) (numbered (sv_output ?sv)))"
    using pre by simp_all
  have j': "j' = j\<lparr>jo_client := receive_chunk (jo_client j) (word_of_nat (Suc k)),
      jo_queue := jo_queue j @ [sv_output ?sv ! k], jo_read := Suc (jo_read j)\<rparr>"
    using step rd room by (simp add: client_recv_def c pty_recv_step_def try_send_def)
  have "\<exists>s i. history_at ?sv s i \<and> i \<le> Suc k" using out_ok_history[OF out] le_SucI by blast
  then have "out_ok ?sv (Suc k) (Suc (jo_read j))"
    using out pre' k rd nth hd by (auto simp: out_ok_def split: option.splits)
  moreover have "jo_printed j @ jo_queue j @ [sv_output ?sv ! k] = take (Suc k) (sv_output ?sv)"
    using at k by (simp add: joint_at_def take_Suc_conv_app_nth flip: append_assoc)
  moreover obtain r where "streams (jo_client j) 0 = Some r" using at by (auto simp: joint_at_def)
  ultimately show ?thesis using rd(3) by (simp add: joint_at_def j' receive_chunk_stream)
qed

lemma joint_ok_step:
  assumes "joint_ok j" and "calm decode j e" and "joint_step decode encode j e = Some j'"
  shows "joint_ok j'"
proof -
  obtain k where at: "joint_at j k" using assms(1) by (auto simp: joint_ok_def)
  show ?thesis
  proof (cases e)
    case (Server e')
    have "joint_at j' k" by (rule joint_server_step[OF at]) (use assms(2,3) Server in simp_all)
    then show ?thesis by (auto simp: joint_ok_def)
  next
    case ClientRecv
    then show ?thesis using joint_recv_step[OF at] assms(2,3) by (auto simp: joint_ok_def)
  next
    case StdoutWrite
    then obtain d q where "jo_queue j = d # q" "j' = j\<lparr>jo_queue := q, jo_printed := jo_printed j @ [d]\<rparr>"
      using assms(3) by (auto simp: stdout_write_def split: list.splits bool.splits)
    then have "joint_at j' k" using at by (simp add: joint_at_def)
    then show ?thesis by (auto simp: joint_ok_def)
  next
    case ClientEnds
    then have "joint_at j' k" using at assms(2,3) by (auto simp: client_ends_def joint_at_def split: if_splits)
    then show ?thesis by (auto simp: joint_ok_def)
  qed
qed

lemma joint_ok_new: "joint_ok (new_joint sid pk fd)"
proof -
  have "history_at (new_server sid pk fd) (new_stream 0 Terminal) 0"
    by (simp add: history_at_def new_server_def new_session_def new_stream_def hist_ok_def numbered_def
        word_le_nat_alt)
  then have "out_ok (new_server sid pk fd) 0 0" by (auto simp: out_ok_def new_server_def)
  then have "joint_at (new_joint sid pk fd) 0" by (simp add: joint_at_def new_joint_def new_session_def new_stream_def)
  then show ?thesis by (auto simp: joint_ok_def)
qed

interpretation joint: step_invariant "joint_step decode encode" "calm decode" joint_ok for decode encode
  by unfold_locales (rule joint_ok_step)

section \<open>Properties\<close>

text \<open>C4 (safety): what the client prints is the shell's output, exactly once and in order, across any
  number of lost connections and reconnects: at every moment it is a prefix of what was read from the
  PTY, and all of it once the connection is up and everything written has been read and printed.  The runs
  are those of one client, which opens a connection after its last \<open>run_session\<close> has returned, presents its
  own watermark in it and acknowledges in heartbeats what it has; in which handshakes do not race with
  the PTY reader and have at most 1000 chunks to replay; with at most 4 MiB unacknowledged and fewer than
  \<open>2 ^ 64 - 3\<close> chunks; whose stdout queue never overflows; and in which \<open>run_session\<close> returns only when its
  stdout task has printed what was received.  The lemmas \<open>race_loses_chunk\<close>, \<open>race_duplicates_chunk\<close>,
  \<open>race_reorders_chunks\<close>, \<open>queue_is_prefix\<close>, \<open>stdout_overflow_drops\<close> and \<open>ended_session_loses_output\<close> show
  that the code does lose, repeat or reorder output where these conditions fail.\<close>

theorem shell_output_exactly_once:
  assumes "run_steps (joint_step decode encode) (new_joint sid pk fd) es = Some j"
    and "run_allowed (joint_step decode encode) (calm decode) (new_joint sid pk fd) es"
  shows "prefix (jo_printed j) (sv_output (jo_server j)) \<and>
    (sv_pending (jo_server j) = None \<and> sv_pty_tx (jo_server j) = Some [] \<and> sv_holding (jo_server j) = None
       \<and> jo_read j = length (sv_written (jo_server j)) \<and> jo_queue j = []
     \<longrightarrow> jo_printed j = sv_output (jo_server j))"
proof -
  have "joint_ok j" by (rule joint.invar_run[OF joint_ok_new assms(2,1)])
  then obtain k where at: "joint_at j k" by (auto simp: joint_ok_def)
  then have t: "jo_printed j @ jo_queue j = take k (sv_output (jo_server j))" by (simp add: joint_at_def)
  then have "prefix (jo_printed j) (sv_output (jo_server j))"
    by (metis append_prefixD take_is_prefix)
  moreover have "jo_printed j = sv_output (jo_server j)"
    if "sv_pending (jo_server j) = None" "sv_pty_tx (jo_server j) = Some []" "sv_holding (jo_server j) = None"
      "jo_read j = length (sv_written (jo_server j))" "jo_queue j = []"
  proof -
    have "drop k (numbered (sv_output (jo_server j))) = []"
      using at that by (simp add: joint_at_def out_ok_def the_list_def)
    then show ?thesis using t that(5) by simp
  qed
  ultimately show ?thesis by blast
qed

text \<open>A run with a lost connection: the second chunk is written but never read, and replayed on the next
  connection.  The codec of the runs: an opening carries its watermark in its one byte, a reply starts
  with the byte 200.\<close>

definition decode_mark :: "bytes \<Rightarrow> Envelope option" where
  "decode_mark bs = Some (envelope_of
     (if hd bs = 200 then PSessionAccept \<lparr>sa_last_received_seq = [0 \<mapsto> ucast (last bs)]\<rparr>
      else PSessionOpen (sample_open\<lparr>so_last_received_seq := [0 \<mapsto> ucast (hd bs)]\<rparr>)))"

definition open_mark :: "u8 \<Rightarrow> joint_event" where
  "open_mark w = Server (OpenSession 1 ''::1'' False (Some \<lparr>incoming = [1, 0, 0, 0, 1, w], ending = Lost\<rparr>)
     \<lparr>outgoing = [], budget = None\<rparr>)"

definition sample_run :: "joint_event list" where
  "sample_run =
     [Server (PtyRead [65]), Server PtyForward, open_mark 0, Server Install, Server QueueReplays, Server PtyWrite,
      ClientRecv, StdoutWrite, Server (PtyRead [66]), Server PtyForward, Server PtyWrite, ClientEnds,
      Server EndConnection, open_mark 1, Server Install, Server QueueReplays, Server PtyWrite, ClientRecv, StdoutWrite]"

text \<open>A session that ends with a chunk in the channel to its stdout task: the chunk is acknowledged by the
  watermark of the next connection, so it is neither printed nor sent again.\<close>

definition unprinted_run :: "joint_event list" where
  "unprinted_run =
     [open_mark 0, Server Install, Server QueueReplays, Server (PtyRead [65]), Server PtyForward, Server PtyWrite,
      ClientRecv, ClientEnds, Server EndConnection, open_mark 1, Server Install, Server QueueReplays,
      Server (PtyRead [66]), Server PtyForward, Server PtyWrite, ClientRecv, StdoutWrite]"

lemmas joint_eval = sample_run_def unprinted_run_def joint_server_def client_ends_def open_mark_def decode_mark_def new_joint_def client_recv_def stdout_write_def
  pty_recv_step_def receive_chunk_def STDOUT_CHANNEL_def checked_pred_def hist_total_def
  acknowledge_up_to_def pty_writer_step_def word_le_nat_alt

lemma ended_session_loses_output:
  "map_option (\<lambda>j. (sv_output (jo_server j), jo_printed j, jo_queue j, sv_written (jo_server j)))
     (run_steps (joint_step decode_mark (\<lambda>_. [])) (new_joint [7] ''k'' True) unprinted_run) =
   Some ([[65], [66]], [[66]], [], [(2, [66])])"
  by (simp add: joint_eval server_eval)

theorem shell_output_exactly_once_witness:
  "\<exists>j. run_steps (joint_step decode_mark (\<lambda>_. [])) (new_joint [7] ''k'' True) sample_run = Some j
     \<and> jo_printed j = [[65], [66]] \<and> prefix (jo_printed j) (sv_output (jo_server j))"
proof -
  let ?run = "run_steps (joint_step decode_mark (\<lambda>_. [])) (new_joint [7] ''k'' True) sample_run"
  have "case ?run of None \<Rightarrow> False | Some j \<Rightarrow> jo_printed j = [[65], [66]]"
    by (simp add: joint_eval server_eval)
  then obtain j where j: "?run = Some j" "jo_printed j = [[65], [66]]" by (auto split: option.splits)
  have "run_allowed (joint_step decode_mark (\<lambda>_. [])) (calm decode_mark) (new_joint [7] ''k'' True) sample_run"
    by (simp add: joint_eval server_eval)
  from shell_output_exactly_once[OF j(1) this] j show ?thesis by blast
qed

end
