(* ===== verification/Handshake.thy ===== *)
theory Handshake
  imports Client_Conn
begin

text \<open>
  The two halves of the handshake put together: the opening \<open>run_session\<close> of \<open>src/bin/etr.rs\<close> writes is
  read by \<open>handle_connection\<close> of \<open>src/bin/etrs.rs\<close>, whose reply the client reads, and both sides find
  the chunks the other is missing.  The codec of the envelopes is a parameter.
\<close>

lemma write_replays_outgoing:
  assumes "budget s = None"
  shows "fst (write_replays cs s) = Inr () \<and>
    outgoing (snd (write_replays cs s)) = outgoing s @ concat (map chunk_bytes cs)"
  using assms
proof (induction cs arbitrary: s)
  case (Cons c cs)
  obtain sq d where c: "c = (sq, d)" by (cases c)
  obtain res s1 where w: "write_pty_chunk sq d s = (res, s1)" by fastforce
  have "res = Inr ()" "budget s1 = None" "outgoing s1 = outgoing s @ chunk_bytes (sq, d)"
    using write_pty_chunk_result[of sq d s] write_pty_chunk_budget[of sq d s] write_pty_chunk_outgoing[of sq d s]
      Cons.prems by (simp_all add: w)
  then show ?case using Cons.IH[of s1] by (simp add: c w)
qed simp

lemma replays_above_watermark:
  assumes "streams st 0 = Some x" and "hist_ok x" and "increasing (send_history x)" and "acks 0 = Some w"
  shows "(case collect_replays (apply_server_acks st acks) acks 0 of None \<Rightarrow> [] | Some cs \<Rightarrow> cs) =
    filter (\<lambda>(q, _). w < q) (send_history x)"
proof -
  have "replay_from (acknowledge_up_to x w) w = replay_from x w"
    using assms(2,3) by (rule hist.replay_after_ack) simp
  then show ?thesis
    using assms by (auto simp: collect_replays_def apply_server_acks_def Let_def replay_from_def)
qed

lemma send_session_open_unlimited:
  assumes "length (encode (envelope_of (PSessionOpen so))) \<le> MAX_CONTROL_MSG"
  shows "send_session_open encode so (Some \<lparr>outgoing = [], budget = None\<rparr>) =
    Inr \<lparr>outgoing = TAG_CONTROL # msg_bytes encode (envelope_of (PSessionOpen so)), budget = None\<rparr>"
  using write_msg_unlimited[where encode = encode, OF assms, of "[TAG_CONTROL]"]
  by (simp add: send_session_open_def write_all_def)

lemma read_session_open_of_msg:
  assumes "length (encode (envelope_of (PSessionOpen so))) \<le> MAX_CONTROL_MSG"
    and "decode (encode (envelope_of (PSessionOpen so))) = Some (envelope_of (PSessionOpen so))"
  shows "read_session_open decode
      (Some \<lparr>incoming = TAG_CONTROL # msg_bytes encode (envelope_of (PSessionOpen so)) @ rest, ending = e\<rparr>) =
    Inr (so, \<lparr>incoming = rest, ending = e\<rparr>)"
  using read_msg_of_msg[where encode = encode and decode = decode, OF assms, of rest e]
  by (simp add: read_session_open_def read_tag_Cons)

lemma read_session_accept_of_msg:
  assumes "length (encode (envelope_of (PSessionAccept sa))) \<le> MAX_CONTROL_MSG"
    and "decode (encode (envelope_of (PSessionAccept sa))) = Some (envelope_of (PSessionAccept sa))"
  shows "read_session_accept decode
      \<lparr>incoming = msg_bytes encode (envelope_of (PSessionAccept sa)) @ rest, ending = e\<rparr> =
    Inr (sa_last_received_seq sa, \<lparr>incoming = rest, ending = e\<rparr>)"
  using read_msg_of_msg[where encode = encode and decode = decode, OF assms, of rest e]
  by (simp add: read_session_accept_def)

lemma resume_pty_unlimited:
  assumes "streams st 0 = Some x" and "hist_ok x" and "increasing (send_history x)" and "acks 0 = Some w"
  shows "\<exists>s. fst (resume_pty acks (Some \<lparr>outgoing = [], budget = None\<rparr>) st) = Inr s
    \<and> outgoing s = TAG_PTY # concat (map chunk_bytes (filter (\<lambda>(q, _). w < q) (send_history x)))"
proof -
  let ?cs = "case collect_replays (apply_server_acks st acks) acks 0 of None \<Rightarrow> [] | Some cs \<Rightarrow> cs"
  have cs: "?cs = filter (\<lambda>(q, _). w < q) (send_history x)" by (rule replays_above_watermark[where acks = acks, OF assms])
  let ?s1 = "\<lparr>outgoing = [TAG_PTY], budget = None\<rparr>"
  obtain s2 where "write_replays ?cs ?s1 = (Inr (), s2)" "outgoing s2 = TAG_PTY # concat (map chunk_bytes ?cs)"
    using write_replays_outgoing[of ?s1 ?cs] by (cases "write_replays ?cs ?s1") auto
  then show ?thesis by (simp add: resume_pty_def Let_def write_all_def cs)
qed

lemma open_session_accepts:
  assumes "read_session_open decode ctrl = Inr (so, r)" and "authenticated (sv_session sv) so"
    and "length (encode (envelope_of (PSessionAccept \<lparr>sa_last_received_seq = last_received_map (sv_session sv)\<rparr>)))
      \<le> MAX_CONTROL_MSG"
    and "budget s = None"
  shows "\<exists>sv' p. open_session decode encode conn peer False ctrl s sv = (SessionOpened, sv')
    \<and> sv_pending sv' = Some p \<and> \<not> pd_installed p
    \<and> outgoing (pd_ctrl p) = outgoing s @ msg_bytes encode (envelope_of (PSessionAccept
        \<lparr>sa_last_received_seq = last_received_map (sv_session sv)\<rparr>))
    \<and> sv_active_conn sv' = sv_active_conn sv \<and> sv_holding sv' = sv_holding sv
    \<and> pd_replays p = (case collect_replays (apply_server_acks (sv_session sv) (so_last_received_seq so))
        (so_last_received_seq so) 0 of None \<Rightarrow> [] | Some cs \<Rightarrow> cs)"
proof -
  have s: "s = \<lparr>outgoing = outgoing s, budget = None\<rparr>" using assms(4) by (cases s) simp
  have "write_msg encode (envelope_of (PSessionAccept \<lparr>sa_last_received_seq = last_received_map (sv_session sv)\<rparr>)) s =
      (Inr (), \<lparr>outgoing = outgoing s @ msg_bytes encode (envelope_of (PSessionAccept
        \<lparr>sa_last_received_seq = last_received_map (sv_session sv)\<rparr>)), budget = None\<rparr>)"
    by (subst s) (rule write_msg_unlimited[where encode = encode, OF assms(3)])
  then show ?thesis using assms(1,2) by (auto simp: open_session_def fst_resume_session Let_def)
qed

end
