(* ===== verification/Duplex.thy ===== *)
theory Duplex
  imports Shell_Output Handshake
begin

text \<open>
  Both directions of a session at once.  To the system of \<open>Shell_Output\<close> this adds the client's stdin
  task of \<open>src/bin/etr.rs\<close>, the PTY stream from client to server, the PTY reader of \<open>src/bin/etrs.rs\<close>
  and the half of the handshake the client runs: reading the bytes of \<open>SessionAccept\<close> the server has
  written, trimming its history and replaying the rest.  The two sessions are shared by the two
  directions, as in the code.
\<close>

section \<open>The duplex system\<close>

text \<open>\<open>du_wire\<close>: the chunks written to the PTY stream and not yet read by the server; \<open>du_conn\<close>: the
  connection is alive; \<open>du_up\<close>: the PTY stream is open and what the client writes to it still arrives;
  \<open>du_accept\<close>: the bytes of a reply to its opening the client has not read; \<open>du_typed\<close>: the chunks the
  stdin task has recorded, a history variable.\<close>

record duplex =
  du_joint :: joint
  du_wire :: "chunk list"
  du_conn :: bool
  du_up :: bool
  du_accept :: "bytes option"
  du_typed :: "bytes list"

definition new_duplex :: "bytes \<Rightarrow> string \<Rightarrow> bool \<Rightarrow> duplex" where
  "new_duplex sid pk fd =
     \<lparr>du_joint = new_joint sid pk fd, du_wire = [], du_conn = False, du_up = False, du_accept = None,
      du_typed = []\<rparr>"

abbreviation du_server :: "duplex \<Rightarrow> server" where "du_server d \<equiv> jo_server (du_joint d)"
abbreviation du_client :: "duplex \<Rightarrow> SessionState" where "du_client d \<equiv> jo_client (du_joint d)"

text \<open>The tasks of the client's \<open>run_session\<close> exist once it has read the reply and replayed.\<close>

definition du_tasks :: "duplex \<Rightarrow> bool" where
  "du_tasks d \<longleftrightarrow> jo_session (du_joint d) \<and> du_accept d = None"

datatype duplex_event =
    Joint joint_event | TypeChunk bytes | ServerRecv | ServerRecvAborted | ClientResume | ConnLost
  | ClientHeartbeat "u32 \<rightharpoonup> u64"

text \<open>A step of the output system.  An accepted handshake replaces the connection and its streams, with
  what the server has written to the control stream \<open>s\<close> on its way; the end of a connection on the server
  drops what the PTY reader has not read, the end of \<open>run_session\<close> closes the connection.  The PTY reader
  itself is \<open>server_recv\<close>.\<close>

definition duplex_joint ::
    "(bytes \<Rightarrow> Envelope option) \<Rightarrow> (Envelope \<Rightarrow> bytes) \<Rightarrow> joint_event \<Rightarrow> duplex \<Rightarrow> duplex option" where
  "duplex_joint decode encode e d =
     (case joint_step decode encode (du_joint d) e of
        None \<Rightarrow> None
      | Some j \<Rightarrow>
          (case e of
             Server (Received _ _) \<Rightarrow> None
           | Server (OpenSession _ _ _ _ s) \<Rightarrow>
               (case sv_pending (jo_server j) of
                  None \<Rightarrow> Some (d\<lparr>du_joint := j\<rparr>)
                | Some p \<Rightarrow>
                    Some (d\<lparr>du_joint := j, du_wire := [], du_conn := True, du_up := False,
                       du_accept := Some (drop (length (outgoing s)) (outgoing (pd_ctrl p)))\<rparr>))
           | Server EndConnection \<Rightarrow> Some (d\<lparr>du_joint := j, du_wire := [], du_conn := False, du_up := False\<rparr>)
           | ClientRecv \<Rightarrow> (if du_tasks d then Some (d\<lparr>du_joint := j\<rparr>) else None)
           | ClientEnds \<Rightarrow> Some (d\<lparr>du_joint := j, du_conn := False, du_up := False, du_accept := None\<rparr>)
           | _ \<Rightarrow> Some (d\<lparr>du_joint := j\<rparr>)))"

text \<open>The stdin task: the chunk is recorded whether or not the write still arrives.\<close>

definition type_chunk :: "bytes \<Rightarrow> duplex \<Rightarrow> duplex option" where
  "type_chunk data d =
     (if \<not> du_tasks d then None
      else (case send_chunk (du_client d) data of
              None \<Rightarrow> None
            | Some (sq, st) \<Rightarrow>
                Some (d\<lparr>du_joint := (du_joint d)\<lparr>jo_client := st\<rparr>,
                       du_wire := (if du_up d then du_wire d @ [(sq, data)] else du_wire d),
                       du_typed := du_typed d @ [data]\<rparr>)))"

definition server_recv ::
    "(bytes \<Rightarrow> Envelope option) \<Rightarrow> (Envelope \<Rightarrow> bytes) \<Rightarrow> duplex \<Rightarrow> duplex option" where
  "server_recv decode encode d =
     (case du_wire d of
        [] \<Rightarrow> None
      | (sq, data) # w \<Rightarrow>
          map_option (\<lambda>j. d\<lparr>du_joint := j, du_wire := w\<rparr>)
            (joint_step decode encode (du_joint d) (Server (Received sq data))))"

text \<open>The PTY reader aborted between its two effects: the watermark counts a chunk that is dropped.\<close>

definition server_recv_aborted :: "duplex \<Rightarrow> duplex option" where
  "server_recv_aborted d =
     (case du_wire d of
        [] \<Rightarrow> None
      | (sq, data) # w \<Rightarrow>
          (if sv_active_conn (du_server d) \<noteq> None \<and> sv_pending (du_server d) = None
           then Some (d\<lparr>du_joint := (du_joint d)\<lparr>jo_server := (du_server d)
                          \<lparr>sv_session := receive_chunk (sv_session (du_server d)) sq\<rparr>\<rparr>, du_wire := w\<rparr>)
           else None))"

text \<open>The client reads the reply: \<open>run_session\<close> fails when it is not a \<open>SessionAccept\<close>, and otherwise goes on
  with \<open>resume_pty\<close> on a fresh stream, which arrives as long as the connection lives.\<close>

definition client_resume :: "(bytes \<Rightarrow> Envelope option) \<Rightarrow> duplex \<Rightarrow> duplex option" where
  "client_resume decode d =
     (case du_accept d of
        None \<Rightarrow> None
      | Some reply \<Rightarrow>
          (case read_session_accept decode \<lparr>incoming = reply, ending = Finished\<rparr> of
             Inl _ \<Rightarrow>
               Some (d\<lparr>du_joint := (du_joint d)\<lparr>jo_session := False, jo_queue := []\<rparr>, du_conn := False,
                      du_up := False, du_accept := None\<rparr>)
           | Inr (acks, _) \<Rightarrow>
               (let st = apply_server_acks (du_client d) acks;
                    replays = (case collect_replays st acks 0 of None \<Rightarrow> [] | Some cs \<Rightarrow> cs)
                in Some (d\<lparr>du_joint := (du_joint d)\<lparr>jo_client := st\<rparr>, du_accept := None, du_up := du_conn d,
                          du_wire := (if du_conn d then replays else [])\<rparr>))))"

definition client_heartbeat :: "(u32 \<rightharpoonup> u64) \<Rightarrow> duplex \<Rightarrow> duplex" where
  "client_heartbeat acks d =
     d\<lparr>du_joint := (du_joint d)\<lparr>jo_client := snd (client_ctrl_step
        (Inr (Some (envelope_of (PHeartbeat \<lparr>hb_last_received_seq = acks\<rparr>)))) (du_client d))\<rparr>\<rparr>"

fun duplex_step ::
    "(bytes \<Rightarrow> Envelope option) \<Rightarrow> (Envelope \<Rightarrow> bytes) \<Rightarrow> duplex \<Rightarrow> duplex_event \<Rightarrow> duplex option" where
  "duplex_step decode encode d (Joint e) = duplex_joint decode encode e d"
| "duplex_step decode encode d (TypeChunk data) = type_chunk data d"
| "duplex_step decode encode d ServerRecv = server_recv decode encode d"
| "duplex_step decode encode d ServerRecvAborted = server_recv_aborted d"
| "duplex_step decode encode d ClientResume = client_resume decode d"
| "duplex_step decode encode d ConnLost = Some (d\<lparr>du_conn := False, du_up := False\<rparr>)"
| "duplex_step decode encode d (ClientHeartbeat acks) =
     (if du_tasks d then Some (client_heartbeat acks d) else None)"

text \<open>What the codec owes the server's reply: it fits into a message and decodes to itself.\<close>

definition accept_decodes :: "(bytes \<Rightarrow> Envelope option) \<Rightarrow> (Envelope \<Rightarrow> bytes) \<Rightarrow> server \<Rightarrow> bool" where
  "accept_decodes decode encode sv \<longleftrightarrow>
     (let env = envelope_of (PSessionAccept \<lparr>sa_last_received_seq = last_received_map (sv_session sv)\<rparr>)
      in length (encode env) \<le> MAX_CONTROL_MSG \<and> decode (encode env) = Some env)"

text \<open>The runs considered: \<open>calm\<close> ones for the output; for the input at most 4 MiB unacknowledged, fewer
  than \<open>2 ^ 64 - 3\<close> chunks, heartbeats the server can have sent, replies that the codec decodes, and no PTY
  reader aborted between its effects.\<close>

fun duplex_calm :: "(bytes \<Rightarrow> Envelope option) \<Rightarrow> (Envelope \<Rightarrow> bytes) \<Rightarrow> duplex \<Rightarrow> duplex_event \<Rightarrow> bool" where
  "duplex_calm decode encode d (Joint e) \<longleftrightarrow> calm decode (du_joint d) e \<and>
     (case e of Server (OpenSession _ _ _ _ _) \<Rightarrow> accept_decodes decode encode (du_server d) | _ \<Rightarrow> True)"
| "duplex_calm decode encode d ServerRecvAborted \<longleftrightarrow> False"
| "duplex_calm decode encode d (TypeChunk data) \<longleftrightarrow> vec_ok data \<and> length (du_typed d) < 2 ^ 64 - 3 \<and>
     (case streams (du_client d) 0 of
        None \<Rightarrow> True | Some s \<Rightarrow> hist_total (send_history s) + length data \<le> unat MAX_HISTORY_BYTES)"
| "duplex_calm decode encode d (ClientHeartbeat acks) \<longleftrightarrow>
     (case (acks 0, last_received_map (sv_session (du_server d)) 0) of
        (Some a, Some b) \<Rightarrow> a \<le> b | (Some _, None) \<Rightarrow> False | (None, _) \<Rightarrow> True)"
| "duplex_calm decode encode d _ \<longleftrightarrow> True"

section \<open>The input direction as a link\<close>

text \<open>Forgetting the output, a duplex state is a link of \<open>Delivery\<close> whose receiver is the server.\<close>

definition link_of :: "duplex \<Rightarrow> link" where
  "link_of d =
     \<lparr>sender = du_client d, receiver = sv_session (du_server d), on_wire = du_wire d, acks_on_wire = [],
      up = du_up d, produced = du_typed d, delivered = numbered (sv_pty_in (du_server d))\<rparr>"

text \<open>What the output direction does to the two sessions cannot be seen by the link.\<close>

definition same_out :: "SessionState \<Rightarrow> SessionState \<Rightarrow> bool" where
  "same_out st st' \<longleftrightarrow> session_ok st' \<and> (\<forall>s. streams st 0 = Some s \<longrightarrow>
     (\<exists>s'. streams st' 0 = Some s' \<and> next_out_seq s' = next_out_seq s \<and> send_history s' = send_history s))"

definition same_in :: "SessionState \<Rightarrow> SessionState \<Rightarrow> bool" where
  "same_in st st' \<longleftrightarrow> last_received_map st' = last_received_map st \<and> (\<forall>s. streams st 0 = Some s \<longrightarrow>
     (\<exists>s'. streams st' 0 = Some s' \<and> next_in_seq s' = next_in_seq s))"

lemma same_in_refl: "same_in st st"
  by (simp add: same_in_def)

lemma same_in_acks: "same_in st (apply_server_acks st a)"
  by (auto simp: same_in_def apply_server_acks_def[of st] split: option.split)
    (metis last_received_acks apply_server_acks_def)

lemma same_in_send: "send_chunk st d = Some (q, st') \<Longrightarrow> same_in st st'"
  using last_received_send[of st d q st']
  by (auto simp: same_in_def send_chunk_def stream_mut_def Let_def split: option.splits)

lemma same_out_receive: "session_ok st \<Longrightarrow> same_out st (receive_chunk st q)"
  by (auto simp: same_out_def session_ok_receive receive_chunk_stream)

lemma link_inv_frame:
  assumes "link_inv ll l" and "same_out (sender l) st" and "same_in (receiver l) st'"
  shows "link_inv ll (l\<lparr>sender := st, receiver := st'\<rparr>)"
proof -
  obtain s r j k m n where at: "link_at ll l s r j k m n" using assms(1) by (auto simp: link_inv_def)
  note parts = link_atD[OF at]
  obtain s' where s': "streams st 0 = Some s'" "next_out_seq s' = next_out_seq s" "send_history s' = send_history s"
    using assms(2) parts(1) by (auto simp: same_out_def sender_at_def)
  obtain r' where r': "streams st' 0 = Some r'" "next_in_seq r' = next_in_seq r"
    using assms(3) parts(2) by (auto simp: same_in_def receiver_at_def)
  have "link_at ll (l\<lparr>sender := st, receiver := st'\<rparr>) s' r' j k m n"
    using parts s' r' assms(2)
    by (auto simp: link_at_def sender_at_def receiver_at_def wire_at_def acks_at_def exact_at_def same_out_def)
  then show ?thesis by (rule link_invI)
qed

lemma link_inv_lose: "link_inv ll l \<Longrightarrow> link_inv ll (l\<lparr>up := False, on_wire := take a (on_wire l), acks_on_wire := take b (acks_on_wire l)\<rparr>)"
  using lose_inv by (auto simp: link_inv_def lose_def)

text \<open>A chunk taken while the connection is down: as if it had been written after all that was, and then
  lost with the connection.\<close>

lemma produce_offline:
  assumes inv: "link_inv True l" and d: "permitted True l (Produce d)" and send: "send_chunk (sender l) d = Some (q, st)"
  shows "link_inv True (l\<lparr>up := False, sender := st, produced := produced l @ [d]\<rparr>)"
proof -
  obtain s r j k m n where at: "link_at True l s r j k m n" using inv by (auto simp: link_inv_def)
  let ?rest = "drop m (numbered (produced l))"
  let ?l = "l\<lparr>up := True, on_wire := ?rest\<rparr>"
  let ?l1 = "l\<lparr>sender := st, on_wire := ?rest @ [(q, d)], produced := produced l @ [d], up := True\<rparr>"
  have wire: "on_wire l = take n ?rest" using link_atD(3)[OF at] by (simp add: wire_at_def)
  have "link_at True ?l s r j k m (length (produced l))"
    using link_atD[OF at] by (auto simp: link_at_def link_parts)
  moreover have "permitted True ?l (Produce d)" using d by (simp add: unacked_bytes_def)
  moreover have "produce ?l d = Some ?l1" by (simp add: produce_def send)
  ultimately have "link_inv True ?l1" by (rule produce_inv)
  have "l\<lparr>up := False, sender := st, produced := produced l @ [d]\<rparr> =
      ?l1\<lparr>up := False, on_wire := take (length (on_wire l)) (on_wire ?l1),
        acks_on_wire := take (length (acks_on_wire l)) (acks_on_wire ?l1)\<rparr>"
    by (cases l) (use wire in \<open>simp add: min_def\<close>)
  with link_inv_lose[OF \<open>link_inv True ?l1\<close>] show ?thesis by metis
qed

lemma exact_input:
  assumes "link_inv True (link_of d)"
  shows "\<exists>k \<le> length (du_typed d). sv_pty_in (du_server d) = take k (du_typed d)
    \<and> last_received_map (sv_session (du_server d)) 0 = Some (word_of_nat k)
    \<and> (\<exists>n. du_wire d = take n (drop k (numbered (du_typed d))) \<and> (du_up d \<longrightarrow> length (du_typed d) \<le> k + n))"
proof -
  obtain s r j k m n where at: "link_at True (link_of d) s r j k m n" using assms by (auto simp: link_inv_def)
  have k: "m = k" "numbered (sv_pty_in (du_server d)) = take k (numbered (du_typed d))" "k \<le> length (du_typed d)"
    "du_wire d = take n (drop k (numbered (du_typed d)))" "du_up d \<longrightarrow> length (du_typed d) \<le> k + n"
    using link_atD(3,5)[OF at] by (auto simp: exact_at_def wire_at_def link_of_def)
  have "map snd (numbered (sv_pty_in (du_server d))) = map snd (take k (numbered (du_typed d)))" by (simp only: k(2))
  then have "sv_pty_in (du_server d) = take k (du_typed d)" by (simp add: take_map[symmetric])
  moreover have "last_received_map (sv_session (du_server d)) 0 = Some (word_of_nat k)"
    using watermark_at(1)[OF at] by (simp add: link_of_def)
  ultimately show ?thesis using k by blast
qed

section \<open>The invariant\<close>

definition duplex_ok :: "(bytes \<Rightarrow> Envelope option) \<Rightarrow> duplex \<Rightarrow> bool" where
  "duplex_ok decode d \<longleftrightarrow> joint_ok (du_joint d) \<and> link_inv True (link_of d) \<and>
     (case du_accept d of
        None \<Rightarrow> True
      | Some reply \<Rightarrow> \<not> du_up d \<and> du_wire d = [] \<and>
          (\<exists>r. read_session_accept decode \<lparr>incoming = reply, ending = Finished\<rparr> =
            Inr (last_received_map (sv_session (du_server d)), r)))"

lemma server_same_in:
  assumes "server_step decode encode sv e = Some sv'" and "\<And>sq data. e \<noteq> Received sq data"
  shows "same_in (sv_session sv) (sv_session sv') \<and> sv_pty_in sv' = sv_pty_in sv"
proof (cases e)
  case (OpenSession conn peer t ctrl s)
  then have "sv' = snd (open_session decode encode conn peer t ctrl s sv)" using assms(1) by (auto split: if_splits)
  then show ?thesis
    by (auto simp: open_session_def fst_resume_session Let_def same_in_refl same_in_acks split: sum.splits prod.splits)
next
  case (PtyRead d)
  then show ?thesis
    using assms(1) same_in_send by (auto simp: pty_read_def split: if_splits option.splits)
next
  case (CtrlMsg m)
  then have "sv' = snd (ctrl_reader_step m sv)" using assms(1) by (auto split: if_splits)
  then show ?thesis by (cases m sv rule: ctrl_reader_cases) (simp_all add: same_in_refl same_in_acks)
qed (use assms in \<open>auto simp: task_defs same_in_refl Let_def split: if_splits option.splits list.splits prod.splits\<close>)

text \<open>The output system does not look at the client's history.\<close>

lemma joint_ok_client:
  assumes "joint_ok j" and "same_in (jo_client j) st"
  shows "joint_ok (j\<lparr>jo_client := st\<rparr>)"
  using assms by (fastforce simp: joint_ok_def joint_at_def same_in_def)

lemma client_session_ok: "duplex_ok decode d \<Longrightarrow> session_ok (du_client d)"
  by (auto simp: duplex_ok_def link_inv_def link_of_def link_at_def sender_at_def)

lemma joint_step_sessions:
  assumes "joint_step decode encode j e = Some j'" and "\<And>sq data. e \<noteq> Server (Received sq data)"
    and "session_ok (jo_client j)"
  shows "same_out (jo_client j) (jo_client j') \<and> same_in (sv_session (jo_server j)) (sv_session (jo_server j'))
    \<and> sv_pty_in (jo_server j') = sv_pty_in (jo_server j)"
proof (cases e)
  case (Server e')
  have "joint_step decode encode j (Server e') = Some j'" using assms(1) Server by simp
  then obtain sv where "server_step decode encode (jo_server j) e' = Some sv" "jo_server j' = sv" "jo_client j' = jo_client j"
    by (rule joint_server_cases)
  moreover have "same_out (jo_client j) (jo_client j)" using assms(3) by (simp add: same_out_def)
  ultimately show ?thesis using server_same_in assms(2) Server by fastforce
next
  case ClientRecv
  obtain sq data where "sv_written (jo_server j) ! jo_read j = (sq, data)" by (cases "sv_written (jo_server j) ! jo_read j")
  then show ?thesis
    using assms ClientRecv same_out_receive
    by (auto simp: client_recv_def pty_recv_step_def same_in_refl split: if_splits)
next
  case StdoutWrite
  then show ?thesis
    using assms by (auto simp: stdout_write_def same_in_refl same_out_def split: list.splits bool.splits)
next
  case ClientEnds
  then show ?thesis using assms by (auto simp: client_ends_def same_in_refl same_out_def split: if_splits)
qed

text \<open>What the server writes when it accepts an opening is what the client can read.\<close>

lemma write_msg_appends:
  assumes "write_msg encode env s = (Inr u, s')" and "length (encode env) \<le> MAX_CONTROL_MSG"
  shows "outgoing s' = outgoing s @ msg_bytes encode env"
proof -
  have "length (encode env) < 2 ^ 32" using assms(2) by (simp add: MAX_CONTROL_MSG_def)
  then show ?thesis
    using assms(1) by (auto simp: write_msg_def write_framed_def write_all_def msg_bytes_def Let_def unat_word_of_len
        split: option.splits if_splits)
qed

lemma accepted_reply:
  assumes step: "server_step decode encode sv (OpenSession conn peer t ctrl s) = Some sv'"
    and p: "sv_pending sv' = Some p" and fits: "accept_decodes decode encode sv"
  shows "\<exists>r. read_session_accept decode \<lparr>incoming = drop (length (outgoing s)) (outgoing (pd_ctrl p)), ending = Finished\<rparr> =
    Inr (last_received_map (sv_session sv'), r)"
proof -
  let ?sa = "\<lparr>sa_last_received_seq = last_received_map (sv_session sv)\<rparr>"
  have codec: "length (encode (envelope_of (PSessionAccept ?sa))) \<le> MAX_CONTROL_MSG"
    "decode (encode (envelope_of (PSessionAccept ?sa))) = Some (envelope_of (PSessionAccept ?sa))"
    using fits by (simp_all add: accept_decodes_def Let_def)
  have none: "sv_pending sv = None" and sv': "sv' = snd (open_session decode encode conn peer t ctrl s sv)"
    using step by (auto split: if_splits)
  obtain u where "write_msg encode (envelope_of (PSessionAccept ?sa)) s = (Inr u, pd_ctrl p)"
    "last_received_map (sv_session sv') = last_received_map (sv_session sv)"
    using p none unfolding sv'
    by (auto simp: open_session_def fst_resume_session Let_def split: if_splits sum.splits prod.splits)
  then show ?thesis
    using write_msg_appends[where encode = encode, OF _ codec(1)] read_session_accept_of_msg[where encode = encode and decode = decode, OF codec, of "[]" Finished] by fastforce
qed

lemma duplex_joint_ok:
  assumes ok: "duplex_ok decode d" and calm: "duplex_calm decode encode d (Joint e)"
    and step: "duplex_joint decode encode e d = Some d'"
  shows "duplex_ok decode d'"
proof -
  obtain j where j: "joint_step decode encode (du_joint d) e = Some j" and e: "\<And>sq data. e \<noteq> Server (Received sq data)"
    using step by (auto simp: duplex_joint_def split: option.splits joint_event.splits server_event.splits)
  have jok: "joint_ok j" using joint_ok_step[OF _ _ j] calm ok by (simp add: duplex_ok_def)
  note same = joint_step_sessions[OF j e client_session_ok[OF ok]]
  have frame: "link_inv True (link_of (d\<lparr>du_joint := j\<rparr>))"
    using link_inv_frame[of True "link_of d" "jo_client j" "sv_session (jo_server j)"] same ok
    by (simp add: duplex_ok_def link_of_def)
  have lost: "link_inv True (link_of (d\<lparr>du_joint := j, du_wire := take a (du_wire d), du_up := False\<rparr>))" for a
    using link_inv_lose[where a = a and b = 0, OF frame] by (simp add: link_of_def)
  have same_map: "last_received_map (sv_session (jo_server j)) = last_received_map (sv_session (du_server d))"
    using same by (simp add: same_in_def)
  consider "d' = d\<lparr>du_joint := j\<rparr>" | "d' = d\<lparr>du_joint := j, du_wire := [], du_conn := False, du_up := False\<rparr>"
    | "d' = d\<lparr>du_joint := j, du_conn := False, du_up := False, du_accept := None\<rparr>"
    | conn peer t ctrl s p where "e = Server (OpenSession conn peer t ctrl s)" "sv_pending (jo_server j) = Some p"
      "d' = d\<lparr>du_joint := j, du_wire := [], du_conn := True, du_up := False,
        du_accept := Some (drop (length (outgoing s)) (outgoing (pd_ctrl p)))\<rparr>"
    using step j by (auto simp: duplex_joint_def split: joint_event.splits server_event.splits if_splits option.splits)
  then show ?thesis
  proof cases
    case 1
    then show ?thesis using ok jok frame same_map by (auto simp: duplex_ok_def split: option.splits)
  next
    case 2
    then show ?thesis using ok jok lost[of 0] same_map by (auto simp: duplex_ok_def link_of_def split: option.splits)
  next
    case 3
    then show ?thesis using jok lost[of "length (du_wire d)"] by (simp add: duplex_ok_def link_of_def)
  next
    case 4
    have "joint_step decode encode (du_joint d) (Server (OpenSession conn peer t ctrl s)) = Some j" using j 4(1) by simp
    then have "server_step decode encode (du_server d) (OpenSession conn peer t ctrl s) = Some (jo_server j)"
      by (rule joint_server_cases) simp
    from accepted_reply[OF this 4(2)] calm 4(1)
    have "\<exists>r. read_session_accept decode \<lparr>incoming = drop (length (outgoing s)) (outgoing (pd_ctrl p)), ending = Finished\<rparr> =
        Inr (last_received_map (sv_session (jo_server j)), r)" by simp
    with 4(3) jok lost[of 0] show ?thesis by (simp add: duplex_ok_def link_of_def)
  qed
qed

lemma type_chunk_ok:
  assumes ok: "duplex_ok decode d" and calm: "duplex_calm decode encode d (TypeChunk data)" and step: "type_chunk data d = Some d'"
  shows "duplex_ok decode d'"
proof -
  obtain q st where send: "send_chunk (du_client d) data = Some (q, st)"
    and d': "d' = d\<lparr>du_joint := (du_joint d)\<lparr>jo_client := st\<rparr>,
      du_wire := (if du_up d then du_wire d @ [(q, data)] else du_wire d), du_typed := du_typed d @ [data]\<rparr>"
    and none: "du_accept d = None"
    using step by (auto simp: type_chunk_def du_tasks_def split: option.splits if_splits)
  have perm: "permitted True (link_of d) (Produce data)"
    using calm client_session_ok[OF ok] by (auto simp: link_of_def unacked_bytes_def session_ok_def split: option.splits)
  have "link_inv True (link_of d')"
  proof (cases "du_up d")
    case True
    obtain s r j k m n where at: "link_at True (link_of d) s r j k m n"
      using ok by (auto simp: duplex_ok_def link_inv_def)
    have "produce (link_of d) data = Some (link_of d')"
      using True send by (simp add: produce_def link_of_def d')
    then show ?thesis by (rule produce_inv[OF at perm])
  next
    case False
    then show ?thesis
      using produce_offline[OF _ perm, of q st] ok send by (simp add: duplex_ok_def link_of_def d')
  qed
  moreover have "joint_ok (du_joint d')"
    using joint_ok_client[OF _ same_in_send[OF send]] ok by (simp add: duplex_ok_def d')
  ultimately show ?thesis using ok by (auto simp: duplex_ok_def d' split: option.splits)
qed

lemma server_recv_ok:
  assumes ok: "duplex_ok decode d" and step: "server_recv decode encode d = Some d'"
  shows "duplex_ok decode d'"
proof -
  obtain sq data w j where w: "du_wire d = (sq, data) # w" and d': "d' = d\<lparr>du_joint := j, du_wire := w\<rparr>"
    and j: "joint_step decode encode (du_joint d) (Server (Received sq data)) = Some j"
    using step by (auto simp: server_recv_def split: list.splits)
  have server: "jo_server j = pty_reader_step sq data (du_server d)" "jo_client j = du_client d"
    using j by (auto split: if_splits)
  obtain s r i k m n where at: "link_at True (link_of d) s r i k m n"
    using ok by (auto simp: duplex_ok_def link_inv_def)
  have k: "m = k" "numbered (sv_pty_in (du_server d)) = take k (numbered (du_typed d))"
    "take n (drop m (numbered (du_typed d))) = (sq, data) # w"
    using link_atD(3,5)[OF at] w by (auto simp: exact_at_def wire_at_def link_of_def)
  have "length (numbered (sv_pty_in (du_server d))) = k"
    using wire_head(1)[OF k(3)] k(1,2) by simp
  then have "numbered (sv_pty_in (du_server d) @ [data]) = numbered (sv_pty_in (du_server d)) @ [(sq, data)]"
    using wire_head(3)[OF k(3)] k(1) by (simp add: numbered_snoc)
  then have "deliver (link_of d) = Some (link_of d')"
    by (simp add: deliver_def link_of_def w d' server pty_reader_step_def)
  then have "link_inv True (link_of d')" by (rule deliver_inv[OF at])
  moreover have "joint_ok j" using joint_ok_step[OF _ _ j] ok by (simp add: duplex_ok_def)
  ultimately show ?thesis using ok w by (auto simp: duplex_ok_def d' split: option.splits)
qed

lemma client_resume_parts:
  assumes ok: "duplex_ok decode d" and step: "client_resume decode d = Some d'"
  defines "acks \<equiv> last_received_map (sv_session (du_server d))"
  defines "st \<equiv> apply_server_acks (du_client d) acks"
  shows "\<not> du_up d \<and> du_wire d = [] \<and> d' = d\<lparr>du_joint := (du_joint d)\<lparr>jo_client := st\<rparr>, du_accept := None,
    du_up := du_conn d,
    du_wire := (if du_conn d then (case collect_replays st acks 0 of None \<Rightarrow> [] | Some cs \<Rightarrow> cs) else [])\<rparr>"
proof -
  obtain reply where r: "du_accept d = Some reply" using step by (auto simp: client_resume_def split: option.splits)
  obtain r' where "read_session_accept decode \<lparr>incoming = reply, ending = Finished\<rparr> =
      Inr (last_received_map (sv_session (du_server d)), r')" and "\<not> du_up d" "du_wire d = []"
    using ok r by (auto simp: duplex_ok_def)
  with step r show ?thesis unfolding st_def acks_def by (auto simp: client_resume_def Let_def)
qed

lemma client_resume_ok:
  assumes ok: "duplex_ok decode d" and step: "client_resume decode d = Some d'"
  shows "duplex_ok decode d'"
proof -
  let ?acks = "last_received_map (sv_session (du_server d))"
  let ?st = "apply_server_acks (du_client d) ?acks"
  let ?cs = "case collect_replays ?st ?acks 0 of None \<Rightarrow> [] | Some cs \<Rightarrow> cs"
  let ?l = "(link_of d)\<lparr>sender := ?st, on_wire := ?cs, acks_on_wire := [], up := True\<rparr>"
  note parts = client_resume_parts[OF ok step]
  obtain s r i k m n where at: "link_at True (link_of d) s r i k m n"
    using ok by (auto simp: duplex_ok_def link_inv_def)
  have "reconnect (link_of d) = Some ?l"
    using parts by (simp add: reconnect_def link_of_def Let_def)
  from reconnect_at[OF at this] have inv: "link_inv True ?l" using link_invI by blast
  have "link_of d' = (if du_conn d then ?l else ?l\<lparr>up := False, on_wire := take 0 (on_wire ?l),
      acks_on_wire := take 0 (acks_on_wire ?l)\<rparr>)"
    using parts by (simp add: link_of_def)
  with inv link_inv_lose[where a = 0 and b = 0, OF inv] have "link_inv True (link_of d')" by simp
  moreover have "joint_ok (du_joint d')"
    using joint_ok_client[OF _ same_in_acks] ok parts by (simp add: duplex_ok_def)
  ultimately show ?thesis using parts by (simp add: duplex_ok_def)
qed

lemma client_heartbeat_ok:
  assumes ok: "duplex_ok decode d" and calm: "duplex_calm decode encode d (ClientHeartbeat acks)"
  shows "duplex_ok decode (client_heartbeat acks d)"
proof -
  let ?st = "apply_server_acks (du_client d) acks"
  let ?d = "d\<lparr>du_joint := (du_joint d)\<lparr>jo_client := ?st\<rparr>\<rparr>"
  have d': "client_heartbeat acks d = ?d" by (simp add: client_heartbeat_def client_ctrl_step_def)
  have "link_inv True (link_of ?d)"
  proof (cases "acks 0")
    case None
    have "same_out (du_client d) ?st"
      using client_session_ok[OF ok] None session_ok_acks
      by (auto simp: same_out_def apply_server_acks_def)
    then show ?thesis
      using link_inv_frame[of True "link_of d" ?st "sv_session (du_server d)"] ok same_in_refl
      by (simp add: duplex_ok_def link_of_def)
  next
    case (Some a)
    obtain s r i k m n where at: "link_at True (link_of d) s r i k m n"
      using ok by (auto simp: duplex_ok_def link_inv_def)
    note parts = link_atD[OF at]
    have k: "k \<le> length (du_typed d)" "last_received_map (sv_session (du_server d)) 0 = Some (word_of_nat k)"
      "length (du_typed d) < 2 ^ 64 - 2"
      using watermark_at[OF at] parts(1) by (simp_all add: link_of_def sender_at_def)
    then have a: "unat a \<le> k" using calm Some by (simp add: word_le_nat_alt unat_of_nat)
    have "link_at True ((link_of d)\<lparr>acks_on_wire := [acks]\<rparr>) s r i k m n"
      using parts a Some by (auto simp: link_at_def link_parts intro!: exI[of _ "unat a"])
    moreover have "hb_recv ((link_of d)\<lparr>acks_on_wire := [acks]\<rparr>) = Some (link_of ?d)"
      by (simp add: hb_recv_def link_of_def)
    ultimately show ?thesis by (rule hb_recv_inv)
  qed
  moreover have "joint_ok (du_joint ?d)"
    using joint_ok_client[OF _ same_in_acks] ok by (simp add: duplex_ok_def)
  ultimately show ?thesis using ok by (auto simp: d' duplex_ok_def split: option.splits)
qed

lemma duplex_ok_step:
  assumes "duplex_ok decode d" and "duplex_calm decode encode d e" and "duplex_step decode encode d e = Some d'"
  shows "duplex_ok decode d'"
proof (cases e)
  case ConnLost
  have "link_inv True (link_of (d\<lparr>du_conn := False, du_up := False\<rparr>))"
    using assms(1) link_inv_lose[where a = "length (du_wire d)" and b = 0 and l = "link_of d"]
    by (simp add: duplex_ok_def link_of_def)
  then show ?thesis using assms ConnLost by (auto simp: duplex_ok_def split: option.splits)
next
  case (Joint j)
  show ?thesis by (rule duplex_joint_ok[OF assms(1)]) (use assms Joint in simp_all)
next
  case (TypeChunk data)
  show ?thesis by (rule type_chunk_ok[OF assms(1)]) (use assms TypeChunk in simp_all)
next
  case ServerRecv
  show ?thesis by (rule server_recv_ok[OF assms(1)]) (use assms ServerRecv in simp)
next
  case ClientResume
  show ?thesis by (rule client_resume_ok[OF assms(1)]) (use assms ClientResume in simp)
next
  case ServerRecvAborted
  then show ?thesis using assms(2) by simp
next
  case (ClientHeartbeat acks)
  then have "d' = client_heartbeat acks d" using assms(3) by (simp split: if_splits)
  then show ?thesis using client_heartbeat_ok[OF assms(1)] assms(2) ClientHeartbeat by blast
qed

lemma duplex_ok_new: "duplex_ok decode (new_duplex sid pk fd)"
proof -
  have "link_of (new_duplex sid pk fd) = new_link sid pk"
    by (simp add: link_of_def new_duplex_def new_joint_def new_link_def new_server_def numbered_def)
  then show ?thesis using link_inv_new[of True sid pk] joint_ok_new[of sid pk fd] by (simp add: duplex_ok_def) (simp add: new_duplex_def)
qed

section \<open>The two queues\<close>

text \<open>Abstractly a session is a queue in each direction.\<close>

fun queues_step :: "fifo \<times> fifo \<Rightarrow> fifo_op \<times> fifo_op \<Rightarrow> (fifo \<times> fifo) option" where
  "queues_step (f, g) (a, b) =
     (case (fifo_step f a, fifo_step g b) of (Some f', Some g') \<Rightarrow> Some (f', g') | _ \<Rightarrow> None)"

definition input_fifo :: "duplex \<Rightarrow> fifo" where
  "input_fifo d =
     \<lparr>queue = drop (length (sv_pty_in (du_server d))) (du_typed d), received = sv_pty_in (du_server d)\<rparr>"

definition output_fifo :: "joint \<Rightarrow> fifo" where
  "output_fifo j =
     \<lparr>queue = drop (length (jo_printed j)) (sv_output (jo_server j)), received = jo_printed j\<rparr>"

fun duplex_op :: "duplex_event \<Rightarrow> fifo_op \<times> fifo_op" where
  "duplex_op (TypeChunk data) = (Send data, Hidden)"
| "duplex_op ServerRecv = (Recv, Hidden)"
| "duplex_op (Joint (Server (PtyRead data))) = (Hidden, Send data)"
| "duplex_op (Joint StdoutWrite) = (Hidden, Recv)"
| "duplex_op _ = (Hidden, Hidden)"

definition queues_of :: "duplex \<Rightarrow> fifo \<times> fifo" where
  "queues_of d = (input_fifo d, output_fifo (du_joint d))"

lemma input_fifo_at:
  assumes "duplex_ok decode d"
  shows "input_fifo d = fifo_at (du_typed d) (length (sv_pty_in (du_server d)))"
    and "length (sv_pty_in (du_server d)) \<le> length (du_typed d)"
  using exact_input[of d] assms by (auto simp: duplex_ok_def input_fifo_def fifo_at_def)

lemma printed_prefix:
  assumes "joint_ok j"
  shows "prefix (jo_printed j) (sv_output (jo_server j))"
proof -
  obtain k where "jo_printed j @ jo_queue j = take k (sv_output (jo_server j))"
    using assms by (auto simp: joint_ok_def joint_at_def)
  then show ?thesis by (metis append_prefixD take_is_prefix)
qed

lemma output_fifo_at:
  assumes "joint_ok j"
  shows "output_fifo j = fifo_at (sv_output (jo_server j)) (length (jo_printed j))"
    and "length (jo_printed j) \<le> length (sv_output (jo_server j))"
proof -
  obtain rest where "sv_output (jo_server j) = jo_printed j @ rest"
    using printed_prefix[OF assms] by (auto simp: prefix_def)
  then show "output_fifo j = fifo_at (sv_output (jo_server j)) (length (jo_printed j))"
    and "length (jo_printed j) \<le> length (sv_output (jo_server j))"
    by (simp_all add: output_fifo_def fifo_at_def)
qed

text \<open>What a step does to the ghosts of the two directions.\<close>

lemma server_output_step:
  assumes "server_step decode encode sv e = Some sv'"
  shows "sv_output sv' = (case e of PtyRead data \<Rightarrow> sv_output sv @ [data] | _ \<Rightarrow> sv_output sv)"
proof (cases e)
  case (OpenSession conn peer t ctrl s)
  obtain res sv1 where "open_session decode encode conn peer t ctrl s sv = (res, sv1)" by fastforce
  with open_session_parts[OF this] assms show ?thesis by (auto simp: OpenSession split: if_splits)
next
  case (CtrlMsg m)
  then have "sv' = snd (ctrl_reader_step m sv)" using assms by (auto split: if_splits)
  then show ?thesis using CtrlMsg by (cases m sv rule: ctrl_reader_cases) simp_all
next
  case (Received sq data)
  then show ?thesis using assms by (auto simp: pty_reader_step_def split: if_splits)
qed (use assms in \<open>auto simp: task_defs Let_def split: if_splits option.splits list.splits prod.splits\<close>)

lemma joint_output_step:
  assumes "joint_step decode encode j e = Some j'"
  shows "sv_output (jo_server j') =
      (case e of Server (PtyRead data) \<Rightarrow> sv_output (jo_server j) @ [data] | _ \<Rightarrow> sv_output (jo_server j)) \<and>
    length (jo_printed j') = (case e of StdoutWrite \<Rightarrow> Suc (length (jo_printed j)) | _ \<Rightarrow> length (jo_printed j))"
proof (cases e)
  case (Server e')
  have "joint_step decode encode j (Server e') = Some j'" using assms Server by simp
  then obtain sv where sv: "server_step decode encode (jo_server j) e' = Some sv" "jo_server j' = sv"
    "jo_printed j' = jo_printed j" by (rule joint_server_cases)
  show ?thesis using server_output_step[OF sv(1)] by (simp add: Server sv(2,3) split: server_event.split)
next
  case ClientRecv
  obtain sq data where "sv_written (jo_server j) ! jo_read j = (sq, data)" by (cases "sv_written (jo_server j) ! jo_read j")
  then show ?thesis
    using assms ClientRecv by (auto simp: client_recv_def pty_recv_step_def split: if_splits)
next
  case StdoutWrite
  then show ?thesis using assms by (auto simp: stdout_write_def split: list.splits bool.splits)
next
  case ClientEnds
  then show ?thesis using assms by (auto simp: client_ends_def split: if_splits)
qed

lemma duplex_step_ghosts:
  assumes "duplex_step decode encode d e = Some d'"
  shows "du_typed d' = (case e of TypeChunk data \<Rightarrow> du_typed d @ [data] | _ \<Rightarrow> du_typed d)"
  using assms
  by (cases e) (auto simp: duplex_joint_def type_chunk_def server_recv_def client_resume_def client_heartbeat_def Let_def
      server_recv_aborted_def
      split: option.splits joint_event.splits server_event.splits if_splits list.splits sum.splits)

lemma duplex_step_pty_in:
  assumes "duplex_step decode encode d e = Some d'" and "session_ok (du_client d)"
  shows "length (sv_pty_in (du_server d')) =
    (case e of ServerRecv \<Rightarrow> Suc (length (sv_pty_in (du_server d))) | _ \<Rightarrow> length (sv_pty_in (du_server d)))"
proof (cases e)
  case (Joint je)
  then obtain j where j: "joint_step decode encode (du_joint d) je = Some j" "\<And>sq data. je \<noteq> Server (Received sq data)"
    "du_joint d' = j"
    using assms(1) by (auto simp: duplex_joint_def split: option.splits joint_event.splits server_event.splits if_splits)
  show ?thesis using joint_step_sessions[OF j(1,2) assms(2)] j(3) Joint by simp
next
  case ServerRecv
  then show ?thesis
    using assms(1) by (auto simp: server_recv_def split: list.splits if_splits) (simp_all add: pty_reader_step_def)
qed (use assms(1) in \<open>auto simp: type_chunk_def client_resume_def client_heartbeat_def server_recv_aborted_def Let_def
      split: option.splits sum.splits list.splits if_splits\<close>)

lemma duplex_step_output:
  assumes "duplex_step decode encode d e = Some d'"
  shows "sv_output (du_server d') =
      (case e of Joint (Server (PtyRead data)) \<Rightarrow> sv_output (du_server d) @ [data] | _ \<Rightarrow> sv_output (du_server d)) \<and>
    length (jo_printed (du_joint d')) =
      (case e of Joint StdoutWrite \<Rightarrow> Suc (length (jo_printed (du_joint d))) | _ \<Rightarrow> length (jo_printed (du_joint d)))"
proof (cases e)
  case (Joint je)
  then obtain j where j: "joint_step decode encode (du_joint d) je = Some j" "du_joint d' = j"
    using assms(1) by (auto simp: duplex_joint_def split: option.splits joint_event.splits server_event.splits if_splits)
  from joint_output_step[OF j(1)] show ?thesis unfolding Joint j(2) by (simp split: joint_event.splits)
next
  case ServerRecv
  then obtain sq data j where "joint_step decode encode (du_joint d) (Server (Received sq data)) = Some j" "du_joint d' = j"
    using assms(1) by (auto simp: server_recv_def simp del: joint_step.simps split: list.splits)
  with joint_output_step[OF this(1)] show ?thesis using ServerRecv by simp
qed (use assms(1) in \<open>auto simp: type_chunk_def client_resume_def client_heartbeat_def server_recv_aborted_def Let_def
      split: option.splits sum.splits list.splits if_splits\<close>)

text \<open>Each direction moves its queue exactly as its ghosts move.\<close>

lemma fifo_at_step:
  assumes "n \<le> length sent" and "n' \<le> length sent'"
    and "sent' = (case a of Send d \<Rightarrow> sent @ [d] | _ \<Rightarrow> sent)" and "n' = (case a of Recv \<Rightarrow> Suc n | _ \<Rightarrow> n)"
  shows "fifo_step (fifo_at sent n) a = Some (fifo_at sent' n')"
  using assms by (cases a) (simp_all add: fifo_at_send fifo_at_recv del: fifo_step.simps, simp)

lemma duplex_step_simulates:
  assumes ok: "duplex_ok decode d" and calm: "duplex_calm decode encode d e" and step: "duplex_step decode encode d e = Some d'"
  shows "queues_step (queues_of d) (duplex_op e) = Some (queues_of d')"
proof -
  have ok': "duplex_ok decode d'" by (rule duplex_ok_step[OF assms])
  have joint: "joint_ok (du_joint d)" "joint_ok (du_joint d')" using ok ok' by (simp_all add: duplex_ok_def)
  note ghosts = duplex_step_ghosts[OF step] duplex_step_pty_in[OF step client_session_ok[OF ok]]
    duplex_step_output[OF step]
  have "fifo_step (input_fifo d) (fst (duplex_op e)) = Some (input_fifo d')"
    unfolding input_fifo_at(1)[OF ok] input_fifo_at(1)[OF ok']
    by (rule fifo_at_step[OF input_fifo_at(2)[OF ok] input_fifo_at(2)[OF ok']])
      (use ghosts in \<open>auto split: duplex_event.splits joint_event.splits server_event.splits\<close>)
  moreover have "fifo_step (output_fifo (du_joint d)) (snd (duplex_op e)) = Some (output_fifo (du_joint d'))"
    unfolding output_fifo_at(1)[OF joint(1)] output_fifo_at(1)[OF joint(2)]
    by (rule fifo_at_step[OF output_fifo_at(2)[OF joint(1)] output_fifo_at(2)[OF joint(2)]])
      (use ghosts in \<open>auto split: duplex_event.splits joint_event.splits server_event.splits\<close>)
  ultimately show ?thesis by (cases "duplex_op e") (simp add: queues_of_def)
qed

interpretation duplex: step_simulation "duplex_step decode encode" "duplex_calm decode encode" "duplex_ok decode" queues_step
    queues_of duplex_op for decode encode
  by unfold_locales (fact duplex_ok_step duplex_step_simulates)+

section \<open>Properties\<close>

text \<open>C2 (refinement): a session implements two plain first-in first-out queues, one for what is typed and
  one for what the shell prints.  A run of client and server in which both directions interleave on the
  shared sessions, connections are lost at any point, heartbeats are sent and the client reconnects any
  number of times is step for step a run of the two queues: the stdin task's chunks and the shell's output
  put in, the PTY and the client's stdout take out, and nothing else can be observed.  The conditions on the
  runs: those of \<open>shell_output_exactly_once\<close> (one client that reconnects after its last \<open>run_session\<close> has
  returned and presents what it has; handshakes that do not race with the PTY reader and replay at most
  1000 chunks; a stdout queue that never overflows and is printed before \<open>run_session\<close> returns), in each
  direction at most 4 MiB unacknowledged and fewer than \<open>2 ^ 64 - 3\<close> chunks, heartbeats that acknowledge no
  more than was received, no PTY reader of the server aborted between advancing the watermark and handing
  the chunk on, and a codec that decodes the server's replies.\<close>

theorem session_is_two_queues:
  assumes "run_steps (duplex_step decode encode) (new_duplex sid pk fd) es = Some d"
    and "run_allowed (duplex_step decode encode) (duplex_calm decode encode) (new_duplex sid pk fd) es"
  shows "run_steps queues_step (empty_fifo, empty_fifo) (map duplex_op es) =
    Some (\<lparr>queue = drop (length (sv_pty_in (du_server d))) (du_typed d), received = sv_pty_in (du_server d)\<rparr>,
      \<lparr>queue = drop (length (jo_printed (du_joint d))) (sv_output (du_server d)), received = jo_printed (du_joint d)\<rparr>)"
proof -
  have "queues_of (new_duplex sid pk fd) = (empty_fifo, empty_fifo)"
    by (simp add: queues_of_def input_fifo_def output_fifo_def empty_fifo_def new_duplex_def new_joint_def new_server_def)
  with duplex.run_simulated[OF duplex_ok_new assms(2,1)] show ?thesis
    by (simp add: queues_of_def input_fifo_def output_fifo_def)
qed

text \<open>The first connection is lost after one chunk was typed and before the server read it; another is typed
  and one printed while it is down; the second connection brings all of them.\<close>

definition encode_mark :: "Envelope \<Rightarrow> bytes" where
  "encode_mark e =
     (case payload e of
        Some (PSessionOpen _) \<Rightarrow> [0]
      | Some (PSessionAccept sa) \<Rightarrow> [200, (case sa_last_received_seq sa 0 of None \<Rightarrow> 0 | Some w \<Rightarrow> ucast w)]
      | _ \<Rightarrow> [])"

definition duplex_run :: "duplex_event list" where
  "duplex_run =
     [Joint (open_mark 0), Joint (Server Install), Joint (Server QueueReplays), ClientResume, TypeChunk [97],
      ConnLost, TypeChunk [98], Joint (Server (PtyRead [65])), Joint (Server PtyForward), Joint (Server EndConnection),
      Joint ClientEnds, Joint (open_mark 0), Joint (Server Install), Joint (Server QueueReplays), ClientResume,
      ServerRecv, ServerRecv, Joint (Server PtyWrite), Joint ClientRecv, Joint StdoutWrite]"

lemma be_bytes_four:
  "be_bytes 4 n = [word_of_nat (n div 256 div 256 div 256), word_of_nat (n div 256 div 256), word_of_nat (n div 256),
     word_of_nat n]"
proof -
  have four: "(4::nat) = Suc (Suc (Suc (Suc 0)))" by simp
  show ?thesis by (simp only: four be_bytes.simps append.simps)
qed

lemmas duplex_eval = duplex_run_def new_duplex_def duplex_joint_def type_chunk_def server_recv_def client_resume_def
  du_tasks_def accept_decodes_def encode_mark_def read_session_accept_def be_bytes_four fun_eq_iff vec_ok_def joint_eval server_eval

text \<open>What \<open>duplex_calm\<close> excludes for the input: a reader aborted between its effects loses the chunk for good.\<close>

definition aborted_run :: "duplex_event list" where
  "aborted_run =
     [Joint (open_mark 0), Joint (Server Install), Joint (Server QueueReplays), ClientResume, TypeChunk [97],
      ServerRecvAborted, Joint (Server EndConnection), Joint ClientEnds, Joint (open_mark 0), Joint (Server Install),
      Joint (Server QueueReplays), ClientResume, TypeChunk [98], ServerRecv]"

lemma aborted_reader_loses_input:
  "map_option (\<lambda>d. (du_typed d, sv_pty_in (du_server d), du_wire d))
     (run_steps (duplex_step decode_mark encode_mark) (new_duplex [7] ''k'' True) aborted_run) =
   Some ([[97], [98]], [[98]], [])"
  by (simp add: aborted_run_def server_recv_aborted_def duplex_eval)

theorem session_is_two_queues_witness:
  "\<exists>d. run_steps (duplex_step decode_mark encode_mark) (new_duplex [7] ''k'' True) duplex_run = Some d
     \<and> run_steps queues_step (empty_fifo, empty_fifo) (map duplex_op duplex_run) =
         Some (\<lparr>queue = [], received = [[97], [98]]\<rparr>, \<lparr>queue = [], received = [[65]]\<rparr>)"
proof -
  let ?run = "run_steps (duplex_step decode_mark encode_mark) (new_duplex [7] ''k'' True) duplex_run"
  have "case ?run of None \<Rightarrow> False | Some d \<Rightarrow> sv_pty_in (du_server d) = [[97], [98]] \<and> du_typed d = [[97], [98]]
      \<and> jo_printed (du_joint d) = [[65]] \<and> sv_output (du_server d) = [[65]]"
    by (simp add: duplex_eval)
  then obtain d where d: "?run = Some d" "sv_pty_in (du_server d) = [[97], [98]]" "du_typed d = [[97], [98]]"
    "jo_printed (du_joint d) = [[65]]" "sv_output (du_server d) = [[65]]"
    by (auto split: option.splits)
  have "run_allowed (duplex_step decode_mark encode_mark) (duplex_calm decode_mark encode_mark) (new_duplex [7] ''k'' True)
      duplex_run"
    by (simp add: duplex_eval)
  from session_is_two_queues[OF d(1) this] d show ?thesis by simp
qed

end
