(* ===== verification/Recovery.thy ===== *)
theory Recovery
  imports Duplex
begin

text \<open>
  That a session recovers: from every state a \<open>Duplex\<close> system can reach in runs as described there, the end
  of \<open>run_session\<close> and of the connection, one handshake and the steps of the tasks bring everything typed to
  the PTY and everything printed to the client's stdout.  The handshake is the one the two programs
  perform, on the codec's bytes.
\<close>

section \<open>Runs without new input or output\<close>

fun recovery_event :: "duplex_event \<Rightarrow> bool" where
  "recovery_event (TypeChunk data) = False"
| "recovery_event (Joint (Server (PtyRead data))) = False"
| "recovery_event _ = True"

definition recovers ::
    "(bytes \<Rightarrow> Envelope option) \<Rightarrow> (Envelope \<Rightarrow> bytes) \<Rightarrow> duplex \<Rightarrow> duplex \<Rightarrow> bool" where
  "recovers decode encode d d' \<longleftrightarrow> (\<exists>es. list_all recovery_event es \<and>
     run_steps (duplex_step decode encode) d es = Some d' \<and>
     run_allowed (duplex_step decode encode) (duplex_calm decode encode) d es)"

lemma recovers_refl [simp]: "recovers decode encode d d"
  by (auto simp: recovers_def intro!: exI[of _ "[]"])

lemma recovers_step:
  "duplex_step decode encode d e = Some d' \<Longrightarrow> duplex_calm decode encode d e \<Longrightarrow> recovery_event e \<Longrightarrow>
   recovers decode encode d d'"
  unfolding recovers_def by (intro exI[of _ "[e]"]) simp

lemma recovers_trans [trans]:
  assumes "recovers decode encode a b" and "recovers decode encode b c"
  shows "recovers decode encode a c"
proof -
  obtain es fs where "list_all recovery_event es" "run_steps (duplex_step decode encode) a es = Some b"
    "run_allowed (duplex_step decode encode) (duplex_calm decode encode) a es"
    "list_all recovery_event fs" "run_steps (duplex_step decode encode) b fs = Some c"
    "run_allowed (duplex_step decode encode) (duplex_calm decode encode) b fs"
    using assms by (auto simp: recovers_def)
  then show ?thesis
    unfolding recovers_def by (intro exI[of _ "es @ fs"]) (simp add: run_steps_append run_allowed_append)
qed

lemma recovers_keeps:
  assumes "duplex_ok decode d" and "recovers decode encode d d'"
  shows "duplex_ok decode d' \<and> du_typed d' = du_typed d \<and> sv_output (du_server d') = sv_output (du_server d)"
proof -
  obtain es where "list_all recovery_event es" "run_steps (duplex_step decode encode) d es = Some d'"
    "run_allowed (duplex_step decode encode) (duplex_calm decode encode) d es"
    using assms(2) by (auto simp: recovers_def)
  then show ?thesis using assms(1)
  proof (induction es arbitrary: d)
    case (Cons e es)
    then obtain d1 where d1: "duplex_step decode encode d e = Some d1" "run_steps (duplex_step decode encode) d1 es = Some d'"
      by (auto split: Option.bind_splits)
    have e: "recovery_event e" "duplex_calm decode encode d e"
      "run_allowed (duplex_step decode encode) (duplex_calm decode encode) d1 es" "list_all recovery_event es"
      using Cons.prems d1(1) by simp_all
    have "du_typed d1 = du_typed d" "sv_output (du_server d1) = sv_output (du_server d)"
      using duplex_step_ghosts[OF d1(1)] duplex_step_output[OF d1(1)] e(1)
      by (auto split: duplex_event.splits joint_event.splits server_event.splits)
    with Cons.IH[OF e(4) d1(2) e(3) duplex_ok_step[OF Cons.prems(4) e(2) d1(1)]] show ?case by simp
  qed simp
qed

section \<open>The stages\<close>

text \<open>What was received is printed before the session ends.\<close>

lemma stage_print:
  "(jo_queue (du_joint d) \<noteq> [] \<Longrightarrow> jo_session (du_joint d)) \<Longrightarrow> recovers decode encode d
     (d\<lparr>du_joint := (du_joint d)\<lparr>jo_queue := [], jo_printed := jo_printed (du_joint d) @ jo_queue (du_joint d)\<rparr>\<rparr>)"
proof (induction "jo_queue (du_joint d)" arbitrary: d)
  case Nil
  have "d\<lparr>du_joint := (du_joint d)\<lparr>jo_queue := [], jo_printed := jo_printed (du_joint d) @ jo_queue (du_joint d)\<rparr>\<rparr> = d"
    by (cases d; cases "du_joint d") (use Nil in simp)
  then show ?case by (metis recovers_refl)
next
  case (Cons x q)
  let ?d1 = "d\<lparr>du_joint := (du_joint d)\<lparr>jo_queue := q, jo_printed := jo_printed (du_joint d) @ [x]\<rparr>\<rparr>"
  have s: "jo_session (du_joint d)" using Cons.prems Cons(2)[symmetric] by simp
  have "recovers decode encode d ?d1"
    by (rule recovers_step[of _ _ _ "Joint StdoutWrite"])
      (simp_all add: duplex_joint_def stdout_write_def Cons(2)[symmetric] s)
  also have "recovers decode encode ?d1 (?d1\<lparr>du_joint := (du_joint ?d1)\<lparr>jo_queue := [],
      jo_printed := jo_printed (du_joint ?d1) @ jo_queue (du_joint ?d1)\<rparr>\<rparr>)"
    by (rule Cons(1)) (simp_all add: s)
  finally show ?case by (simp add: Cons(2)[symmetric])
qed

lemma stage_cut:
  assumes "jo_queue (du_joint d) = []"
  shows "\<exists>d'. recovers decode encode d d' \<and> sv_active_conn (du_server d') = None \<and> sv_pending (du_server d') = None
     \<and> sv_holding (du_server d') = None \<and> sv_session (du_server d') = sv_session (du_server d)
     \<and> du_client d' = du_client d \<and> sv_output (du_server d') = sv_output (du_server d)
     \<and> jo_printed (du_joint d') = jo_printed (du_joint d) \<and> jo_queue (du_joint d') = [] \<and> \<not> jo_session (du_joint d')"
proof -
  let ?sv = "end_connection (du_server d)"
  let ?d1 = "d\<lparr>du_joint := (du_joint d)\<lparr>jo_server := ?sv\<rparr>, du_wire := [], du_conn := False, du_up := False\<rparr>"
  let ?d2 = "?d1\<lparr>du_joint := (du_joint ?d1)\<lparr>jo_server := ?sv\<lparr>sv_holding := None\<rparr>\<rparr>\<rparr>"
  have idle: "sv_pending ?sv = None" "sv_pty_tx ?sv = None" "sv_holding ?sv = sv_holding (du_server d)"
    by (simp_all add: end_connection_def)
  have r1: "recovers decode encode d ?d1"
    by (rule recovers_step[of _ _ _ "Joint (Server EndConnection)"])
      (simp_all add: duplex_joint_def joint_server_def idle)
  have r2: "recovers decode encode ?d1 ?d2"
  proof (cases "sv_holding (du_server d)")
    case None
    have "?sv\<lparr>sv_holding := None\<rparr> = ?sv" by (cases "du_server d") (use None in \<open>simp add: end_connection_def\<close>)
    moreover have "?d2 = d\<lparr>du_joint := (du_joint d)\<lparr>jo_server := ?sv\<lparr>sv_holding := None\<rparr>\<rparr>, du_wire := [],
        du_conn := False, du_up := False\<rparr>" by simp
    ultimately show ?thesis by (metis recovers_refl)
  next
    case (Some c)
    show ?thesis
      by (rule recovers_step[of _ _ _ "Joint (Server PtyForward)"])
        (simp_all add: duplex_joint_def joint_server_def pty_forward_def idle Some)
  qed
  let ?d3 = "?d2\<lparr>du_joint := (du_joint ?d2)\<lparr>jo_session := False, jo_queue := []\<rparr>, du_conn := False, du_up := False,
    du_accept := None\<rparr>"
  show ?thesis
  proof (cases "jo_session (du_joint d)")
    case True
    have "recovers decode encode ?d2 ?d3"
      by (rule recovers_step[of _ _ _ "Joint ClientEnds"]) (simp_all add: duplex_joint_def client_ends_def True assms)
    from recovers_trans[OF recovers_trans[OF r1 r2] this] show ?thesis
      by (intro exI[of _ ?d3]) (simp add: end_connection_def)
  next
    case False
    then show ?thesis using recovers_trans[OF r1 r2] assms by (intro exI[of _ ?d2]) (simp add: end_connection_def)
  qed
qed

lemma stage_write:
  "sv_pending (du_server d) = None \<Longrightarrow> sv_pty_tx (du_server d) = Some q \<Longrightarrow>
   recovers decode encode d (d\<lparr>du_joint := (du_joint d)\<lparr>jo_server := (du_server d)
     \<lparr>sv_pty_tx := Some [], sv_written := sv_written (du_server d) @ q\<rparr>\<rparr>\<rparr>)"
proof (induction q arbitrary: d)
  case Nil
  have "d\<lparr>du_joint := (du_joint d)\<lparr>jo_server := (du_server d)
     \<lparr>sv_pty_tx := Some [], sv_written := sv_written (du_server d) @ []\<rparr>\<rparr>\<rparr> = d"
    by (cases d; cases "du_joint d"; cases "du_server d") (use Nil in simp)
  then show ?case by (metis recovers_refl)
next
  case (Cons c q)
  let ?d1 = "d\<lparr>du_joint := (du_joint d)\<lparr>jo_server := (du_server d)
     \<lparr>sv_pty_tx := Some q, sv_written := sv_written (du_server d) @ [c]\<rparr>\<rparr>\<rparr>"
  have "recovers decode encode d ?d1"
    by (rule recovers_step[of _ _ _ "Joint (Server PtyWrite)"])
      (simp_all add: duplex_joint_def joint_server_def pty_writer_step_def Cons.prems)
  also have "recovers decode encode ?d1 (?d1\<lparr>du_joint := (du_joint ?d1)\<lparr>jo_server := (du_server ?d1)
     \<lparr>sv_pty_tx := Some [], sv_written := sv_written (du_server ?d1) @ q\<rparr>\<rparr>\<rparr>)"
    by (rule Cons.IH) (simp_all add: Cons.prems)
  finally show ?case by simp
qed

lemma stage_read:
  "sv_pending (du_server d) = None \<Longrightarrow> jo_queue (du_joint d) = [] \<Longrightarrow> du_tasks d \<Longrightarrow>
   \<exists>d'. recovers decode encode d d' \<and> du_server d' = du_server d \<and> jo_queue (du_joint d') = []
     \<and> length (sv_written (du_server d)) \<le> jo_read (du_joint d') \<and> du_up d' = du_up d \<and> du_wire d' = du_wire d"
proof (induction "length (sv_written (du_server d)) - jo_read (du_joint d)" arbitrary: d)
  case 0
  then show ?case by (intro exI[of _ d]) simp
next
  case (Suc n)
  obtain sq data where c: "sv_written (du_server d) ! jo_read (du_joint d) = (sq, data)"
    by (cases "sv_written (du_server d) ! jo_read (du_joint d)")
  let ?d1 = "d\<lparr>du_joint := (du_joint d)\<lparr>jo_client := receive_chunk (du_client d) sq, jo_queue := [data],
     jo_read := Suc (jo_read (du_joint d))\<rparr>\<rparr>"
  let ?d2 = "?d1\<lparr>du_joint := (du_joint ?d1)\<lparr>jo_queue := [], jo_printed := jo_printed (du_joint ?d1) @ [data]\<rparr>\<rparr>"
  have "recovers decode encode d ?d1"
    by (rule recovers_step[of _ _ _ "Joint ClientRecv"])
      (use Suc.hyps(2) Suc.prems c in \<open>simp_all add: duplex_joint_def du_tasks_def client_recv_def pty_recv_step_def try_send_def STDOUT_CHANNEL_def\<close>)
  also have "recovers decode encode ?d1 ?d2"
    by (rule recovers_step[of _ _ _ "Joint StdoutWrite"])
      (use Suc.prems in \<open>simp_all add: duplex_joint_def stdout_write_def du_tasks_def\<close>)
  finally have r: "recovers decode encode d ?d2" .
  obtain d' where "recovers decode encode ?d2 d'" "du_server d' = du_server ?d2" "jo_queue (du_joint d') = []"
    "length (sv_written (du_server ?d2)) \<le> jo_read (du_joint d')" "du_up d' = du_up ?d2" "du_wire d' = du_wire ?d2"
    using Suc.hyps(1)[of ?d2] Suc.hyps(2) Suc.prems by (fastforce simp: du_tasks_def)
  with recovers_trans[OF r] show ?case by (intro exI[of _ d']) auto
qed

lemma stage_input:
  "sv_pending (du_server d) = None \<Longrightarrow> sv_active_conn (du_server d) \<noteq> None \<Longrightarrow>
   \<exists>d'. recovers decode encode d d' \<and> du_wire d' = [] \<and> du_up d' = du_up d
     \<and> sv_pending (du_server d') = None \<and> sv_pty_tx (du_server d') = sv_pty_tx (du_server d)
     \<and> sv_holding (du_server d') = sv_holding (du_server d) \<and> sv_written (du_server d') = sv_written (du_server d)
     \<and> jo_queue (du_joint d') = jo_queue (du_joint d) \<and> jo_read (du_joint d') = jo_read (du_joint d)
     \<and> du_tasks d' = du_tasks d"
proof (induction "du_wire d" arbitrary: d)
  case Nil
  then show ?case by (intro exI[of _ d]) simp
next
  case (Cons c w)
  obtain sq data where c: "c = (sq, data)" by (cases c)
  let ?d1 = "d\<lparr>du_joint := (du_joint d)\<lparr>jo_server := pty_reader_step sq data (du_server d)\<rparr>, du_wire := w\<rparr>"
  have r: "recovers decode encode d ?d1"
    by (rule recovers_step[of _ _ _ ServerRecv])
      (use Cons.prems in \<open>simp_all add: server_recv_def Cons.hyps(2)[symmetric] c\<close>)
  obtain d' where "recovers decode encode ?d1 d'" "du_wire d' = [] \<and> du_up d' = du_up ?d1
     \<and> sv_pending (du_server d') = None \<and> sv_pty_tx (du_server d') = sv_pty_tx (du_server ?d1)
     \<and> sv_holding (du_server d') = sv_holding (du_server ?d1) \<and> sv_written (du_server d') = sv_written (du_server ?d1)
     \<and> jo_queue (du_joint d') = jo_queue (du_joint ?d1) \<and> jo_read (du_joint d') = jo_read (du_joint ?d1)
     \<and> du_tasks d' = du_tasks ?d1"
    using Cons.hyps(1)[of ?d1] Cons.prems by (fastforce simp: pty_reader_step_def)
  with recovers_trans[OF r] show ?case by (intro exI[of _ d']) (auto simp: pty_reader_step_def du_tasks_def)
qed

lemma install_Some:
  assumes "sv_pending sv = Some p" and "\<not> pd_installed p"
  shows "\<exists>sv'. install_connection sv = Some sv' \<and> sv_pending sv' = Some (p\<lparr>pd_installed := True\<rparr>)
    \<and> sv_pty_tx sv' = Some [] \<and> sv_active_conn sv' \<noteq> None \<and> sv_holding sv' = sv_holding sv"
  using assms by (simp add: install_connection_def Let_def case_prod_unfold)

text \<open>The handshake on the server, up to the end of the replay loop.\<close>

lemma stage_connect:
  assumes ok: "duplex_ok decode d"
    and idle: "sv_active_conn (du_server d) = None" "sv_pending (du_server d) = None" "sv_holding (du_server d) = None"
    and read: "read_session_open decode ctrl = Inr (so, r)" and auth: "authenticated (sv_session (du_server d)) so"
    and mark: "so_last_received_seq so 0 = last_received_map (du_client d) 0"
    and accept: "accept_decodes decode encode (du_server d)"
    and few: "length (sv_output (du_server d)) \<le> length (jo_printed (du_joint d)) + PTY_CHANNEL"
    and client: "\<not> jo_session (du_joint d)" "jo_queue (du_joint d) = []"
  shows "\<exists>d'. recovers decode encode d d' \<and> sv_pending (du_server d') = None \<and> sv_active_conn (du_server d') \<noteq> None
    \<and> sv_holding (du_server d') = None \<and> (\<exists>q. sv_pty_tx (du_server d') = Some q) \<and> du_accept d' \<noteq> None
    \<and> jo_queue (du_joint d') = [] \<and> jo_session (du_joint d') \<and> du_conn d'"
proof -
  let ?s = "\<lparr>outgoing = [], budget = None\<rparr>"
  have fit: "length (encode (envelope_of (PSessionAccept
      \<lparr>sa_last_received_seq = last_received_map (sv_session (du_server d))\<rparr>))) \<le> MAX_CONTROL_MSG"
    using accept by (simp add: accept_decodes_def Let_def)
  obtain sv1 p where o: "open_session decode encode 0 [] False ctrl ?s (du_server d) = (SessionOpened, sv1)"
    and p: "sv_pending sv1 = Some p" "\<not> pd_installed p" "sv_active_conn sv1 = None" "sv_holding sv1 = None"
    using open_session_accepts[where encode = encode and decode = decode, OF read auth fit, of ?s 0 "[]"] idle
    by auto
  let ?d1 = "d\<lparr>du_joint := (du_joint d)\<lparr>jo_server := sv1, jo_session := True, jo_queue := []\<rparr>, du_wire := [],
    du_conn := True, du_up := False, du_accept := Some (outgoing (pd_ctrl p))\<rparr>"
  have r1: "recovers decode encode d ?d1"
    by (rule recovers_step[of _ _ _ "Joint (Server (OpenSession 0 [] False ctrl ?s))"])
      (simp_all add: duplex_joint_def joint_server_def idle o p read mark accept client)
  obtain k where k: "jo_printed (du_joint d) = take k (sv_output sv1)"
    "k \<le> length (sv_output sv1)" "pd_replays p = drop k (numbered (sv_output sv1))"
    using recovers_keeps[OF ok r1] p by (auto simp: duplex_ok_def joint_ok_def joint_at_def out_ok_def)
  have "length (sv_output sv1) \<le> k + PTY_CHANNEL"
    using few recovers_keeps[OF ok r1] k(1,2) by simp
  then have fits: "length (pd_replays p) \<le> PTY_CHANNEL" by (simp add: k(3))
  obtain sv2 where sv2: "install_connection sv1 = Some sv2" "sv_pending sv2 = Some (p\<lparr>pd_installed := True\<rparr>)"
    "sv_pty_tx sv2 = Some []" "sv_active_conn sv2 \<noteq> None" "sv_holding sv2 = None"
    using install_Some[OF p(1,2)] p(4) by auto
  let ?d2 = "?d1\<lparr>du_joint := (du_joint ?d1)\<lparr>jo_server := sv2, jo_read := 0\<rparr>\<rparr>"
  have r2: "recovers decode encode ?d1 ?d2"
    by (rule recovers_step[of _ _ _ "Joint (Server Install)"]) (simp_all add: duplex_joint_def joint_server_def sv2 p)
  let ?sv3 = "sv2\<lparr>sv_pty_tx := Some (fold (try_send PTY_CHANNEL) (pd_replays p) []), sv_pending := None\<rparr>"
  let ?d3 = "?d2\<lparr>du_joint := (du_joint ?d2)\<lparr>jo_server := ?sv3\<rparr>\<rparr>"
  have r3: "recovers decode encode ?d2 ?d3"
    by (rule recovers_step[of _ _ _ "Joint (Server QueueReplays)"])
      (simp_all add: duplex_joint_def joint_server_def queue_replays_def sv2 fits)
  from recovers_trans[OF recovers_trans[OF r1 r2] r3] show ?thesis
    by (intro exI[of _ ?d3]) (simp add: sv2)
qed

lemma stage_resume:
  assumes ok: "duplex_ok decode d" and "du_accept d \<noteq> None" and "du_conn d" "jo_session (du_joint d)"
  shows "\<exists>d'. recovers decode encode d d' \<and> du_up d' \<and> du_tasks d' \<and> du_server d' = du_server d
    \<and> jo_queue (du_joint d') = jo_queue (du_joint d) \<and> jo_read (du_joint d') = jo_read (du_joint d)"
proof -
  obtain d' where d': "client_resume decode d = Some d'"
    using assms(2) ok by (auto simp: client_resume_def duplex_ok_def Let_def)
  then have "recovers decode encode d d'" by (intro recovers_step[of _ _ _ ClientResume]) simp_all
  with client_resume_parts[OF ok d'] assms(3,4) show ?thesis by (intro exI[of _ d']) (simp add: du_tasks_def)
qed

text \<open>When nothing is left on the way, both directions are complete.\<close>

lemma drained_complete:
  assumes "duplex_ok decode d" and "sv_pending (du_server d) = None" "sv_pty_tx (du_server d) = Some []" "sv_holding (du_server d) = None"
    and "length (sv_written (du_server d)) \<le> jo_read (du_joint d)" "jo_queue (du_joint d) = []"
    and "du_up d" "du_wire d = []"
  shows "sv_pty_in (du_server d) = du_typed d \<and> jo_printed (du_joint d) = sv_output (du_server d)"
proof -
  obtain k n where k: "sv_pty_in (du_server d) = take k (du_typed d)" "k \<le> length (du_typed d)"
    "du_wire d = take n (drop k (numbered (du_typed d)))" "du_up d \<longrightarrow> length (du_typed d) \<le> k + n"
    using exact_input[of d] assms(1) by (auto simp: duplex_ok_def)
  then have "sv_pty_in (du_server d) = du_typed d" using assms(7,8) by auto
  moreover obtain i where i: "jo_printed (du_joint d) @ jo_queue (du_joint d) = take i (sv_output (du_server d))"
    "out_ok (du_server d) i (jo_read (du_joint d))"
    using assms(1) by (auto simp: duplex_ok_def joint_ok_def joint_at_def)
  then have "drop i (numbered (sv_output (du_server d))) = []"
    using assms(2-5) by (simp add: out_ok_def the_list_def)
  then have "jo_printed (du_joint d) = sv_output (du_server d)" using i(1) assms(6) by simp
  ultimately show ?thesis by simp
qed

section \<open>Recovery\<close>

lemma recovery:
  assumes ok: "duplex_ok decode d"
    and read: "read_session_open decode ctrl = Inr (so, r)" and auth: "authenticated (sv_session (du_server d)) so"
    and mark: "so_last_received_seq so 0 = last_received_map (du_client d) 0"
    and accept: "accept_decodes decode encode (du_server d)"
    and few: "length (sv_output (du_server d)) \<le> length (jo_printed (du_joint d) @ jo_queue (du_joint d)) + PTY_CHANNEL"
  shows "\<exists>d'. recovers decode encode d d' \<and> sv_pty_in (du_server d') = du_typed d
    \<and> jo_printed (du_joint d') = sv_output (du_server d)"
proof -
  let ?d0 = "d\<lparr>du_joint := (du_joint d)\<lparr>jo_queue := [], jo_printed := jo_printed (du_joint d) @ jo_queue (du_joint d)\<rparr>\<rparr>"
  have d0: "recovers decode encode d ?d0"
    by (rule stage_print) (use ok in \<open>auto simp: duplex_ok_def joint_ok_def joint_at_def\<close>)
  obtain d1 where d1: "recovers decode encode ?d0 d1" "sv_active_conn (du_server d1) = None"
    "sv_pending (du_server d1) = None" "sv_holding (du_server d1) = None"
    "sv_session (du_server d1) = sv_session (du_server d)" "du_client d1 = du_client d"
    "sv_output (du_server d1) = sv_output (du_server d)"
    "jo_printed (du_joint d1) = jo_printed (du_joint d) @ jo_queue (du_joint d)" "jo_queue (du_joint d1) = []"
    "\<not> jo_session (du_joint d1)"
    using stage_cut[of ?d0 decode encode] by auto
  have r1: "recovers decode encode d d1" by (rule recovers_trans[OF d0 d1(1)])
  have few1: "length (sv_output (du_server d1)) \<le> length (jo_printed (du_joint d1)) + PTY_CHANNEL"
    and acc1: "accept_decodes decode encode (du_server d1)"
    using few accept d1(5,7,8) by (simp_all add: accept_decodes_def)
  obtain d2 q where d2: "recovers decode encode d1 d2" "sv_pending (du_server d2) = None" "sv_active_conn (du_server d2) \<noteq> None"
    "sv_holding (du_server d2) = None" "sv_pty_tx (du_server d2) = Some q" "du_accept d2 \<noteq> None"
    "jo_queue (du_joint d2) = []" "jo_session (du_joint d2)" "du_conn d2"
    using stage_connect[OF _ d1(2-4) read _ _ acc1 few1 d1(10,9)] recovers_keeps[OF ok r1] auth mark d1(5,6) by auto
  have ok2: "duplex_ok decode d2" using recovers_keeps[OF ok recovers_trans[OF r1 d2(1)]] by simp
  obtain d3 where d3: "recovers decode encode d2 d3" "du_up d3" "du_tasks d3" "du_server d3 = du_server d2"
    "jo_queue (du_joint d3) = []"
    using stage_resume[OF ok2 d2(6,9,8), of encode] d2(7) by auto
  obtain d4 where d4: "recovers decode encode d3 d4" "du_wire d4 = []" "du_up d4"
    "sv_pending (du_server d4) = None" "sv_pty_tx (du_server d4) = Some q" "sv_holding (du_server d4) = None"
    "jo_queue (du_joint d4) = []" "du_tasks d4"
    using stage_input[of d3 decode encode] d2(2-5) d3 by auto
  let ?d5 = "d4\<lparr>du_joint := (du_joint d4)\<lparr>jo_server := (du_server d4)
     \<lparr>sv_pty_tx := Some [], sv_written := sv_written (du_server d4) @ q\<rparr>\<rparr>\<rparr>"
  have d5: "recovers decode encode d4 ?d5" by (rule stage_write) (simp_all add: d4)
  obtain d6 where d6: "recovers decode encode ?d5 d6" "du_server d6 = du_server ?d5" "jo_queue (du_joint d6) = []"
    "length (sv_written (du_server ?d5)) \<le> jo_read (du_joint d6)" "du_up d6" "du_wire d6 = []"
    using stage_read[of ?d5 decode encode] d4 by (auto simp: du_tasks_def)
  have r: "recovers decode encode d d6"
    using r1 d2(1) d3(1) d4(1) d5 d6(1) by (blast intro: recovers_trans)
  have "sv_pending (du_server d6) = None" "sv_pty_tx (du_server d6) = Some []" "sv_holding (du_server d6) = None"
    "length (sv_written (du_server d6)) \<le> jo_read (du_joint d6)"
    using d4(4-6) d6(2,4) by simp_all
  from drained_complete[OF conjunct1[OF recovers_keeps[OF ok r]] this d6(3,5,6)] r recovers_keeps[OF ok r]
  show ?thesis by metis
qed

section \<open>The credentials\<close>

text \<open>Both sessions keep the id and the passkey they were created with, so the opening of the client passes
  the check of the server.\<close>

definition holds_credentials :: "bytes \<Rightarrow> string \<Rightarrow> SessionState \<Rightarrow> bool" where
  "holds_credentials sid pk st \<longleftrightarrow> session_id st = sid \<and> passkey st = pk"

lemma holds_credentials_simps [simp]:
  "holds_credentials sid pk (apply_server_acks st a) = holds_credentials sid pk st"
  "holds_credentials sid pk (receive_chunk st q) = holds_credentials sid pk st"
  by (simp_all add: holds_credentials_def)

lemma holds_credentials_send:
  "send_chunk st d = Some (q, st') \<Longrightarrow> holds_credentials sid pk st' = holds_credentials sid pk st"
  using send_chunk_credentials[of st d q st'] by (simp add: holds_credentials_def)

lemma server_credentials:
  assumes "server_step decode encode sv e = Some sv'"
  shows "holds_credentials sid pk (sv_session sv') = holds_credentials sid pk (sv_session sv)"
proof (cases e)
  case (OpenSession conn peer t ctrl s)
  then have "sv' = snd (open_session decode encode conn peer t ctrl s sv)" using assms by (auto split: if_splits)
  then show ?thesis by (auto simp: open_session_def fst_resume_session Let_def split: sum.splits prod.splits)
next
  case (PtyRead d)
  then show ?thesis
    using assms holds_credentials_send by (fastforce simp: pty_read_def split: if_splits option.splits)
next
  case (CtrlMsg m)
  then have "sv' = snd (ctrl_reader_step m sv)" using assms by (auto split: if_splits)
  then show ?thesis by (cases m sv rule: ctrl_reader_cases) simp_all
qed (use assms in \<open>auto simp: task_defs Let_def split: if_splits option.splits list.splits prod.splits\<close>)

definition sealed :: "bytes \<Rightarrow> string \<Rightarrow> duplex \<Rightarrow> bool" where
  "sealed sid pk d \<longleftrightarrow> holds_credentials sid pk (du_client d) \<and> holds_credentials sid pk (sv_session (du_server d))"

lemma joint_credentials:
  assumes "joint_step decode encode j e = Some j'"
  shows "holds_credentials sid pk (jo_client j') = holds_credentials sid pk (jo_client j)
    \<and> holds_credentials sid pk (sv_session (jo_server j')) = holds_credentials sid pk (sv_session (jo_server j))"
proof (cases e)
  case (Server e')
  have "joint_step decode encode j (Server e') = Some j'" using assms Server by simp
  then obtain sv where "server_step decode encode (jo_server j) e' = Some sv" "jo_server j' = sv" "jo_client j' = jo_client j"
    by (rule joint_server_cases)
  then show ?thesis using server_credentials by fastforce
next
  case ClientRecv
  obtain sq data where "sv_written (jo_server j) ! jo_read j = (sq, data)" by (cases "sv_written (jo_server j) ! jo_read j")
  then show ?thesis using assms ClientRecv by (auto simp: client_recv_def pty_recv_step_def split: if_splits)
next
  case StdoutWrite
  then show ?thesis using assms by (auto simp: stdout_write_def split: list.splits bool.splits)
next
  case ClientEnds
  then show ?thesis using assms by (auto simp: client_ends_def split: if_splits)
qed

lemma sealed_step:
  assumes "sealed sid pk d" and "duplex_step decode encode d e = Some d'"
  shows "sealed sid pk d'"
proof (cases e)
  case (Joint je)
  then obtain j where "joint_step decode encode (du_joint d) je = Some j" "du_joint d' = j"
    using assms(2) by (auto simp: duplex_joint_def split: option.splits joint_event.splits server_event.splits if_splits)
  with joint_credentials[OF this(1), of sid pk] assms(1) show ?thesis by (simp add: sealed_def)
next
  case (TypeChunk data)
  then show ?thesis using assms holds_credentials_send
    by (fastforce simp: sealed_def type_chunk_def split: option.splits if_splits)
next
  case ServerRecv
  then obtain sq data j where "joint_step decode encode (du_joint d) (Server (Received sq data)) = Some j" "du_joint d' = j"
    using assms(2) by (auto simp: server_recv_def simp del: joint_step.simps split: list.splits)
  with joint_credentials[OF this(1), of sid pk] assms(1) show ?thesis by (simp add: sealed_def)
next
  case (ClientHeartbeat acks)
  then show ?thesis using assms by (auto simp: sealed_def client_heartbeat_def client_ctrl_step_def envelope_of_def split: if_splits)
qed (use assms in \<open>auto simp: sealed_def client_resume_def server_recv_aborted_def Let_def
    split: option.splits sum.splits list.splits if_splits\<close>)

interpretation sealed: step_invariant "duplex_step decode encode" "\<lambda>_ _. True" "sealed sid pk" for decode encode sid pk
  by unfold_locales (rule sealed_step)

section \<open>Properties\<close>

text \<open>C3 (liveness): a session recovers.  From every state a run of client and server can reach under the
  conditions of \<open>session_is_two_queues\<close>, with connections lost at any point, one more connection brings both
  directions to completion: without any new input or output there is a run after which everything typed
  has reached the PTY, and everything the shell has printed has been printed by the client.  In that run,
  too, the stdout task prints what was received before \<open>run_session\<close> returns, and the handshake does not
  race with the PTY reader.  The connection opens with the message the client really sends, with its own
  credentials and watermarks, and the client resumes with what it reads from the bytes of the server's
  reply; the codec has to decode these two messages.  At most the 1000 chunks that the queue of the PTY
  writer holds may be missing at the client.\<close>

theorem session_recovers:
  fixes reverse :: "string list" and gateway forward_x :: bool and auth_proto :: string and cookie :: bytes
  defines "hello d \<equiv> session_open_of (session_id (du_client d)) (passkey (du_client d)) (du_client d)
    reverse gateway forward_x auth_proto cookie"
  assumes "run_steps (duplex_step decode encode) (new_duplex sid pk fd) es = Some d"
    and "run_allowed (duplex_step decode encode) (duplex_calm decode encode) (new_duplex sid pk fd) es"
    and "length (encode (envelope_of (PSessionOpen (hello d)))) \<le> MAX_CONTROL_MSG"
    and "decode (encode (envelope_of (PSessionOpen (hello d)))) = Some (envelope_of (PSessionOpen (hello d)))"
    and "accept_decodes decode encode (du_server d)"
    and "length (sv_output (du_server d)) \<le> length (jo_printed (du_joint d) @ jo_queue (du_joint d)) + PTY_CHANNEL"
  shows "\<exists>d'. recovers decode encode d d' \<and> sv_pty_in (du_server d') = du_typed d
    \<and> jo_printed (du_joint d') = sv_output (du_server d)"
proof -
  have ok: "duplex_ok decode d" by (rule duplex.invar_run[OF duplex_ok_new assms(3,2)])
  have "sealed sid pk (new_duplex sid pk fd)"
    by (simp add: sealed_def holds_credentials_def new_duplex_def new_joint_def new_server_def new_session_def)
  from sealed.invar_run[OF this run_allowed_True assms(2)]
  have auth: "authenticated (sv_session (du_server d)) (hello d)"
    by (simp add: authenticated_iff hello_def session_open_of_def sealed_def holds_credentials_def)
  have mark: "so_last_received_seq (hello d) 0 = last_received_map (du_client d) 0"
    by (simp add: hello_def session_open_of_def)
  show ?thesis
    by (rule recovery[where encode = encode and decode = decode and d = d, OF ok read_session_open_of_msg[where encode = encode and decode = decode
          and rest = "[]" and e = Finished, OF assms(4,5)] auth mark assms(6,7)])
qed

text \<open>The connection of \<open>duplex_run\<close> is lost with two chunks typed and one printed, none of them received.\<close>

lemma lost_run:
  "\<exists>d. run_steps (duplex_step decode_mark encode_mark) (new_duplex [7] ''k'' True) (take 10 duplex_run) = Some d
     \<and> du_typed d = [[97], [98]] \<and> sv_output (du_server d) = [[65]] \<and> sv_pty_in (du_server d) = []
     \<and> session_id (du_client d) = [7] \<and> passkey (du_client d) = ''k'' \<and> last_received_map (du_client d) = [0 \<mapsto> 0]
     \<and> last_received_map (sv_session (du_server d)) = [0 \<mapsto> 0]"
  by (simp add: duplex_eval)

theorem session_recovers_witness:
  "\<exists>d d'. run_steps (duplex_step decode_mark encode_mark) (new_duplex [7] ''k'' True) (take 10 duplex_run) = Some d
     \<and> sv_pty_in (du_server d) = [] \<and> recovers decode_mark encode_mark d d'
     \<and> sv_pty_in (du_server d') = [[97], [98]] \<and> jo_printed (du_joint d') = [[65]]"
proof -
  obtain d where d: "run_steps (duplex_step decode_mark encode_mark) (new_duplex [7] ''k'' True) (take 10 duplex_run) = Some d"
    "du_typed d = [[97], [98]]" "sv_output (du_server d) = [[65]]" "sv_pty_in (du_server d) = []"
    "session_id (du_client d) = [7]" "passkey (du_client d) = ''k''" "last_received_map (du_client d) = [0 \<mapsto> 0]"
    "last_received_map (sv_session (du_server d)) = [0 \<mapsto> 0]"
    using lost_run by blast
  have allowed: "run_allowed (duplex_step decode_mark encode_mark) (duplex_calm decode_mark encode_mark)
      (new_duplex [7] ''k'' True) (take 10 duplex_run)"
    by (simp add: duplex_eval)
  have hello: "encode_mark (envelope_of (PSessionOpen so)) = [0]" for so
    by (simp add: encode_mark_def envelope_of_def)
  have "decode_mark [0] = Some (envelope_of (PSessionOpen (session_open_of (session_id (du_client d))
      (passkey (du_client d)) (du_client d) [] False False [] [])))"
    by (simp add: decode_mark_def d session_open_of_def sample_open_def)
  moreover have "accept_decodes decode_mark encode_mark (du_server d)"
    by (simp add: accept_decodes_def d(8) encode_mark_def decode_mark_def envelope_of_def MAX_CONTROL_MSG_def)
  ultimately show ?thesis
    using session_recovers[where encode = encode_mark and decode = decode_mark, OF d(1) allowed, of "[]" False False "[]" "[]",
        unfolded hello] d
    by (auto simp: MAX_CONTROL_MSG_def PTY_CHANNEL_def)
qed

end
