(* ===== verification/Config_File.thy ===== *)
theory Config_File
  imports Bootstrap "HOL-Library.Sublist"
begin

text \<open>
  \<open>src/config.rs\<close>, the configuration file: its default text, the key blocks, loading, and
  \<open>merge_defaults\<close>, which adds the keys a file does not mention yet.  Reading the file and the TOML
  parser are parameters.
\<close>

section \<open>Texts made of lines\<close>

abbreviation dq :: char where "dq \<equiv> CHR 0x22"

definition unlines :: "string list \<Rightarrow> string" where
  "unlines ls = concat (map (\<lambda>l. l @ [newline]) ls)"

definition block :: "string list \<Rightarrow> string" where
  "block ls = join_with [newline] ls"

section \<open>Constants\<close>

definition DEFAULT_CONFIG :: string where
  "DEFAULT_CONFIG =
     unlines
      [''# etr configuration file'',
       ''# All fields are optional. Uncomment and edit as needed.'',
       ''# CLI flags take precedence over config file values.'',
       ''# Config location: $XDG_CONFIG_HOME/etr/config.toml (~/.config/etr/config.toml)'',
       [],
       ''[client]'',
       [],
       ''# SSH port used for the bootstrap connection (default: 22).'',
       ''# ssh_port = 22'',
       [],
       ''# Path to the etrs binary on the remote host (default: '' @ [dq] @ ''etrs'' @ [dq] @ '', relies on PATH).'',
       ''# server_path = '' @ [dq] @ ''etrs'' @ [dq],
       [],
       ''# Which IP version to try first when a host resolves to both: '' @ [dq] @ ''ipv4'' @ [dq] @ '', '' @ [dq] @ ''ipv6'' @ [dq] @ '','',
       ''# or '' @ [dq] @ ''auto'' @ [dq] @ '' (default). A preference, not a restriction '' @ [CHR 0xE2, CHR 0x80, CHR 0x94] @ '' the other family is'',
       ''# still used when the preferred one is absent or unroutable.'',
       ''# Equivalent to -4 / --prefer-ipv4 and -6 / --prefer-ipv6.'',
       ''# address_family = '' @ [dq] @ ''auto'' @ [dq],
       [],
       ''# Path to the client-side log file (default: $XDG_STATE_HOME/etr/etr.log).'',
       ''# Logs are only written when -v or higher is passed.'',
       ''# log_path = '' @ [dq] @ ''~/.local/state/etr/etr.log'' @ [dq],
       [],
       ''# Path to the server log file on the remote host (default: $XDG_STATE_HOME/etr/etrs.log).'',
       ''# server_log_path = '' @ [dq] @ ''~/.local/state/etr/etrs.log'' @ [dq],
       [],
       ''# When true, local forwarded ports are bound to all interfaces (0.0.0.0 and ::)'',
       ''# instead of loopback only, allowing other hosts to connect (default: false).'',
       ''# Equivalent to -g / --gateway-ports.'',
       ''# gateway_ports = false'',
       [],
       ''# Default local port forwards applied to every connection (same syntax as -L).'',
       ''# forward = ['' @ [dq] @ ''8080:localhost:80'' @ [dq] @ '', '' @ [dq] @ ''5353:8.8.8.8:53/udp'' @ [dq] @ '']'',
       [],
       ''# Default remote port forwards applied to every connection (same syntax as -R).'',
       ''# reverse_forward = ['' @ [dq] @ ''9090:localhost:9090'' @ [dq] @ '']'',
       [],
       ''# Environment variables to set or forward in the remote shell.'',
       ''# '' @ [dq] @ ''KEY=VALUE'' @ [dq] @ '' sets the variable; '' @ [dq] @ ''KEY'' @ [dq] @ '' alone forwards it from the local environment.'',
       ''# env = ['' @ [dq] @ ''EDITOR'' @ [dq] @ '', '' @ [dq] @ ''TERM=xterm-256color'' @ [dq] @ '']'',
       [],
       ''# Enable X11 forwarding (default: false).'',
       ''# x11 = false'',
       [],
       ''# Enable trusted X11 forwarding (default: false).'',
       ''# x11_trusted = false'',
       [],
       ''[server]'',
       [],
       ''# How long (seconds) the server keeps a session alive while the client is'',
       ''# disconnected (default: 1800, i.e. 30 minutes).'',
       ''# Overridden by --reconnect-timeout or the ETR_SERVER_NETWORK_TMOUT env var.'',
       ''# reconnect_timeout = 1800'',
       [],
       ''# Which IP version etrs tries first when it resolves the targets of -L'',
       ''# forwards, and which wildcard address it binds by default ('' @ [dq] @ ''ipv4'' @ [dq] @ '' binds'',
       ''# 0.0.0.0; '' @ [dq] @ ''ipv6'' @ [dq] @ ''/'' @ [dq] @ ''auto'' @ [dq] @ '' bind the dual-stack [::]). Equivalent to etrs -4/-6.'',
       ''# A connecting client'' @ [CHR 0x27] @ ''s own -4/-6 overrides this for forward targets.'',
       ''# address_family = '' @ [dq] @ ''auto'' @ [dq]]"

definition CLIENT_KEY_BLOCKS :: "(string \<times> string) list" where
  "CLIENT_KEY_BLOCKS =
     [(''ssh_port'', block
        [''# SSH port used for the bootstrap connection (default: 22).'',
         ''# ssh_port = 22'']),
      (''server_path'', block
        [''# Path to the etrs binary on the remote host (default: '' @ [dq] @ ''etrs'' @ [dq] @ '', relies on PATH).'',
         ''# server_path = '' @ [dq] @ ''etrs'' @ [dq]]),
      (''address_family'', block
        [''# Which IP version to try first when a host resolves to both: '' @ [dq] @ ''ipv4'' @ [dq] @ '', '' @ [dq] @ ''ipv6'' @ [dq] @ '','',
         ''# or '' @ [dq] @ ''auto'' @ [dq] @ '' (default). A preference, not a restriction '' @ [CHR 0xE2, CHR 0x80, CHR 0x94] @ '' the other family is'',
         ''# still used when the preferred one is absent or unroutable.'',
         ''# Equivalent to -4 / --prefer-ipv4 and -6 / --prefer-ipv6.'',
         ''# address_family = '' @ [dq] @ ''auto'' @ [dq]]),
      (''log_path'', block
        [''# Path to the client-side log file (default: $XDG_STATE_HOME/etr/etr.log).'',
         ''# Logs are only written when -v or higher is passed.'',
         ''# log_path = '' @ [dq] @ ''~/.local/state/etr/etr.log'' @ [dq]]),
      (''server_log_path'', block
        [''# Path to the server log file on the remote host (default: $XDG_STATE_HOME/etr/etrs.log).'',
         ''# server_log_path = '' @ [dq] @ ''~/.local/state/etr/etrs.log'' @ [dq]]),
      (''gateway_ports'', block
        [''# When true, local forwarded ports are bound to all interfaces (0.0.0.0 and ::)'',
         ''# instead of loopback only, allowing other hosts to connect (default: false).'',
         ''# gateway_ports = false'']),
      (''forward'', block
        [''# Default local port forwards applied to every connection (same syntax as -L).'',
         ''# forward = ['' @ [dq] @ ''8080:localhost:80'' @ [dq] @ '', '' @ [dq] @ ''5353:8.8.8.8:53/udp'' @ [dq] @ '']'']),
      (''reverse_forward'', block
        [''# Default remote port forwards applied to every connection (same syntax as -R).'',
         ''# reverse_forward = ['' @ [dq] @ ''9090:localhost:9090'' @ [dq] @ '']'']),
      (''env'', block
        [''# Environment variables to set or forward in the remote shell.'',
         ''# '' @ [dq] @ ''KEY=VALUE'' @ [dq] @ '' sets the variable; '' @ [dq] @ ''KEY'' @ [dq] @ '' alone forwards it from the local environment.'',
         ''# env = ['' @ [dq] @ ''EDITOR'' @ [dq] @ '', '' @ [dq] @ ''TERM=xterm-256color'' @ [dq] @ '']'']),
      (''x11'', block
        [''# Enable X11 forwarding (default: false).'',
         ''# x11 = false'']),
      (''x11_trusted'', block
        [''# Enable trusted X11 forwarding (default: false).'',
         ''# x11_trusted = false''])]"

definition SERVER_KEY_BLOCKS :: "(string \<times> string) list" where
  "SERVER_KEY_BLOCKS =
     [(''reconnect_timeout'', block
        [''# How long (seconds) the server keeps a session alive while the client is'',
         ''# disconnected (default: 1800, i.e. 30 minutes).'',
         ''# reconnect_timeout = 1800'']),
      (''address_family'', block
        [''# Which IP version etrs tries first when it resolves the targets of -L'',
         ''# forwards, and which wildcard address it binds by default ('' @ [dq] @ ''ipv4'' @ [dq] @ '' binds'',
         ''# 0.0.0.0; '' @ [dq] @ ''ipv6'' @ [dq] @ ''/'' @ [dq] @ ''auto'' @ [dq] @ '' bind the dual-stack [::]). Equivalent to etrs -4/-6.'',
         ''# A connecting client'' @ [CHR 0x27] @ ''s own -4/-6 overrides this for forward targets.'',
         ''# address_family = '' @ [dq] @ ''auto'' @ [dq]])]"

section \<open>Configuration\<close>

record ClientConfig =
  cc_ssh_port :: "u16 option"
  cc_server_path :: "string option"
  cc_address_family :: "string option"
  cc_log_path :: "string option"
  cc_server_log_path :: "string option"
  cc_gateway_ports :: "bool option"
  cc_forward :: "string list option"
  cc_reverse_forward :: "string list option"
  cc_env :: "string list option"
  cc_x11 :: "bool option"
  cc_x11_trusted :: "bool option"

record ServerConfig =
  sc_reconnect_timeout :: "u64 option"
  sc_address_family :: "string option"

record Config =
  client :: ClientConfig
  server :: ServerConfig

definition default_config :: Config where
  "default_config =
     \<lparr>client = \<lparr>cc_ssh_port = None, cc_server_path = None, cc_address_family = None, cc_log_path = None,
        cc_server_log_path = None, cc_gateway_ports = None, cc_forward = None, cc_reverse_forward = None,
        cc_env = None, cc_x11 = None, cc_x11_trusted = None\<rparr>,
      server = \<lparr>sc_reconnect_timeout = None, sc_address_family = None\<rparr>\<rparr>"

text \<open>\<open>Config::load\<close> with the file's content, or the error of reading it, and the TOML parser; the
  second component is whether a warning is printed.\<close>

definition load_config :: "(string \<Rightarrow> Config option) \<Rightarrow> string io_result \<Rightarrow> Config \<times> bool" where
  "load_config from_toml content =
     (case content of
        Inl NotFound \<Rightarrow> (default_config, False)
      | Inl _ \<Rightarrow> (default_config, True)
      | Inr text \<Rightarrow>
          (case from_toml text of
             Some c \<Rightarrow> (c, False)
           | None \<Rightarrow> (default_config, True)))"

definition path_join :: "string \<Rightarrow> string \<Rightarrow> string" where
  "path_join a b = a @ ''/'' @ b"

definition config_path :: "string option \<Rightarrow> string option \<Rightarrow> string" where
  "config_path config_dir home_dir =
     path_join (path_join
       (case config_dir of
          Some d \<Rightarrow> d
        | None \<Rightarrow> path_join (case home_dir of Some h \<Rightarrow> h | None \<Rightarrow> ''.'') ''.config'')
       ''etr'') ''config.toml''"

section \<open>Merging defaults\<close>

definition key_line :: "string \<Rightarrow> string \<Rightarrow> bool" where
  "key_line key line =
     (let trimmed = trim line;
          without_comment = (case strip_prefix_str ''#'' trimmed of Some r \<Rightarrow> trim r | None \<Rightarrow> trimmed)
      in case strip_prefix_str key without_comment of
           None \<Rightarrow> False
         | Some rest \<Rightarrow> starts_with ''='' (trim rest))"

definition contains_key_line :: "string \<Rightarrow> string \<Rightarrow> bool" where
  "contains_key_line content key = list_ex (key_line key) (str_lines content)"

definition missing_blocks :: "(string \<times> string) list \<Rightarrow> string \<Rightarrow> (string \<times> string) list" where
  "missing_blocks blocks existing = filter (\<lambda>(key, _). \<not> contains_key_line existing key) blocks"

text \<open>The inner loops that push every block followed by a newline.\<close>

definition push_blocks :: "(string \<times> string) list \<Rightarrow> string" where
  "push_blocks bs = concat (map (\<lambda>(_, b). b @ [newline]) bs)"

text \<open>A section that has not appeared: an empty line unless the result is empty, the header, the
  blocks.\<close>

definition push_section :: "string \<Rightarrow> string \<Rightarrow> (string \<times> string) list \<Rightarrow> string" where
  "push_section result header bs =
     result @ (if result = [] then [] else [newline]) @ header @ [newline] @ push_blocks bs"

fun merge_loop ::
    "(string \<times> string) list \<Rightarrow> (string \<times> string) list \<Rightarrow> string list \<Rightarrow> string \<times> bool \<times> bool
     \<Rightarrow> string \<times> bool \<times> bool" where
  "merge_loop mc ms [] st = st"
| "merge_loop mc ms (line # rest) (result, client_inserted, server_inserted) =
     (let trimmed = trim line
      in if trimmed = ''[client]'' then
           merge_loop mc ms rest
             (if mc \<noteq> [] then (result @ line @ [newline] @ push_blocks mc, True, server_inserted)
              else (result @ line @ [newline], client_inserted, server_inserted))
         else if trimmed = ''[server]'' then
           (let (result1, client_inserted1) =
                  (if mc \<noteq> [] \<and> \<not> client_inserted then (push_section result ''[client]'' mc, True)
                   else (result, client_inserted))
            in merge_loop mc ms rest
                 (if ms \<noteq> [] then (result1 @ line @ [newline] @ push_blocks ms, client_inserted1, True)
                  else (result1 @ line @ [newline], client_inserted1, server_inserted)))
         else merge_loop mc ms rest (result @ line @ [newline], client_inserted, server_inserted))"

definition merge_defaults :: "string \<Rightarrow> string \<times> string list" where
  "merge_defaults existing =
     (let missing_client = missing_blocks CLIENT_KEY_BLOCKS existing;
          missing_server = missing_blocks SERVER_KEY_BLOCKS existing;
          additions = map fst (missing_client @ missing_server)
      in if additions = [] then
           (let s = trim_end existing in (if s = [] then s else s @ [newline], additions))
         else
           (let (result, client_inserted, server_inserted) =
                  merge_loop missing_client missing_server (str_lines existing) ([], False, False);
                result1 = (if missing_client \<noteq> [] \<and> \<not> client_inserted
                           then push_section result ''[client]'' missing_client else result);
                result2 = (if missing_server \<noteq> [] \<and> \<not> server_inserted
                           then push_section result1 ''[server]'' missing_server else result1)
            in (result2, additions)))"

text \<open>The \<open>--merge-config\<close> command on a file that exists: the file is written only when something
  was added.\<close>

definition merge_config_file :: "string \<Rightarrow> string" where
  "merge_config_file existing =
     (let (new_content, additions) = merge_defaults existing
      in if additions = [] then existing else new_content)"

section \<open>The merge on lines\<close>

lemma unlines_simps [simp]:
  "unlines [] = []" "unlines (l # ls) = l @ newline # unlines ls" "unlines (ls @ ms) = unlines ls @ unlines ms"
  by (simp_all add: unlines_def)

lemma unlines_Nil_iff [simp]: "unlines ls = [] \<longleftrightarrow> ls = []"
  by (cases ls) simp_all

lemma unlines_split_on: "unlines (split_on newline b) = b @ [newline]"
proof -
  obtain xs x where "split_on newline b = xs @ [x]" by (metis rev_exhaust split_on_nonempty)
  then show ?thesis using split_on_join[of newline b] by (simp add: unlines_def)
qed

definition block_lines :: "(string \<times> string) list \<Rightarrow> string list" where
  "block_lines bs = concat (map (\<lambda>(_, b). split_on newline b) bs)"

lemma push_blocks_lines: "push_blocks bs = unlines (block_lines bs)"
  by (induction bs) (auto simp: push_blocks_def block_lines_def unlines_split_on)

definition section_lines :: "string list \<Rightarrow> string \<Rightarrow> (string \<times> string) list \<Rightarrow> string list" where
  "section_lines L header bs = L @ (if L = [] then [] else [[]]) @ [header] @ block_lines bs"

lemma push_section_lines: "push_section (unlines L) header bs = unlines (section_lines L header bs)"
  by (simp add: push_section_def section_lines_def push_blocks_lines)

text \<open>The same loop on a list of lines.\<close>

fun merge_lines ::
    "(string \<times> string) list \<Rightarrow> (string \<times> string) list \<Rightarrow> string list \<Rightarrow> string list \<times> bool \<times> bool
     \<Rightarrow> string list \<times> bool \<times> bool" where
  "merge_lines mc ms [] st = st"
| "merge_lines mc ms (line # rest) (L, ci, si) =
     (if trim line = ''[client]'' then merge_lines mc ms rest (L @ [line] @ block_lines mc, ci \<or> mc \<noteq> [], si)
      else if trim line = ''[server]'' then
        merge_lines mc ms rest
          ((if mc \<noteq> [] \<and> \<not> ci then section_lines L ''[client]'' mc else L) @ [line] @ block_lines ms,
           ci \<or> mc \<noteq> [], si \<or> ms \<noteq> [])
      else merge_lines mc ms rest (L @ [line], ci, si))"

lemma block_lines_Nil [simp]: "block_lines [] = []"
  by (simp add: block_lines_def)

lemma merge_loop_lines:
  "merge_lines mc ms ls (L, ci, si) = (L', ci', si') \<Longrightarrow>
   merge_loop mc ms ls (unlines L, ci, si) = (unlines L', ci', si')"
proof (induction mc ms ls "(L, ci, si)" arbitrary: L ci si rule: merge_lines.induct)
  case (2 mc ms line rest L ci si)
  show ?case
  proof (cases "trim line = ''[client]''")
    case True
    then show ?thesis using 2(1)[OF True] 2(4)
      by (cases "mc = []") (simp_all add: push_blocks_lines)
  next
    case nc: False
    show ?thesis
    proof (cases "trim line = ''[server]''")
      case True
      then show ?thesis using 2(2)[OF nc True] 2(4) nc
        by (cases "mc = []"; cases ci; cases "ms = []")
          (simp_all add: push_blocks_lines push_section_lines)
    next
      case False
      then show ?thesis using 2(3)[OF nc False] 2(4) nc by simp
    qed
  qed
qed simp

definition merged_lines :: "string \<Rightarrow> string list" where
  "merged_lines existing =
     (let mc = missing_blocks CLIENT_KEY_BLOCKS existing;
          ms = missing_blocks SERVER_KEY_BLOCKS existing;
          (L, ci, si) = merge_lines mc ms (str_lines existing) ([], False, False);
          L1 = (if mc \<noteq> [] \<and> \<not> ci then section_lines L ''[client]'' mc else L)
      in if ms \<noteq> [] \<and> \<not> si then section_lines L1 ''[server]'' ms else L1)"

lemma merge_defaults_lines:
  assumes "snd (merge_defaults existing) \<noteq> []"
  shows "fst (merge_defaults existing) = unlines (merged_lines existing)"
proof -
  let ?mc = "missing_blocks CLIENT_KEY_BLOCKS existing" and ?ms = "missing_blocks SERVER_KEY_BLOCKS existing"
  obtain L ci si where m: "merge_lines ?mc ?ms (str_lines existing) ([], False, False) = (L, ci, si)"
    by (cases "merge_lines ?mc ?ms (str_lines existing) ([], False, False)")
  have "merge_loop ?mc ?ms (str_lines existing) ([], False, False) = (unlines L, ci, si)"
    using merge_loop_lines[OF m] by simp
  moreover have "?mc \<noteq> [] \<or> ?ms \<noteq> []" using assms by (auto simp: merge_defaults_def Let_def)
  ultimately show ?thesis
    by (auto simp: merge_defaults_def merged_lines_def Let_def m push_section_lines)
qed

section \<open>What the merge keeps and adds\<close>

lemma section_lines_prefix: "\<exists>M. section_lines L h bs = L @ M"
  by (auto simp: section_lines_def)

lemma merge_lines_subseq:
  "merge_lines mc ms ls (L, ci, si) = (L', ci', si') \<Longrightarrow> \<exists>M. L' = L @ M \<and> subseq ls M"
proof (induction mc ms ls "(L, ci, si)" arbitrary: L ci si rule: merge_lines.induct)
  case (2 mc ms line rest L ci si)
  have ext: "\<exists>M. L' = L @ M \<and> subseq (line # rest) M"
    if "L' = (L @ A) @ line # B @ M" "subseq rest M" for A B M
  proof (intro exI conjI)
    show "L' = L @ (A @ line # B @ M)" using that by simp
    show "subseq (line # rest) (A @ line # B @ M)"
      using list_emb_append2[of "(=)" "line # rest" "line # B @ M" A] list_emb_append2[of "(=)" rest M B] that(2)
      by simp
  qed
  show ?case
  proof (cases "trim line = ''[client]''")
    case True
    then obtain M where "L' = (L @ [line] @ block_lines mc) @ M" "subseq rest M" using 2(1)[OF True] 2(4) by auto
    then show ?thesis using ext[of "[]" "block_lines mc" M] by simp
  next
    case nc: False
    show ?thesis
    proof (cases "trim line = ''[server]''")
      case True
      let ?L = "if mc \<noteq> [] \<and> \<not> ci then section_lines L ''[client]'' mc else L"
      obtain A where A: "?L = L @ A" using section_lines_prefix[of L "''[client]''" mc] by (cases "mc \<noteq> [] \<and> \<not> ci") auto
      obtain M where "L' = (?L @ [line] @ block_lines ms) @ M" "subseq rest M" using 2(2)[OF nc True] 2(4) nc True by auto
      then show ?thesis using ext[of A "block_lines ms" M] A by simp
    next
      case False
      then obtain M where "L' = (L @ [line]) @ M" "subseq rest M" using 2(3)[OF nc False] 2(4) nc by auto
      then show ?thesis using ext[of "[]" "[]" M] by simp
    qed
  qed
qed simp

lemma merge_lines_blocks:
  "merge_lines mc ms ls (L, ci, si) = (L', ci', si') \<Longrightarrow>
   (ci \<longrightarrow> set (block_lines mc) \<subseteq> set L) \<Longrightarrow> (si \<longrightarrow> set (block_lines ms) \<subseteq> set L) \<Longrightarrow>
   (ci' \<longrightarrow> set (block_lines mc) \<subseteq> set L') \<and> (si' \<longrightarrow> set (block_lines ms) \<subseteq> set L')"
proof (induction mc ms ls "(L, ci, si)" arbitrary: L ci si rule: merge_lines.induct)
  case (2 mc ms line rest L ci si)
  show ?case
  proof (cases "trim line = ''[client]''")
    case True
    show ?thesis by (rule 2(1)[OF True]) (use 2(4-6) True in auto)
  next
    case nc: False
    show ?thesis
    proof (cases "trim line = ''[server]''")
      case True
      show ?thesis
        by (rule 2(2)[OF nc True]) (use 2(4-6) True nc in \<open>auto simp: section_lines_def\<close>)
    next
      case False
      show ?thesis by (rule 2(3)[OF nc False]) (use 2(4-6) False nc in auto)
    qed
  qed
qed simp

lemma merged_lines_subseq: "subseq (str_lines existing) (merged_lines existing)"
proof -
  let ?mc = "missing_blocks CLIENT_KEY_BLOCKS existing" and ?ms = "missing_blocks SERVER_KEY_BLOCKS existing"
  obtain L ci si where m: "merge_lines ?mc ?ms (str_lines existing) ([], False, False) = (L, ci, si)"
    by (cases "merge_lines ?mc ?ms (str_lines existing) ([], False, False)")
  have "subseq (str_lines existing) L" using merge_lines_subseq[OF m] by simp
  then show ?thesis
    by (auto simp: merged_lines_def m Let_def section_lines_def intro: subseq_order.trans)
qed

lemma merged_lines_blocks:
  "set (block_lines (missing_blocks CLIENT_KEY_BLOCKS existing)) \<subseteq> set (merged_lines existing)"
  "set (block_lines (missing_blocks SERVER_KEY_BLOCKS existing)) \<subseteq> set (merged_lines existing)"
proof -
  let ?mc = "missing_blocks CLIENT_KEY_BLOCKS existing" and ?ms = "missing_blocks SERVER_KEY_BLOCKS existing"
  obtain L ci si where m: "merge_lines ?mc ?ms (str_lines existing) ([], False, False) = (L, ci, si)"
    by (cases "merge_lines ?mc ?ms (str_lines existing) ([], False, False)")
  from merge_lines_blocks[OF m]
  show "set (block_lines ?mc) \<subseteq> set (merged_lines existing)" "set (block_lines ?ms) \<subseteq> set (merged_lines existing)"
    by (auto simp: merged_lines_def m Let_def section_lines_def)
qed

section \<open>Trailing carriage returns do not matter\<close>

lemma ws_cr: "w \<in> set ws_seqs \<Longrightarrow> carriage_return \<in> set w \<Longrightarrow> w = [carriage_return]"
  by (auto simp: ws_seqs_def)

lemma starts_with_append_cr:
  assumes "w \<in> set ws_seqs" and "l \<noteq> []"
  shows "starts_with w (l @ [carriage_return]) \<longleftrightarrow> starts_with w l"
proof
  assume s: "starts_with w (l @ [carriage_return])"
  show "starts_with w l"
  proof (cases "length w \<le> length l")
    case True
    then show ?thesis using s by (simp add: starts_with_def)
  next
    case False
    then have "w = l @ [carriage_return]" using s by (simp add: starts_with_def)
    then show ?thesis using ws_cr[OF assms(1)] assms(2) by auto
  qed
next
  assume "starts_with w l"
  then show "starts_with w (l @ [carriage_return])" by (metis starts_with_iff_prefix prefix_prefix)
qed

lemma strip_one_append_cr:
  assumes "set ws \<subseteq> set ws_seqs" and "l \<noteq> []"
  shows "strip_one ws (l @ [carriage_return]) = map_option (\<lambda>r. r @ [carriage_return]) (strip_one ws l)"
  using assms(1)
proof (induction ws)
  case (Cons w ws)
  have "length w \<le> length l" if "starts_with w l"
    using that by (metis starts_with_def nat_le_linear take_all length_take min.absorb2 min_def)
  then show ?case using Cons starts_with_append_cr[of w l] assms(2) by auto
qed simp

lemma trim_front_append_cr:
  "trim_front ws_seqs (l @ [carriage_return]) =
     (if trim_front ws_seqs l = [] then [] else trim_front ws_seqs l @ [carriage_return])"
proof (induction "length l" arbitrary: l rule: less_induct)
  case less
  show ?case
  proof (cases "l = []")
    case True
    have "strip_one ws_seqs [carriage_return] = Some []" by (simp add: ws_seqs_def starts_with_def)
    then show ?thesis using True
      by (simp add: trim_front.simps[of ws_seqs "[carriage_return]"] trim_front_fixed strip_one_Nil)
  next
    case False
    show ?thesis
    proof (cases "strip_one ws_seqs l")
      case None
      then show ?thesis using strip_one_append_cr[of ws_seqs l] False by (simp add: trim_front_fixed)
    next
      case (Some r)
      then show ?thesis
        using strip_one_append_cr[of ws_seqs l] False less[OF strip_one_shorter[OF Some]]
        by (simp add: trim_front.simps[of ws_seqs "l @ [carriage_return]"] trim_front.simps[of ws_seqs l])
    qed
  qed
qed

lemma trim_append_cr: "trim (l @ [carriage_return]) = trim l"
proof -
  have "strip_one (map rev ws_seqs) (carriage_return # s) = Some s" for s
    by (simp add: ws_seqs_def starts_with_def)
  then have "trim_front (map rev ws_seqs) (carriage_return # s) = trim_front (map rev ws_seqs) s" for s
    by (subst trim_front.simps) simp
  then show ?thesis by (simp add: trim_def trim_front_append_cr trim_front_fixed strip_one_Nil)
qed

lemma trim_strip_cr: "trim (strip_cr l) = trim l"
  by (auto simp: strip_cr_def strip_suffix_str_Some_iff trim_append_cr split: option.split)

lemma key_line_strip_cr: "key_line k (strip_cr l) = key_line k l"
  by (simp add: key_line_def trim_strip_cr)

section \<open>The known blocks\<close>

lemma split_on_block:
  "ls \<noteq> [] \<Longrightarrow> list_all (\<lambda>l. newline \<notin> set l) ls \<Longrightarrow> split_on newline (block ls) = ls"
  by (induction ls rule: induct_list012)
    (simp_all add: block_def join_with_Cons split_on_no_sep split_on_append_sep)

text \<open>A block names its key in its last line, commented out, and every line of it is a comment.\<close>

definition block_ok :: "string \<Rightarrow> string list \<Rightarrow> bool" where
  "block_ok k ls \<longleftrightarrow> ls \<noteq> [] \<and> k \<noteq> [] \<and> list_all printable k \<and> list_all (\<lambda>l. starts_with ''#'' l) ls
     \<and> (case strip_prefix_str (''# '' @ k @ '' = '') (last ls) of
          None \<Rightarrow> False | Some v \<Rightarrow> v \<noteq> [] \<and> printable (last v))"

lemma client_blocks_ok: "list_all (\<lambda>(k, b). block_ok k (split_on newline b)) CLIENT_KEY_BLOCKS"
  unfolding CLIENT_KEY_BLOCKS_def
  by (simp add: split_on_block) (simp add: block_ok_def starts_with_def strip_prefix_str_def printable_def)

lemma server_blocks_ok: "list_all (\<lambda>(k, b). block_ok k (split_on newline b)) SERVER_KEY_BLOCKS"
  unfolding SERVER_KEY_BLOCKS_def
  by (simp add: split_on_block) (simp add: block_ok_def starts_with_def strip_prefix_str_def printable_def)

lemma strip_one_keeps_printable:
  assumes "printable c" and "strip_one (map rev ws_seqs) (u @ [c]) = Some r"
  shows "\<exists>v. r = v @ [c]"
proof -
  have "\<exists>w \<in> set ws. r = drop (length w) (u @ [c]) \<and> starts_with w (u @ [c])"
    if "strip_one ws (u @ [c]) = Some r" for ws
    using that by (induction ws) (auto split: if_splits)
  from this[OF assms(2)] obtain w where w: "w \<in> set (map rev ws_seqs)" "r = drop (length w) (u @ [c])"
    "starts_with w (u @ [c])" by blast
  have "c \<notin> set w" using w(1) assms(1) ws_not_printable by auto
  have "length w \<le> length u"
  proof (rule ccontr)
    assume "\<not> length w \<le> length u"
    then have "take (length w) (u @ [c]) = u @ [c]" by simp
    with w(3) \<open>c \<notin> set w\<close> show False by (auto simp: starts_with_def)
  qed
  then show ?thesis using w(2) by simp
qed

lemma trim_rear_printable:
  assumes "printable c"
  shows "\<exists>v. trim_front (map rev ws_seqs) (u @ [c]) = v @ [c]"
proof (induction "length u" arbitrary: u rule: less_induct)
  case less
  show ?case
  proof (cases "strip_one (map rev ws_seqs) (u @ [c])")
    case None
    then show ?thesis by (simp add: trim_front_fixed)
  next
    case (Some r)
    then obtain v where v: "r = v @ [c]" using strip_one_keeps_printable[OF assms] by blast
    then have "length v < length u" using strip_one_shorter[OF Some] by simp
    then show ?thesis using less[of v] Some v by (subst trim_front.simps) simp
  qed
qed

lemma trim_hd_printable: "printable c \<Longrightarrow> \<exists>s'. trim (c # s) = c # s'"
proof -
  assume c: "printable c"
  obtain v where "trim_front (map rev ws_seqs) (rev s @ [c]) = v @ [c]" using trim_rear_printable[OF c] by blast
  then have "trim (c # s) = c # rev v" using c by (simp add: trim_def trim_front_fixed strip_one_printable)
  then show ?thesis by blast
qed

lemma comment_not_header:
  assumes "starts_with ''#'' l"
  shows "trim l \<noteq> ''[client]''" "trim l \<noteq> ''[server]''"
proof -
  obtain s where l: "l = CHR ''#'' # s" using assms by (cases l) (auto simp: starts_with_def)
  have "printable (CHR ''#'')" by (simp add: printable_def)
  from trim_hd_printable[OF this, of s] show "trim l \<noteq> ''[client]''" "trim l \<noteq> ''[server]''" by (auto simp: l)
qed

lemma key_line_default:
  assumes "k \<noteq> []" and "list_all printable k" and "v \<noteq> []" and "printable (last v)"
  shows "key_line k (''# '' @ k @ '' = '' @ v)"
proof -
  obtain v' d where v: "v = v' @ [d]" using assms(3) by (metis rev_exhaust)
  have d: "printable d" using assms(4) v by simp
  obtain c k' where k: "k = c # k'" using assms(1) by (cases k) auto
  have c: "printable c" using assms(2) k by simp
  have h: "printable (CHR ''#'')" "printable (CHR ''='')" by (simp_all add: printable_def)
  have blank: "trim (CHR '' '' # x) = trim x" for x
    by (simp add: trim_def trim_front.simps[of ws_seqs "CHR '' '' # x"] strip_one_blank)
  have 1: "trim (''# '' @ k @ '' = '' @ v) = ''# '' @ k @ '' = '' @ v"
    using trim_printable[OF h(1) d, of "'' '' @ k @ '' = '' @ v'"] by (simp add: v)
  have 2: "trim ('' '' @ k @ '' = '' @ v) = k @ '' = '' @ v"
    using trim_printable[OF c d, of "k' @ '' = '' @ v'"] by (simp add: blank v k)
  have 3: "trim ('' = '' @ v) = ''= '' @ v"
    using trim_printable[OF h(2) d, of "'' '' @ v'"] by (simp add: blank v)
  show ?thesis
    using 1 2 3 strip_prefix_str_append[of k "'' = '' @ v"]
    by (simp add: key_line_def strip_prefix_str_def starts_with_def)
qed

lemma block_ok_key_line:
  assumes "block_ok k ls"
  shows "list_ex (key_line k) ls"
proof -
  obtain v where "last ls = ''# '' @ k @ '' = '' @ v" "v \<noteq> []" "printable (last v)"
    using assms by (auto simp: block_ok_def strip_prefix_str_Some_iff split: option.splits)
  moreover have "k \<noteq> []" "list_all printable k" using assms by (simp_all add: block_ok_def)
  ultimately have "key_line k (last ls)" using key_line_default[of k v] by simp
  with assms show ?thesis by (auto simp: block_ok_def list_ex_iff)
qed

lemma block_lines_comments:
  assumes "list_all (\<lambda>(k, b). block_ok k (split_on newline b)) bs" and "l \<in> set (block_lines bs)"
  shows "starts_with ''#'' l" "newline \<notin> set l"
proof -
  obtain k b where kb: "(k, b) \<in> set bs" "l \<in> set (split_on newline b)" using assms(2) by (auto simp: block_lines_def)
  then have "block_ok k (split_on newline b)" using assms(1) by (auto simp: list_all_iff)
  with kb show "starts_with ''#'' l" by (auto simp: block_ok_def list_all_iff)
  show "newline \<notin> set l" using kb(2) by (rule split_on_pieces)
qed

lemma missing_blocks_ok:
  "list_all (\<lambda>(k, b). block_ok k (split_on newline b)) bs \<Longrightarrow>
   list_all (\<lambda>(k, b). block_ok k (split_on newline b)) (missing_blocks bs s)"
  by (auto simp: missing_blocks_def list_all_iff)

section \<open>Headers\<close>

definition is_header :: "string \<Rightarrow> string \<Rightarrow> bool" where
  "is_header h l \<longleftrightarrow> trim l = h"

definition headers :: "string \<Rightarrow> string list \<Rightarrow> nat" where
  "headers h ls = length (filter (is_header h) ls)"

text \<open>Whether the first section header of the file is \<open>[client]\<close>.\<close>

fun client_leads :: "string list \<Rightarrow> bool" where
  "client_leads [] = False"
| "client_leads (l # ls) =
     (if trim l = ''[client]'' then True else if trim l = ''[server]'' then False else client_leads ls)"

lemma headers_simps [simp]:
  "headers h [] = 0" "headers h (l # ls) = (if trim l = h then 1 else 0) + headers h ls"
  "headers h (ls @ ms) = headers h ls + headers h ms"
  by (simp_all add: headers_def is_header_def)

lemma trim_headers [simp]: "trim ''[client]'' = ''[client]''" "trim ''[server]'' = ''[server]''" "trim [] = []"
  by (simp_all add: trim_def trim_front_fixed strip_one_printable printable_def strip_one_Nil)

lemma headers_blocks:
  assumes "list_all (\<lambda>(k, b). block_ok k (split_on newline b)) bs"
  shows "headers ''[client]'' (block_lines bs) = 0" "headers ''[server]'' (block_lines bs) = 0"
  using comment_not_header[OF block_lines_comments(1)[OF assms]]
  by (auto simp: headers_def is_header_def filter_empty_conv)

lemma merge_lines_headers:
  assumes "headers ''[client]'' (block_lines mc) = 0" "headers ''[server]'' (block_lines mc) = 0"
    "headers ''[client]'' (block_lines ms) = 0" "headers ''[server]'' (block_lines ms) = 0"
  shows "merge_lines mc ms ls (L, ci, si) = (L', ci', si') \<Longrightarrow>
    headers ''[server]'' L' = headers ''[server]'' L + headers ''[server]'' ls
    \<and> si' = (si \<or> ms \<noteq> [] \<and> headers ''[server]'' ls > 0)
    \<and> headers ''[client]'' L' + (if mc \<noteq> [] \<and> \<not> ci' then 1 else 0) =
        headers ''[client]'' L + headers ''[client]'' ls + (if mc \<noteq> [] \<and> \<not> ci \<and> \<not> client_leads ls then 1 else 0)"
proof (induction ls arbitrary: L ci si)
  case (Cons line rest)
  show ?case
  proof (cases "trim line = ''[client]''")
    case True
    then show ?thesis using Cons.IH[of "L @ [line] @ block_lines mc" "ci \<or> mc \<noteq> []" si] Cons.prems assms
      by (cases "mc = []") (auto split: if_splits)
  next
    case nc: False
    show ?thesis
    proof (cases "trim line = ''[server]''")
      case True
      let ?L = "if mc \<noteq> [] \<and> \<not> ci then section_lines L ''[client]'' mc else L"
      show ?thesis
        using Cons.IH[of "?L @ [line] @ block_lines ms" "ci \<or> mc \<noteq> []" "si \<or> ms \<noteq> []"] Cons.prems True nc assms
        by (cases "mc = []"; cases ci) (auto simp: section_lines_def split: if_splits)
    next
      case False
      then show ?thesis using Cons.IH[of "L @ [line]" ci si] Cons.prems nc by simp
    qed
  qed
qed auto

lemma headers_strip_cr: "headers h (map strip_cr ls) = headers h ls"
  by (induction ls) (simp_all add: trim_strip_cr)

section \<open>The merged text read back\<close>

lemma merge_lines_all:
  assumes "\<And>l. l \<in> set (block_lines mc) \<union> set (block_lines ms) \<union> {[], ''[client]''} \<Longrightarrow> P l"
  shows "merge_lines mc ms ls (L, ci, si) = (L', ci', si') \<Longrightarrow> list_all P L \<Longrightarrow> list_all P ls \<Longrightarrow> list_all P L'"
proof (induction ls arbitrary: L ci si)
  case (Cons line rest)
  have "list_all P (block_lines mc)" "list_all P (block_lines ms)" "P []" "P ''[client]''"
    using assms by (auto simp: list_all_iff)
  then show ?case using Cons
    by (auto simp: section_lines_def split: if_splits)
qed simp

lemma str_lines_newline_free: "list_all (\<lambda>l. newline \<notin> set l) (str_lines s)"
proof -
  have "newline \<notin> set (strip_cr l)" if "newline \<notin> set l" for l
    using that by (auto simp: strip_cr_def strip_suffix_str_Some_iff split: option.split)
  moreover have "newline \<notin> set (last (split_on newline s))"
    by (rule split_on_pieces[OF last_in_set[OF split_on_nonempty]])
  ultimately show ?thesis
    by (auto simp: str_lines_def Let_def list_all_iff dest!: in_set_butlastD dest: split_on_pieces)
qed

lemma merged_lines_newline_free: "list_all (\<lambda>l. newline \<notin> set l) (merged_lines existing)"
proof -
  let ?mc = "missing_blocks CLIENT_KEY_BLOCKS existing" and ?ms = "missing_blocks SERVER_KEY_BLOCKS existing"
  obtain L ci si where m: "merge_lines ?mc ?ms (str_lines existing) ([], False, False) = (L, ci, si)"
    by (cases "merge_lines ?mc ?ms (str_lines existing) ([], False, False)")
  note free = block_lines_comments(2)[OF missing_blocks_ok[OF client_blocks_ok]]
    block_lines_comments(2)[OF missing_blocks_ok[OF server_blocks_ok]]
  have "list_all (\<lambda>l. newline \<notin> set l) L"
    by (rule merge_lines_all[OF _ m]) (use free str_lines_newline_free in auto)
  then show ?thesis
    using free by (auto simp: merged_lines_def m Let_def section_lines_def list_all_iff)
qed

lemma str_lines_unlines:
  "list_all (\<lambda>l. newline \<notin> set l) ls \<Longrightarrow> str_lines (unlines ls) = map strip_cr ls"
  by (induction ls) (simp_all add: str_lines_append_newline split_on_no_sep)

lemma merged_str_lines:
  "snd (merge_defaults s) \<noteq> [] \<Longrightarrow> str_lines (fst (merge_defaults s)) = map strip_cr (merged_lines s)"
  by (simp add: merge_defaults_lines str_lines_unlines merged_lines_newline_free)

lemma contains_key_merged:
  assumes "snd (merge_defaults s) \<noteq> []" and "l \<in> set (merged_lines s)" and "key_line k l"
  shows "contains_key_line (fst (merge_defaults s)) k"
  using assms by (auto simp: contains_key_line_def merged_str_lines list_ex_iff key_line_strip_cr)

lemma merged_has_keys:
  assumes add: "snd (merge_defaults s) \<noteq> []"
    and ok: "list_all (\<lambda>(k, b). block_ok k (split_on newline b)) bs"
    and sub: "set (block_lines (missing_blocks bs s)) \<subseteq> set (merged_lines s)"
  shows "missing_blocks bs (fst (merge_defaults s)) = []"
proof -
  have "contains_key_line (fst (merge_defaults s)) k" if kb: "(k, b) \<in> set bs" for k b
  proof (cases "contains_key_line s k")
    case True
    then obtain l where l: "l \<in> set (str_lines s)" "key_line k l" by (auto simp: contains_key_line_def list_ex_iff)
    have "l \<in> set (merged_lines s)" using list_emb_set[OF merged_lines_subseq[of s] l(1)] by blast
    then show ?thesis using contains_key_merged[OF add] l(2) by blast
  next
    case False
    have "list_ex (key_line k) (split_on newline b)" using ok kb by (auto simp: list_all_iff block_ok_key_line)
    then obtain l where l: "l \<in> set (split_on newline b)" "key_line k l" by (auto simp: list_ex_iff)
    have "(k, b) \<in> set (missing_blocks bs s)" using kb False by (simp add: missing_blocks_def)
    then have "l \<in> set (block_lines (missing_blocks bs s))"
      using l(1) unfolding block_lines_def by (auto intro: bexI[of _ "(k, b)"])
    then show ?thesis using sub contains_key_merged[OF add] l(2) by blast
  qed
  then show ?thesis by (auto simp: missing_blocks_def filter_empty_conv)
qed

lemma no_additions_iff:
  "snd (merge_defaults s) = [] \<longleftrightarrow> missing_blocks CLIENT_KEY_BLOCKS s = [] \<and> missing_blocks SERVER_KEY_BLOCKS s = []"
  by (auto simp: merge_defaults_def Let_def split: prod.split)

lemma merge_defaults_complete:
  assumes "snd (merge_defaults s) \<noteq> []"
  shows "snd (merge_defaults (fst (merge_defaults s))) = []"
  unfolding no_additions_iff
  using merged_has_keys[OF assms client_blocks_ok merged_lines_blocks(1)]
    merged_has_keys[OF assms server_blocks_ok merged_lines_blocks(2)] by simp

lemma merged_headers:
  assumes "snd (merge_defaults s) \<noteq> []"
  shows "headers ''[client]'' (merged_lines s) = headers ''[client]'' (str_lines s)
      + (if missing_blocks CLIENT_KEY_BLOCKS s \<noteq> [] \<and> \<not> client_leads (str_lines s) then 1 else 0)"
    and "headers ''[server]'' (merged_lines s) = headers ''[server]'' (str_lines s)
      + (if missing_blocks SERVER_KEY_BLOCKS s \<noteq> [] \<and> headers ''[server]'' (str_lines s) = 0 then 1 else 0)"
proof -
  let ?mc = "missing_blocks CLIENT_KEY_BLOCKS s" and ?ms = "missing_blocks SERVER_KEY_BLOCKS s"
  obtain L ci si where m: "merge_lines ?mc ?ms (str_lines s) ([], False, False) = (L, ci, si)"
    by (cases "merge_lines ?mc ?ms (str_lines s) ([], False, False)")
  note z = headers_blocks[OF missing_blocks_ok[OF client_blocks_ok, of s]]
    headers_blocks[OF missing_blocks_ok[OF server_blocks_ok, of s]]
  note h = merge_lines_headers[OF z m]
  define L1 where "L1 = (if ?mc \<noteq> [] \<and> \<not> ci then section_lines L ''[client]'' ?mc else L)"
  have L1: "headers ''[client]'' L1 = headers ''[client]'' L + (if ?mc \<noteq> [] \<and> \<not> ci then 1 else 0)"
    "headers ''[server]'' L1 = headers ''[server]'' L"
    using z by (simp_all add: L1_def section_lines_def)
  have "merged_lines s = (if ?ms \<noteq> [] \<and> \<not> si then section_lines L1 ''[server]'' ?ms else L1)"
    by (simp add: merged_lines_def m Let_def L1_def)
  then have L2: "headers ''[client]'' (merged_lines s) = headers ''[client]'' L1"
    "headers ''[server]'' (merged_lines s) = headers ''[server]'' L1 + (if ?ms \<noteq> [] \<and> \<not> si then 1 else 0)"
    using z by (simp_all add: section_lines_def)
  show "headers ''[client]'' (merged_lines s) = headers ''[client]'' (str_lines s)
      + (if ?mc \<noteq> [] \<and> \<not> client_leads (str_lines s) then 1 else 0)"
    using h by (simp only: L2 L1) simp
  show "headers ''[server]'' (merged_lines s) = headers ''[server]'' (str_lines s)
      + (if ?ms \<noteq> [] \<and> headers ''[server]'' (str_lines s) = 0 then 1 else 0)"
    using h by (simp only: L2 L1) simp
qed

section \<open>Properties\<close>

text \<open>C35 (functional): running \<open>--merge-config\<close> twice is running it once: after one merge every known
  key of both sections is mentioned, so the second adds nothing and does not write the file.\<close>

theorem merge_config_idempotent:
  "merge_config_file (merge_config_file s) = merge_config_file s
   \<and> list_all (\<lambda>(key, _). contains_key_line (merge_config_file s) key) (CLIENT_KEY_BLOCKS @ SERVER_KEY_BLOCKS)"
proof (cases "snd (merge_defaults s) = []")
  case True
  then have "merge_config_file s = s" by (simp add: merge_config_file_def Let_def case_prod_unfold)
  moreover have "contains_key_line s key"
    if "(key, b) \<in> set (CLIENT_KEY_BLOCKS @ SERVER_KEY_BLOCKS)" for key b
    using that True by (auto simp: no_additions_iff missing_blocks_def filter_empty_conv)
  ultimately show ?thesis by (auto simp: list_all_iff)
next
  case False
  let ?r = "fst (merge_defaults s)"
  have r: "merge_config_file s = ?r" using False by (simp add: merge_config_file_def Let_def case_prod_unfold)
  have c: "snd (merge_defaults ?r) = []" using False by (rule merge_defaults_complete)
  then have "merge_config_file ?r = ?r" by (simp add: merge_config_file_def Let_def case_prod_unfold)
  moreover have "contains_key_line ?r key"
    if "(key, b) \<in> set (CLIENT_KEY_BLOCKS @ SERVER_KEY_BLOCKS)" for key b
    using that c by (auto simp: no_additions_iff missing_blocks_def filter_empty_conv)
  ultimately show ?thesis using r by (auto simp: list_all_iff)
qed

text \<open>(functional): a merge that adds something keeps every line of the file in order, and adds a
  \<open>[client]\<close> header exactly when client keys are missing and the first section of the file is not
  \<open>[client]\<close>, a \<open>[server]\<close> header exactly when server keys are missing and the file has none.\<close>

theorem merge_defaults_inserts:
  assumes "snd (merge_defaults s) \<noteq> []"
  shows "subseq (map strip_cr (str_lines s)) (str_lines (fst (merge_defaults s)))
    \<and> headers ''[client]'' (str_lines (fst (merge_defaults s))) = headers ''[client]'' (str_lines s)
      + (if missing_blocks CLIENT_KEY_BLOCKS s \<noteq> [] \<and> \<not> client_leads (str_lines s) then 1 else 0)
    \<and> headers ''[server]'' (str_lines (fst (merge_defaults s))) = headers ''[server]'' (str_lines s)
      + (if missing_blocks SERVER_KEY_BLOCKS s \<noteq> [] \<and> headers ''[server]'' (str_lines s) = 0 then 1 else 0)"
  using merged_headers[OF assms] subseq_map[OF merged_lines_subseq[of s], of strip_cr]
  by (simp add: merged_str_lines[OF assms] headers_strip_cr)

theorem merge_defaults_inserts_witness:
  "headers ''[client]'' (str_lines (fst (merge_defaults ''[server]''))) = 1
   \<and> headers ''[server]'' (str_lines (fst (merge_defaults ''[server]''))) = 1"
proof -
  have l: "str_lines ''[server]'' = [''[server]'']" by (simp add: str_lines_def split_on_no_sep)
  have "\<not> contains_key_line ''[server]'' k" if "k = ''ssh_port''" for k
    using that by (simp add: contains_key_line_def l key_line_def strip_prefix_str_def)
  then have m: "missing_blocks CLIENT_KEY_BLOCKS ''[server]'' \<noteq> []"
    by (simp add: missing_blocks_def CLIENT_KEY_BLOCKS_def)
  then have "snd (merge_defaults ''[server]'') \<noteq> []" by (simp add: no_additions_iff)
  from merge_defaults_inserts[OF this] m l show ?thesis by simp
qed

text \<open>A file whose \<open>[server]\<close> section comes first gets a second \<open>[client]\<close> header, which TOML
  rejects.\<close>

lemma merge_duplicates_client_header:
  "headers ''[client]'' (str_lines (fst (merge_defaults (unlines [''[server]'', ''[client]''])))) = 2"
proof -
  let ?s = "unlines [''[server]'', ''[client]'']"
  have l: "str_lines ?s = [''[server]'', ''[client]'']"
    by (subst str_lines_unlines) (simp_all add: strip_cr_id)
  have "\<not> contains_key_line ?s k" if "k = ''ssh_port''" for k
    using that by (simp only: contains_key_line_def l) (simp add: key_line_def strip_prefix_str_def)
  then have m: "missing_blocks CLIENT_KEY_BLOCKS ?s \<noteq> []"
    by (simp add: missing_blocks_def CLIENT_KEY_BLOCKS_def del: unlines_simps)
  then have "snd (merge_defaults ?s) \<noteq> []" by (simp add: no_additions_iff del: unlines_simps)
  then show ?thesis
    using merged_headers(1)[of ?s] m l
    by (simp add: merged_str_lines headers_strip_cr del: unlines_simps)
qed

end
