(* ===== verification/Server_Loop.thy ===== *)
theory Server_Loop
  imports Server_Conn Config_File
begin

text \<open>
  The reconnect loop of \<open>run_session\<close> in \<open>src/bin/etrs.rs\<close>, its teardown and \<open>hangup_child\<close>, and the
  start of the detached process.  The loop is a function on what its \<open>select!\<close>s find ready in each
  iteration; what a signal does to the shell's process group is a parameter.
\<close>

section \<open>One iteration\<close>

datatype accept_result = Incoming | EndpointClosed | WindowExpired

datatype conn_result = Finished_conn bool | Signalled

text \<open>What an iteration meets: whether the shell has exited and whether a client connects within the
  second it is then given; the two signals; the accept within the reconnect window; the success of
  \<open>accept\<close> and of the QUIC handshake; and how the connection ends.\<close>

record iteration =
  it_shell_exited :: bool
  it_pending :: bool
  it_sigterm :: bool
  it_sighup :: bool
  it_accept :: accept_result
  it_accepted :: bool
  it_handshake :: bool
  it_conn :: conn_result

datatype loop_exit =
    NoPendingClient | SigTerm | SigHup | EndpointGone | Expired | CleanDisconnect | SignalInSession

text \<open>The biased \<open>select!\<close>: an incoming connection, or the reason to leave the loop.\<close>

definition select_incoming :: "iteration \<Rightarrow> loop_exit option" where
  "select_incoming it =
     (if it_shell_exited it then (if it_pending it then None else Some NoPendingClient)
      else if it_sigterm it then Some SigTerm
      else if it_sighup it then Some SigHup
      else (case it_accept it of
              Incoming \<Rightarrow> None | EndpointClosed \<Rightarrow> Some EndpointGone | WindowExpired \<Rightarrow> Some Expired))"

definition loop_iteration :: "iteration \<Rightarrow> loop_exit option" where
  "loop_iteration it =
     (case select_incoming it of
        Some x \<Rightarrow> Some x
      | None \<Rightarrow>
          (if \<not> it_accepted it \<or> \<not> it_handshake it then None
           else (case it_conn it of
                   Finished_conn True \<Rightarrow> Some CleanDisconnect
                 | Finished_conn False \<Rightarrow> None
                 | Signalled \<Rightarrow> Some SignalInSession)))"

text \<open>Whether the loop itself records the logout on an exit.\<close>

fun loop_logout :: "loop_exit \<Rightarrow> bool" where
  "loop_logout NoPendingClient = False"
| "loop_logout CleanDisconnect = False"
| "loop_logout _ = True"

fun reconnect_loop :: "iteration list \<Rightarrow> loop_exit option" where
  "reconnect_loop [] = None"
| "reconnect_loop (it # its) =
     (case loop_iteration it of Some x \<Rightarrow> Some x | None \<Rightarrow> reconnect_loop its)"

section \<open>Hanging the shell up\<close>

datatype signal = SIGHUP | SIGKILL

text \<open>A process group as the kernel sees it: \<open>gone_after\<close> says for each number of 50 ms ticks since the
  hangup whether \<open>killpg(pgid, None)\<close> fails.  The result is the signals sent and the number of
  ticks waited.\<close>

fun poll_group :: "(nat \<Rightarrow> bool) \<Rightarrow> nat \<Rightarrow> nat \<Rightarrow> signal list \<times> nat" where
  "poll_group gone tick 0 = ([SIGKILL], tick)"
| "poll_group gone tick (Suc n) =
     (if gone (Suc tick) then ([], Suc tick) else poll_group gone (Suc tick) n)"

definition hangup_child :: "(nat \<Rightarrow> bool) \<Rightarrow> nat option \<Rightarrow> signal list \<times> nat" where
  "hangup_child gone child_pid =
     (case child_pid of
        None \<Rightarrow> ([], 0)
      | Some pid \<Rightarrow> (case poll_group gone 0 20 of (sigs, ticks) \<Rightarrow> (SIGHUP # sigs, ticks)))"

text \<open>The end of \<open>run_session\<close>: why the loop ended, the signals sent, and the logouts recorded, by the
  loop and by the watcher once \<open>child.wait\<close> returns.  \<open>shell_gone\<close> says whether the shell is gone
  when the signals have been sent.\<close>

definition run_session_end ::
    "(nat \<Rightarrow> bool) \<Rightarrow> nat option \<Rightarrow> bool \<Rightarrow> bool \<Rightarrow> (signal list \<Rightarrow> bool) \<Rightarrow> iteration list
     \<Rightarrow> (loop_exit \<times> signal list \<times> utmp_event list) option" where
  "run_session_end gone child_pid master_fd shell_exited shell_gone its =
     (case reconnect_loop its of
        None \<Rightarrow> None
      | Some x \<Rightarrow>
          (let sigs = (if shell_exited then [] else fst (hangup_child gone child_pid));
               by_loop = (if master_fd \<and> loop_logout x then [RecordLogout] else []);
               by_watcher = (if master_fd \<and> (shell_exited \<or> shell_gone sigs) then [RecordLogout] else [])
           in Some (x, sigs, by_loop @ by_watcher)))"

text \<open>\<open>handle_connection\<close> as the loop sees it: whether the connection ended cleanly, by the task that
  ended first.  \<open>pty_stream\<close>: the client opened its PTY stream before the dispatch task ended.\<close>

definition handle_connection ::
    "(bytes \<Rightarrow> Envelope option) \<Rightarrow> (Envelope \<Rightarrow> bytes) \<Rightarrow> nat \<Rightarrow> string \<Rightarrow> bool \<Rightarrow> recv_stream option
     \<Rightarrow> send_stream \<Rightarrow> bool \<Rightarrow> conn_task \<Rightarrow> server \<Rightarrow> bool" where
  "handle_connection decode encode conn peer timed_out ctrl s pty_stream first sv =
     (case open_session decode encode conn peer timed_out ctrl s sv of
        (SessionOpened, _) \<Rightarrow> pty_stream \<and> select_clean first
      | _ \<Rightarrow> False)"

section \<open>The detached process\<close>

datatype fd_target = Inherited | DevNull | LogFile

record stdio =
  fd_stdin :: fd_target
  fd_stdout :: fd_target
  fd_stderr :: fd_target

definition detach_stdio :: "bool \<Rightarrow> bool \<Rightarrow> stdio \<Rightarrow> stdio" where
  "detach_stdio null_opens log_opens io =
     (let io1 = (if null_opens then io\<lparr>fd_stdin := DevNull, fd_stdout := DevNull\<rparr> else io);
          stderr_src = (if log_opens then Some LogFile else if null_opens then Some DevNull else None)
      in (case stderr_src of None \<Rightarrow> io1 | Some f \<Rightarrow> io1\<lparr>fd_stderr := f\<rparr>))"

text \<open>\<open>fallback_tmp_state_dir\<close> and \<open>session_log_path\<close>: the temporary directory and its canonical form,
  \<open>dirs::state_dir\<close> and \<open>dirs::home_dir\<close> are parameters.\<close>

definition fallback_tmp_state_dir :: "string \<Rightarrow> (string \<Rightarrow> string option) \<Rightarrow> u32 \<Rightarrow> string" where
  "fallback_tmp_state_dir temp_dir canonicalize uid =
     (let base = (case canonicalize temp_dir of None \<Rightarrow> temp_dir | Some p \<Rightarrow> p)
      in path_join base (''etr-'' @ show_nat (unat uid)))"

definition session_log_path :: "string option \<Rightarrow> string option \<Rightarrow> string \<Rightarrow> string" where
  "session_log_path state_dir home_dir fallback =
     (let d = (case state_dir of Some d \<Rightarrow> Some d | None \<Rightarrow> map_option (\<lambda>h. path_join h ''.local/state'') home_dir)
      in path_join (case d of Some d \<Rightarrow> path_join d ''etr'' | None \<Rightarrow> fallback) ''etrs.log'')"

text \<open>The two sides of the fork: the child sends its port as two bytes, the parent reads them and
  prints the reply; a child that dies before that gives \<open>UnexpectedEof\<close>.\<close>

definition child_port_bytes :: "u16 \<Rightarrow> bytes" where
  "child_port_bytes actual_port = be_bytes 2 (unat actual_port)"

definition parent_reply :: "bytes \<Rightarrow> bytes \<Rightarrow> string io_result" where
  "parent_reply pipe_bytes cert =
     (if length pipe_bytes < 2 then Inl UnexpectedEof
      else Inr (server_reply (word_of_nat (from_be_bytes (take 2 pipe_bytes))) cert))"

text \<open>The address the child binds: \<open>parse_addr\<close> is the parser of socket addresses.\<close>

definition child_bind_addr :: "(string \<Rightarrow> SocketAddr option) \<Rightarrow> string option \<Rightarrow> AddrPref \<Rightarrow> u16 \<Rightarrow> SocketAddr io_result" where
  "child_bind_addr parse_addr bind own_pref port =
     (case parse_addr (effective_bind_ip bind own_pref @ '':'' @ show_u16 port) of
        None \<Rightarrow> Inl InvalidInput
      | Some a \<Rightarrow> Inr a)"

section \<open>Lemmas\<close>

lemma poll_group_spec:
  "poll_group gone tick n = (sigs, ticks) \<Longrightarrow>
   ticks \<le> tick + n \<and>
   (sigs = [SIGKILL] \<and> ticks = tick + n \<and> (\<forall>t. tick < t \<longrightarrow> t \<le> tick + n \<longrightarrow> \<not> gone t) \<or> sigs = [] \<and> gone ticks \<and> tick < ticks)"
proof (induction n arbitrary: tick)
  case (Suc n)
  show ?case
  proof (cases "gone (Suc tick)")
    case False
    then have "poll_group gone (Suc tick) n = (sigs, ticks)" using Suc.prems by simp
    from Suc.IH[OF this] False show ?thesis
      by (metis Suc_leI Suc_lessD add_Suc_right add_Suc le_eq_less_or_eq)
  qed (use Suc.prems in auto)
qed simp

lemma loop_iteration_exits:
  "loop_iteration it = Some x \<Longrightarrow>
     (x = NoPendingClient \<longrightarrow> it_shell_exited it) \<and> (x = CleanDisconnect \<longrightarrow> it_conn it = Finished_conn True)"
  by (auto simp: loop_iteration_def select_incoming_def
      split: if_splits accept_result.splits conn_result.splits bool.splits)

lemma reconnect_loop_Some:
  "reconnect_loop its = Some x \<Longrightarrow> \<exists>it \<in> set its. loop_iteration it = Some x"
  by (induction its) (auto split: option.splits)

lemma reconnect_loop_skip:
  "\<forall>it \<in> set its. loop_iteration it = None \<Longrightarrow> reconnect_loop (its @ rest) = reconnect_loop rest"
  by (induction its) auto

section \<open>Properties\<close>

text \<open>C31 (liveness): hanging the shell up takes at least one and at most 20 polls of 50 ms, always starts with \<open>SIGHUP\<close> to
  the group, and escalates to \<open>SIGKILL\<close> exactly when the group was there at every poll: afterwards
  the group has been seen gone or has been killed.\<close>

theorem hangup_child_bounded:
  assumes "hangup_child gone (Some pid) = (sigs, ticks)"
  shows "1 \<le> ticks \<and> ticks \<le> 20 \<and> (sigs = [SIGHUP] \<and> gone ticks
    \<or> sigs = [SIGHUP, SIGKILL] \<and> (\<forall>t. 1 \<le> t \<longrightarrow> t \<le> 20 \<longrightarrow> \<not> gone t))"
proof -
  obtain s n where p: "poll_group gone 0 20 = (s, n)" by fastforce
  then have "sigs = SIGHUP # s" "ticks = n" using assms by (simp_all add: hangup_child_def)
  with poll_group_spec[OF p] show ?thesis by (auto simp: Suc_le_eq)
qed

theorem hangup_child_bounded_witness:
  "\<exists>sigs ticks. hangup_child (\<lambda>t. 3 \<le> t) (Some 42) = (sigs, ticks) \<and> ticks \<le> 20"
proof -
  obtain sigs ticks where "hangup_child (\<lambda>t. 3 \<le> t) (Some 42) = (sigs, ticks)" by fastforce
  with hangup_child_bounded[OF this] show ?thesis by blast
qed

text \<open>C30 (safety): connections without the credentials never end a session: each of them is reported
  unclean whatever task would have ended first, and after any number of them the loop is where it
  was, waiting for the next client, the shell, a signal or the window.\<close>

theorem intruder_cannot_end_session:
  assumes "timed_out \<or> (\<forall>so r. read_session_open decode ctrl = Inr (so, r) \<longrightarrow>
      \<not> (so_session_id so = session_id (sv_session sv) \<and> so_passkey so = passkey (sv_session sv)))"
    and "list_all (\<lambda>it. select_incoming it = None \<and>
      it_conn it = Finished_conn (handle_connection decode encode conn peer timed_out ctrl s pty_stream first sv)) its"
  shows "reconnect_loop (its @ rest) = reconnect_loop rest"
proof (rule reconnect_loop_skip)
  have "\<not> handle_connection decode encode conn peer timed_out ctrl s pty_stream first sv"
    using open_session_refused[OF assms(1), of encode conn peer s]
    by (auto simp: handle_connection_def split: prod.splits close_reason.splits)
  then show "\<forall>it \<in> set its. loop_iteration it = None"
    using assms(2) by (auto simp: list_all_iff loop_iteration_def)
qed

theorem intruder_cannot_end_session_witness:
  "let it = \<lparr>it_shell_exited = False, it_pending = False, it_sigterm = False, it_sighup = False,
       it_accept = Incoming, it_accepted = True, it_handshake = True, it_conn = Finished_conn False\<rparr>
   in reconnect_loop ([it, it] @ [it\<lparr>it_accept := WindowExpired\<rparr>]) = Some Expired"
proof -
  let ?it = "\<lparr>it_shell_exited = False, it_pending = False, it_sigterm = False, it_sighup = False,
       it_accept = Incoming, it_accepted = True, it_handshake = True, it_conn = Finished_conn False\<rparr>"
  have "reconnect_loop ([?it, ?it] @ [?it\<lparr>it_accept := WindowExpired\<rparr>]) =
      reconnect_loop [?it\<lparr>it_accept := WindowExpired\<rparr>]"
    by (rule intruder_cannot_end_session[where timed_out = True and decode = "\<lambda>_. None" and ctrl = None and
          encode = "\<lambda>_. []" and sv = "new_server [7] ''k'' True" and conn = 1 and peer = "[]" and
          s = "\<lparr>outgoing = [], budget = None\<rparr>" and pty_stream = True and first = "CtrlReader True"])
      (simp_all add: select_incoming_def handle_connection_def open_session_def)
  then show ?thesis by (simp add: loop_iteration_def select_incoming_def)
qed

text \<open>(functional): when the session of a shell with a PTY descriptor ends, a logout is in utmp,
  whichever of its exits the loop took: an exit that records none itself leaves it to the watcher,
  which the hangup releases.  The hypotheses say that the shell has exited when an exit for want of a
  client was taken, and that a signalled shell goes away.\<close>

theorem logout_always_recorded:
  assumes "run_session_end gone (Some pid) True shell_exited shell_gone its = Some (x, sigs, utmp)"
    and "\<And>ss. ss \<noteq> [] \<Longrightarrow> shell_gone ss"
    and "list_ex it_shell_exited its \<Longrightarrow> shell_exited"
  shows "RecordLogout \<in> set utmp"
proof -
  have x: "reconnect_loop its = Some x"
    using assms(1) by (auto simp: run_session_end_def Let_def split: option.splits)
  then obtain it where it: "it \<in> set its" "loop_iteration it = Some x"
    using reconnect_loop_Some by blast
  have "fst (hangup_child gone (Some pid)) \<noteq> []" by (simp add: hangup_child_def split: prod.split)
  then show ?thesis
    using assms x loop_iteration_exits[OF it(2)] it(1)
    by (auto simp: run_session_end_def Let_def list_ex_iff split: if_splits)
qed

theorem logout_always_recorded_witness:
  "let it = \<lparr>it_shell_exited = False, it_pending = False, it_sigterm = False, it_sighup = False,
       it_accept = Incoming, it_accepted = True, it_handshake = True, it_conn = Finished_conn True\<rparr>
   in \<exists>utmp. run_session_end (\<lambda>_. True) (Some 42) True False (\<lambda>ss. ss \<noteq> []) [it] =
        Some (CleanDisconnect, [SIGHUP], utmp) \<and> RecordLogout \<in> set utmp"
proof -
  let ?it = "\<lparr>it_shell_exited = False, it_pending = False, it_sigterm = False, it_sighup = False,
       it_accept = Incoming, it_accepted = True, it_handshake = True, it_conn = Finished_conn True\<rparr>"
  have "\<exists>utmp. run_session_end (\<lambda>_. True) (Some 42) True False (\<lambda>ss. ss \<noteq> []) [?it] =
        Some (CleanDisconnect, [SIGHUP], utmp)"
    by (simp add: run_session_end_def loop_iteration_def select_incoming_def hangup_child_def numeral_eq_Suc)
  then obtain utmp where u: "run_session_end (\<lambda>_. True) (Some 42) True False (\<lambda>ss. ss \<noteq> []) [?it] =
        Some (CleanDisconnect, [SIGHUP], utmp)" by blast
  have "RecordLogout \<in> set utmp" by (rule logout_always_recorded[OF u]) simp_all
  with u show ?thesis by auto
qed

end
