(* ===== verification/Client_Main.thy ===== *)
theory Client_Main
  imports Client_Conn Config_File X11_Forward
begin

text \<open>
  \<open>main\<close> of \<open>src/bin/etr.rs\<close>: the configuration commands, how command line, configuration file and
  environment combine into the parameters of a session, and the call of the bootstrap.  The parsed
  command line is a record of the fields of \<open>Cli\<close> that \<open>main\<close> uses; shell completions are left to
  clap.  The process environment, the resolver and \<open>ssh\<close> are parameters.
\<close>

record Cli =
  c_target :: "string option"
  c_ssh_port :: "u16 option"
  c_verbose :: nat
  c_prefer_ipv4 :: bool
  c_prefer_ipv6 :: bool
  c_server_path :: "string option"
  c_forward :: "string list"
  c_reverse_forward :: "string list"
  c_gateway_ports :: bool
  c_log_path :: "string option"
  c_server_log_path :: "string option"
  c_env :: "string list"
  c_x11 :: bool
  c_x11_trusted :: bool
  c_command :: "string list"
  c_generate_config :: bool
  c_write_config :: "string option"
  c_merge_config :: bool
  c_completions :: "string option"

section \<open>Configuration commands\<close>

datatype config_action = PrintConfig string | WriteFile string string | AlreadyComplete

text \<open>\<open>existing\<close> is the content of the configuration file, \<open>None\<close> when there is none.\<close>

definition config_command :: "Cli \<Rightarrow> string \<Rightarrow> string option \<Rightarrow> config_action option" where
  "config_command cli path existing =
     (if c_generate_config cli then Some (PrintConfig DEFAULT_CONFIG)
      else (case c_write_config cli of
              Some path_str \<Rightarrow> Some (WriteFile (if path_str = [] then path else path_str) DEFAULT_CONFIG)
            | None \<Rightarrow>
                (if c_merge_config cli
                 then (case existing of
                         Some s \<Rightarrow>
                           (case merge_defaults s of
                              (new_content, additions) \<Rightarrow>
                                Some (if additions = [] then AlreadyComplete else WriteFile path new_content))
                       | None \<Rightarrow> Some (WriteFile path DEFAULT_CONFIG))
                 else None)))"

section \<open>Options\<close>

text \<open>The verbose log: opened only for \<open>-v\<close> on a terminal.\<close>

definition client_log_path :: "string option \<Rightarrow> string option \<Rightarrow> string \<Rightarrow> string" where
  "client_log_path state_dir home_dir fallback =
     (let d = (case state_dir of Some d \<Rightarrow> Some d | None \<Rightarrow> map_option (\<lambda>h. path_join h ''.local/state'') home_dir)
      in path_join (case d of Some d \<Rightarrow> path_join d ''etr'' | None \<Rightarrow> fallback) ''etr.log'')"

definition verbose_log :: "Cli \<Rightarrow> ClientConfig \<Rightarrow> bool \<Rightarrow> string \<Rightarrow> string option" where
  "verbose_log cli cfg stdin_tty default_path =
     (if 0 < c_verbose cli \<and> stdin_tty
      then Some (case c_log_path cli of
                   Some p \<Rightarrow> p
                 | None \<Rightarrow> (case cc_log_path cfg of Some p \<Rightarrow> p | None \<Rightarrow> default_path))
      else None)"

definition pick_ssh_port :: "Cli \<Rightarrow> ClientConfig \<Rightarrow> u16" where
  "pick_ssh_port cli cfg =
     (case c_ssh_port cli of Some p \<Rightarrow> p | None \<Rightarrow> (case cc_ssh_port cfg of Some p \<Rightarrow> p | None \<Rightarrow> 22))"

definition client_pref :: "Cli \<Rightarrow> ClientConfig \<Rightarrow> AddrPref" where
  "client_pref cli cfg =
     pref_or (from_flags (c_prefer_ipv4 cli) (c_prefer_ipv6 cli)) (from_config (cc_address_family cfg))"

definition pick_server_path :: "Cli \<Rightarrow> ClientConfig \<Rightarrow> string" where
  "pick_server_path cli cfg =
     (case c_server_path cli of Some p \<Rightarrow> p | None \<Rightarrow> (case cc_server_path cfg of Some p \<Rightarrow> p | None \<Rightarrow> ''etrs''))"

definition pick_list :: "string list \<Rightarrow> string list option \<Rightarrow> string list" where
  "pick_list cli_list cfg_list =
     (if cli_list \<noteq> [] then cli_list else (case cfg_list of Some l \<Rightarrow> l | None \<Rightarrow> cli_list))"

fun parse_specs :: "string list \<Rightarrow> spec_error + ForwardSpec list" where
  "parse_specs [] = Inr []"
| "parse_specs (s # ss) =
     (case parse_spec s of
        Inl e \<Rightarrow> Inl e
      | Inr spec \<Rightarrow> (case parse_specs ss of Inl e \<Rightarrow> Inl e | Inr specs \<Rightarrow> Inr (spec # specs)))"

definition pick_gateway :: "Cli \<Rightarrow> ClientConfig \<Rightarrow> bool" where
  "pick_gateway cli cfg =
     (if c_gateway_ports cli then True else (case cc_gateway_ports cfg of Some b \<Rightarrow> b | None \<Rightarrow> False))"

section \<open>Environment\<close>

type_synonym os_env = "string \<rightharpoonup> string"

text \<open>A bare \<open>KEY\<close> is taken from the local environment, or dropped.\<close>

definition resolve_env :: "os_env \<Rightarrow> string list \<Rightarrow> string list" where
  "resolve_env getenv raw =
     List.map_filter (\<lambda>e. if CHR ''='' \<in> set e then Some e
       else map_option (\<lambda>v. e @ ''='' @ v) (getenv e)) raw"

definition LOCALE_KEYS :: "string list" where
  "LOCALE_KEYS =
     [''LANG'', ''LC_ALL'', ''LC_CTYPE'', ''LC_COLLATE'', ''LC_MESSAGES'', ''LC_MONETARY'', ''LC_NUMERIC'',
      ''LC_TIME'', ''COLORTERM'', ''TERM_PROGRAM'', ''TERM_PROGRAM_VERSION'']"

definition locale_prefix :: "os_env \<Rightarrow> string list \<Rightarrow> string list" where
  "locale_prefix getenv env_vars =
     List.map_filter (\<lambda>k. case getenv k of
         None \<Rightarrow> None
       | Some v \<Rightarrow> if has_line_breaker v then None else Some (k @ ''='' @ v))
       (filter (\<lambda>k. \<not> list_ex (starts_with (k @ ''='')) env_vars) LOCALE_KEYS)"

definition client_env :: "os_env \<Rightarrow> Cli \<Rightarrow> ClientConfig \<Rightarrow> string list" where
  "client_env getenv cli cfg =
     (let raw_env = (if c_env cli \<noteq> [] then c_env cli else (case cc_env cfg of Some l \<Rightarrow> l | None \<Rightarrow> []));
          env_vars = resolve_env getenv raw_env
      in locale_prefix getenv env_vars @ env_vars)"

definition client_term :: "os_env \<Rightarrow> string" where
  "client_term getenv =
     (case getenv ''TERM'' of
        Some t \<Rightarrow> if has_line_breaker t then ''xterm-256color'' else t
      | None \<Rightarrow> ''xterm-256color'')"

section \<open>The session\<close>

fun join_words :: "string list \<Rightarrow> string" where
  "join_words [] = []"
| "join_words [w] = w"
| "join_words (w # ws) = w @ '' '' @ join_words ws"

definition family_flag :: "(string \<Rightarrow> SocketAddr list option) \<Rightarrow> string \<Rightarrow> u16 \<Rightarrow> AddrPref \<Rightarrow> string option" where
  "family_flag lookup_host target ssh_port addr_pref =
     (if addr_pref = Auto then None
      else if family_available lookup_host (host_of target @ '':'' @ show_u16 ssh_port) addr_pref
      then ssh_flag addr_pref
      else None)"

definition x11_flags :: "Cli \<Rightarrow> ClientConfig \<Rightarrow> bool \<times> bool" where
  "x11_flags cli cfg =
     (let trusted = (c_x11_trusted cli \<or> cc_x11_trusted cfg = Some True)
      in (c_x11 cli \<or> cc_x11 cfg = Some True \<or> trusted, trusted))"

text \<open>The cookie for X11: \<open>None\<close> is the exit for want of \<open>DISPLAY\<close>; a failing \<open>xauth\<close> leaves both
  fields empty.\<close>

definition x11_credentials ::
    "xauth \<Rightarrow> string option \<Rightarrow> os_env \<Rightarrow> bool \<Rightarrow> bool \<Rightarrow> (string \<times> bytes) option outcome" where
  "x11_credentials xauth tmp_dir getenv enabled trusted =
     (if \<not> enabled then Returns (Some ([], []))
      else (case getenv ''DISPLAY'' of
              None \<Rightarrow> Returns None
            | Some disp \<Rightarrow>
                (case get_xauth_cookie_for_mode xauth tmp_dir disp trusted of
                   Panics \<Rightarrow> Panics
                 | Returns (Inr pc) \<Rightarrow> Returns (Some pc)
                 | Returns (Inl _) \<Rightarrow> Returns (Some ([], [])))))"

record session_params =
  sp_target :: string
  sp_ssh_port :: u16
  sp_pref :: AddrPref
  sp_server_path :: string
  sp_server_log_path :: "string option"
  sp_forwards :: "ForwardSpec list"
  sp_reverse :: "string list"
  sp_gateway :: bool
  sp_env :: "string list"
  sp_term :: string
  sp_command :: "string option"
  sp_x11 :: bool
  sp_x11_trusted :: bool
  sp_family_flag :: "string option"

text \<open>\<open>PrintCompletions\<close>: the completions clap generates for that shell.\<close>

datatype main_action =
    PrintCompletions string | ConfigAction config_action | PrintHelp | BadSpec spec_error | StartSession session_params

definition client_main ::
    "(string \<Rightarrow> SocketAddr list option) \<Rightarrow> os_env \<Rightarrow> string \<Rightarrow> string option \<Rightarrow> ClientConfig \<Rightarrow> Cli \<Rightarrow> main_action" where
  "client_main lookup_host getenv path existing cfg cli =
     (case c_completions cli of
        Some shell \<Rightarrow> PrintCompletions shell
      | None \<Rightarrow>
     (case config_command cli path existing of
        Some act \<Rightarrow> ConfigAction act
      | None \<Rightarrow>
          (case c_target cli of
             None \<Rightarrow> PrintHelp
           | Some target \<Rightarrow>
               (case parse_specs (pick_list (c_forward cli) (cc_forward cfg)) of
                  Inl e \<Rightarrow> BadSpec e
                | Inr forwards \<Rightarrow>
                    (let reverse = pick_list (c_reverse_forward cli) (cc_reverse_forward cfg)
                     in case parse_specs reverse of
                          Inl e \<Rightarrow> BadSpec e
                        | Inr _ \<Rightarrow>
                            (let remote_command = join_words (c_command cli);
                                 pref = client_pref cli cfg;
                                 port = pick_ssh_port cli cfg
                             in StartSession
                                  \<lparr>sp_target = target, sp_ssh_port = port, sp_pref = pref,
                                   sp_server_path = pick_server_path cli cfg,
                                   sp_server_log_path =
                                     (case c_server_log_path cli of Some p \<Rightarrow> Some p | None \<Rightarrow> cc_server_log_path cfg),
                                   sp_forwards = forwards, sp_reverse = reverse, sp_gateway = pick_gateway cli cfg,
                                   sp_env = client_env getenv cli cfg, sp_term = client_term getenv,
                                   sp_command = (if remote_command = [] then None else Some remote_command),
                                   sp_x11 = fst (x11_flags cli cfg), sp_x11_trusted = snd (x11_flags cli cfg),
                                   sp_family_flag = family_flag lookup_host target port pref\<rparr>))))))"

text \<open>The bootstrap of the session; \<open>session_id\<close> and \<open>passkey\<close> are the random ones.\<close>

definition start_session ::
    "(string list \<Rightarrow> string \<Rightarrow> error_kind + bool \<times> string) \<Rightarrow> nat \<Rightarrow> bytes \<Rightarrow> string \<Rightarrow> session_params
     \<Rightarrow> (u16 \<times> bytes) io_result outcome" where
  "start_session ssh verbose sid pk sp =
     bootstrap_ssh ssh (sp_target sp) (sp_ssh_port sp) sid pk (sp_term sp) (sp_server_path sp)
       (sp_server_log_path sp) (sp_env sp) (sp_command sp) (sp_x11 sp) (sp_family_flag sp) (sp_pref sp) verbose"

section \<open>Lemmas\<close>

text \<open>\<open>main\<close> has parsed the reverse specs before, so none is dropped when they are parsed again.\<close>

lemma parse_specs_reverse: "parse_specs ss = Inr specs \<Longrightarrow> parsed_reverse_specs ss = specs"
  by (induction ss arbitrary: specs) (auto simp: parsed_reverse_specs_def map_filter_simps split: sum.splits)

lemma has_line_breaker_append [simp]:
  "has_line_breaker (xs @ ys) \<longleftrightarrow> has_line_breaker xs \<or> has_line_breaker ys"
  by (auto simp: has_line_breaker_def)

lemma locale_keys_clean: "k \<in> set LOCALE_KEYS \<Longrightarrow> \<not> has_line_breaker k"
  by (auto simp: LOCALE_KEYS_def has_line_breaker_def)

lemma locale_prefix_clean: "\<not> list_ex has_line_breaker (locale_prefix getenv env)"
proof -
  have "\<not> has_line_breaker e" if e: "e \<in> set (locale_prefix getenv env)" for e
  proof -
    obtain k v where "k \<in> set LOCALE_KEYS" "\<not> has_line_breaker v" "e = k @ ''='' @ v"
      using e by (auto simp: locale_prefix_def List.map_filter_def split: option.splits if_splits)
    then show ?thesis using locale_keys_clean[of k] by (simp add: has_line_breaker_def)
  qed
  then show ?thesis by (auto simp: list_ex_iff)
qed

lemma client_term_clean: "\<not> has_line_breaker (client_term getenv)"
  by (auto simp: client_term_def split: option.split) (simp_all add: has_line_breaker_def)

lemma apply_client_env_append:
  "apply_client_env (xs @ ys) env = apply_client_env ys (apply_client_env xs env)"
  by (induction xs arbitrary: env) auto

lemma apply_client_env_other:
  "\<forall>kv \<in> set kvs. \<forall>v. split_once CHR ''='' kv \<noteq> Some (key, v) \<Longrightarrow> apply_client_env kvs env key = env key"
  by (induction kvs arbitrary: env) (auto split: option.split)

definition env_entry :: "string \<Rightarrow> string \<rightharpoonup> string" where
  "env_entry kv = (case split_once CHR ''='' kv of
     Some (k, v) \<Rightarrow> (if is_safe_client_env_var kv then Map.empty(k \<mapsto> v) else Map.empty)
   | None \<Rightarrow> Map.empty)"

lemma apply_client_env_foldl: "apply_client_env kvs env = foldl (\<lambda>e kv. e ++ env_entry kv) env kvs"
  by (induction kvs arbitrary: env) (auto simp: env_entry_def split: option.split)

lemma apply_client_env_map_add:
  "apply_client_env kvs env = env ++ apply_client_env kvs Map.empty"
proof (induction kvs arbitrary: env)
  case (Cons kv kvs)
  show ?case
    using Cons.IH[of "env ++ env_entry kv"] Cons.IH[of "env_entry kv"]
    by (simp add: apply_client_env_foldl)
qed simp

lemma starts_with_key:
  "CHR ''='' \<notin> set key \<Longrightarrow> starts_with (key @ ''='') kv \<longleftrightarrow> (\<exists>v. split_once CHR ''='' kv = Some (key, v))"
proof
  assume "CHR ''='' \<notin> set key" and "starts_with (key @ ''='') kv"
  then obtain v where "kv = key @ CHR ''='' # v"
    by (metis append_Cons append_assoc append_take_drop_id starts_with_def self_append_conv2)
  then show "\<exists>v. split_once CHR ''='' kv = Some (key, v)"
    using \<open>CHR ''='' \<notin> set key\<close> by (simp add: split_once_append)
next
  assume "\<exists>v. split_once CHR ''='' kv = Some (key, v)"
  then show "starts_with (key @ ''='') kv" by (auto simp: starts_with_def dest: split_once_SomeD)
qed

lemma locale_keys_safe:
  assumes "k \<in> set LOCALE_KEYS" and "\<not> has_line_breaker v"
  shows "CHR ''='' \<notin> set k \<and> is_safe_client_env_var (k @ CHR ''='' # v)"
proof -
  have k: "CHR ''='' \<notin> set k" "k \<noteq> []" "\<not> has_line_breaker k"
    "\<not> list_ex (\<lambda>blocked. eq_ignore_ascii_case k blocked) BLOCKED_ENV_KEYS"
    using assms(1)
    by (auto simp: LOCALE_KEYS_def has_line_breaker_def BLOCKED_ENV_KEYS_def eq_ignore_ascii_case_def
        to_ascii_lowercase_def ascii_lower_def)
  then show ?thesis using assms(2)
    by (simp add: is_safe_client_env_var_def split_once_append has_line_breaker_def)
qed

definition clean_var :: "os_env \<Rightarrow> string \<Rightarrow> string option" where
  "clean_var getenv k = (case getenv k of Some v \<Rightarrow> if has_line_breaker v then None else Some v | None \<Rightarrow> None)"

lemma locale_entries:
  assumes "set ks \<subseteq> set LOCALE_KEYS"
  shows "apply_client_env (List.map_filter (\<lambda>k. case getenv k of None \<Rightarrow> None
      | Some v \<Rightarrow> if has_line_breaker v then None else Some (k @ ''='' @ v)) ks) Map.empty key =
    (if key \<in> set ks then clean_var getenv key else None)"
  using assms
proof (induction ks)
  case (Cons k ks)
  show ?case
  proof (cases "clean_var getenv k")
    case None
    then show ?thesis using Cons
      by (auto simp: clean_var_def map_filter_simps split: option.splits if_splits)
  next
    case (Some v)
    then have v: "getenv k = Some v" "\<not> has_line_breaker v"
      by (auto simp: clean_var_def split: option.splits if_splits)
    let ?f = "\<lambda>k. case getenv k of None \<Rightarrow> None
      | Some v \<Rightarrow> if has_line_breaker v then None else Some (k @ ''='' @ v)"
    have "List.map_filter ?f (k # ks) = (k @ CHR ''='' # v) # List.map_filter ?f ks"
      using v by (simp add: map_filter_simps)
    moreover have "apply_client_env ((k @ CHR ''='' # v) # kvs) Map.empty =
        Map.empty(k \<mapsto> v) ++ apply_client_env kvs Map.empty" for kvs
      using locale_keys_safe[OF _ v(2), of k] Cons.prems
      by (simp add: split_once_append) (rule apply_client_env_map_add)
    ultimately show ?thesis
      using Cons Some by (auto simp: map_add_def split: option.splits)
  qed
qed (simp add: map_filter_simps)

section \<open>Properties\<close>

text \<open>(error): of everything \<open>main\<close> gathers for the bootstrap, only what the user wrote can be refused:
  the target, the \<open>--env\<close> entries with the values they name, and the command; the terminal type and the
  locale variables taken from the local environment never make it fail.\<close>

theorem only_explicit_input_refused:
  assumes "client_main lookup_host getenv path existing cfg cli = StartSession sp"
    and "explicit = resolve_env getenv (if c_env cli \<noteq> [] then c_env cli else (case cc_env cfg of Some l \<Rightarrow> l | None \<Rightarrow> []))"
  shows "validate_bootstrap_inputs (sp_target sp) (sp_term sp) (sp_env sp) (sp_command sp) =
    (if sp_target sp = [] \<or> starts_with ''-'' (sp_target sp) then Inl BadTarget
     else if list_ex has_line_breaker explicit then Inl BadEnv
     else if has_line_breaker (join_words (c_command cli)) then Inl BadCommand
     else Inr ())"
proof -
  have sp: "sp_term sp = client_term getenv" "sp_env sp = locale_prefix getenv explicit @ explicit"
    "sp_command sp = (if join_words (c_command cli) = [] then None else Some (join_words (c_command cli)))"
    using assms
    by (auto simp: client_main_def client_env_def Let_def split: option.splits sum.splits)
  show ?thesis
    unfolding validate_bootstrap_inputs_def sp list_ex_append
    using client_term_clean[of getenv] locale_prefix_clean[of getenv explicit]
    by (simp add: has_line_breaker_def)
qed

definition sample_cli :: Cli where
  "sample_cli = \<lparr>c_target = Some ''host'', c_ssh_port = None, c_verbose = 0, c_prefer_ipv4 = False,
     c_prefer_ipv6 = False, c_server_path = None, c_forward = [], c_reverse_forward = [],
     c_gateway_ports = False, c_log_path = None, c_server_log_path = None, c_env = [''A=b''], c_x11 = False,
     c_x11_trusted = False, c_command = [''ls'', ''-l''], c_generate_config = False, c_write_config = None,
     c_merge_config = False, c_completions = None\<rparr>"

theorem only_explicit_input_refused_witness:
  "\<exists>sp. client_main (\<lambda>_. None) (Map.empty(''TERM'' \<mapsto> [newline])) [] None (client default_config) sample_cli = StartSession sp
    \<and> validate_bootstrap_inputs (sp_target sp) (sp_term sp) (sp_env sp) (sp_command sp) = Inr ()"
proof -
  let ?main = "client_main (\<lambda>_. None) (Map.empty(''TERM'' \<mapsto> [newline])) [] None (client default_config) sample_cli"
  have "\<exists>sp. ?main = StartSession sp \<and> sp_target sp = ''host''"
    by (simp add: client_main_def config_command_def sample_cli_def default_config_def pick_list_def Let_def)
  then obtain sp where sp: "?main = StartSession sp" "sp_target sp = ''host''" by blast
  have "validate_bootstrap_inputs (sp_target sp) (sp_term sp) (sp_env sp) (sp_command sp) = Inr ()"
    using only_explicit_input_refused[OF sp(1) refl]
    by (simp add: sp(2) sample_cli_def resolve_env_def map_filter_simps has_line_breaker_def starts_with_def)
  with sp(1) show ?thesis by blast
qed

text \<open>(functional): in the environment of the remote shell an \<open>--env\<close> entry for a variable decides its
  value alone; a locale or terminal variable without one has the client's own value, when it has a
  clean one; every other variable is left as the server has it.\<close>

theorem explicit_env_wins:
  assumes "CHR ''='' \<notin> set key"
    and "explicit = resolve_env getenv (if c_env cli \<noteq> [] then c_env cli else (case cc_env cfg of Some l \<Rightarrow> l | None \<Rightarrow> []))"
  shows "apply_client_env (client_env getenv cli cfg) env key =
    (if list_ex (starts_with (key @ ''='')) explicit then apply_client_env explicit env key
     else if key \<in> set LOCALE_KEYS \<and> clean_var getenv key \<noteq> None then clean_var getenv key
     else env key)"
proof -
  let ?ks = "filter (\<lambda>k. \<not> list_ex (starts_with (k @ ''='')) explicit) LOCALE_KEYS"
  have env: "client_env getenv cli cfg = locale_prefix getenv explicit @ explicit"
    by (simp add: client_env_def Let_def assms(2))
  have loc: "apply_client_env (locale_prefix getenv explicit) Map.empty key =
      (if key \<in> set ?ks then clean_var getenv key else None)"
    unfolding locale_prefix_def by (rule locale_entries) auto
  have expl: "apply_client_env explicit Map.empty key = None" if "\<not> list_ex (starts_with (key @ ''='')) explicit"
    using that apply_client_env_other[of explicit key Map.empty] starts_with_key[OF assms(1)]
    by (auto simp: list_ex_iff)
  have eq: "apply_client_env (client_env getenv cli cfg) env key =
      (case apply_client_env explicit Map.empty key of Some v \<Rightarrow> Some v
       | None \<Rightarrow> (case apply_client_env (locale_prefix getenv explicit) Map.empty key of Some v \<Rightarrow> Some v | None \<Rightarrow> env key))"
    unfolding env apply_client_env_append
    using apply_client_env_map_add[of explicit "apply_client_env (locale_prefix getenv explicit) env"]
      apply_client_env_map_add[of "locale_prefix getenv explicit" env]
    by (simp add: map_add_def)
  have direct: "apply_client_env explicit env key =
      (case apply_client_env explicit Map.empty key of Some v \<Rightarrow> Some v | None \<Rightarrow> env key)"
    using apply_client_env_map_add[of explicit env] by (simp add: map_add_def)
  show ?thesis
    unfolding eq direct loc using expl by (auto split: option.split)
qed

theorem explicit_env_wins_witness:
  "apply_client_env (client_env (Map.empty(''LANG'' \<mapsto> ''C'')) sample_cli (client default_config)) Map.empty ''LANG'' = Some ''C''"
  using explicit_env_wins[of "''LANG''" _ "Map.empty(''LANG'' \<mapsto> ''C'')" sample_cli "client default_config" Map.empty, OF _ refl]
  by (simp add: sample_cli_def resolve_env_def map_filter_simps starts_with_def LOCALE_KEYS_def clean_var_def
      has_line_breaker_def)

end
