(* ===== verification/Server_Main.thy ===== *)
theory Server_Main
  imports Server_Loop Client_Main
begin

text \<open>
  The start of a session, from the command line of \<open>etrs\<close> to the process that serves it: \<open>main\<close> and
  \<open>run_server\<close> of \<open>src/bin/etrs.rs\<close>, whose fork gives two results, and together with \<open>bootstrap_ssh\<close> of
  \<open>src/bin/etr.rs\<close> the whole bootstrap.  At the end, the host that \<open>src/login.rs\<close> records for a login.
\<close>

section \<open>The command line of the server\<close>

record ServerCli =
  sl_port :: u16
  sl_bind :: "string option"
  sl_verbose :: nat
  sl_prefer_ipv4 :: bool
  sl_prefer_ipv6 :: bool
  sl_log_path :: "string option"
  sl_reconnect_timeout :: "u64 option"
  sl_completions :: bool

datatype server_action = PrintServerCompletions | RunServer u64 AddrPref

definition server_main :: "string option \<Rightarrow> ServerConfig \<Rightarrow> ServerCli \<Rightarrow> server_action" where
  "server_main env_tmout cfg cli =
     (let reconnect_timeout =
            resolve_reconnect_timeout (sl_reconnect_timeout cli) env_tmout (sc_reconnect_timeout cfg)
      in if sl_completions cli then PrintServerCompletions
         else RunServer reconnect_timeout
                (server_own_pref (sl_prefer_ipv4 cli) (sl_prefer_ipv6 cli) (sc_address_family cfg)))"

section \<open>The session process\<close>

text \<open>The arguments \<open>run_session\<close> is called with, the installed \<open>ADDR_PREF\<close>, the log and the descriptors.\<close>

record session_process =
  ss_id :: bytes
  ss_passkey :: string
  ss_term :: string
  ss_timeout :: u64
  ss_env :: "string list"
  ss_command :: "string option"
  ss_x11 :: bool
  ss_pref :: AddrPref
  ss_log_path :: string
  ss_stdio :: stdio

text \<open>The host the server runs on: the parser of socket addresses, the QUIC endpoint (the port it gets for
  an address), the certificate, the default log path, and which files open.\<close>

record server_host =
  parse_addr :: "string \<Rightarrow> SocketAddr option"
  listen :: "SocketAddr \<Rightarrow> u16 io_result"
  cert_of :: bytes
  default_log :: string
  null_opens :: bool
  log_opens :: "string \<Rightarrow> bool"

text \<open>After the fork: what the parent prints, and the session the child runs.\<close>

definition run_server ::
    "server_host \<Rightarrow> ServerCli \<Rightarrow> u64 \<Rightarrow> AddrPref \<Rightarrow> string \<Rightarrow>
     (string io_result \<times> (u16 \<times> session_process) io_result) io_result outcome" where
  "run_server host cli reconnect_timeout own_pref stdin =
     (case read_bootstrap stdin of
        Panics \<Rightarrow> Panics
      | Returns (Inl e) \<Rightarrow> Returns (Inl e)
      | Returns (Inr (sid, pk, term, opts)) \<Rightarrow>
          (let log_path = (case sl_log_path cli of Some p \<Rightarrow> p | None \<Rightarrow> default_log host);
               process = \<lparr>ss_id = sid, ss_passkey = pk, ss_term = term, ss_timeout = reconnect_timeout,
                 ss_env = bo_env opts, ss_command = bo_command opts, ss_x11 = bo_x11 opts,
                 ss_pref = effective_pref opts own_pref, ss_log_path = log_path,
                 ss_stdio = detach_stdio (null_opens host) (log_opens host log_path)
                   \<lparr>fd_stdin = Inherited, fd_stdout = Inherited, fd_stderr = Inherited\<rparr>\<rparr>;
               child = (case child_bind_addr (parse_addr host) (sl_bind cli) own_pref (sl_port cli) of
                          Inl e \<Rightarrow> Inl e
                        | Inr addr \<Rightarrow> map_sum id (\<lambda>port. (port, process)) (listen host addr));
               pipe = (case child of Inl _ \<Rightarrow> [] | Inr (port, _) \<Rightarrow> child_port_bytes port)
           in Returns (Inr (parent_reply pipe (cert_of host), child))))"

text \<open>The program as the remote shell sees it, from its words to the exit status and what it prints: clap, a
  parameter, refuses them or gives the options, which \<open>main\<close> acts on with the variable and the
  configuration it finds; the process that prints the reply is the parent of the fork.\<close>

definition etrs_program ::
    "(string list \<Rightarrow> ServerCli option) \<Rightarrow> string \<Rightarrow> string option \<Rightarrow> ServerConfig \<Rightarrow> server_host \<Rightarrow>
     string list \<Rightarrow> string \<Rightarrow> bool \<times> string" where
  "etrs_program clap completions env_tmout cfg host args stdin =
     (case clap args of
        None \<Rightarrow> (False, [])
      | Some cli \<Rightarrow>
          (case server_main env_tmout cfg cli of
             PrintServerCompletions \<Rightarrow> (True, completions)
           | RunServer timeout own_pref \<Rightarrow>
               (case run_server host cli timeout own_pref stdin of
                  Returns (Inr (Inr reply, _)) \<Rightarrow> (True, reply)
                | _ \<Rightarrow> (False, []))))"

text \<open>\<open>ssh\<close> as the client sees it: of its arguments, those after the options, the \<open>--\<close> and the target are
  joined to the command line of the remote shell, which splits it into words and runs the program the
  first one names, if there is one; the output is what the login shell prints, line by line, and then what
  the program prints, the exit status the program's.\<close>

fun ssh_remote_words :: "string list \<Rightarrow> string list" where
  "ssh_remote_words [] = []"
| "ssh_remote_words (w # ws) =
     (if w = ''--'' then tl ws else if w = ''-p'' then ssh_remote_words (tl ws) else ssh_remote_words ws)"

definition ssh_to ::
    "string list \<Rightarrow> string \<Rightarrow> (string \<Rightarrow> (string list \<Rightarrow> string \<Rightarrow> bool \<times> string) option) \<Rightarrow>
     string list \<Rightarrow> string \<Rightarrow> error_kind + bool \<times> string" where
  "ssh_to noise home programs argv stdin =
     (let printed = concat (map (\<lambda>l. l @ [newline]) noise)
      in case sh_words home (join_with '' '' (ssh_remote_words argv)) of
           Some (program # args) \<Rightarrow>
             (case programs program of
                None \<Rightarrow> Inr (False, printed)
              | Some run \<Rightarrow> (case run args stdin of (success, output) \<Rightarrow> Inr (success, printed @ output)))
         | _ \<Rightarrow> Inr (False, printed))"

section \<open>Lemmas\<close>

text \<open>The port crosses the pipe of the fork.\<close>

lemma parent_reply_child: "parent_reply (child_port_bytes port) cert = Inr (server_reply port cert)"
proof -
  have "from_be_bytes (be_bytes 2 (unat port)) = unat port"
    using unat_lt[of port] by (simp add: from_be_bytes_be_bytes)
  then show ?thesis by (simp add: parent_reply_def child_port_bytes_def)
qed

lemma parent_reply_dead_child: "parent_reply [] cert = Inl UnexpectedEof"
  by (simp add: parent_reply_def)

lemma run_server_reads:
  assumes "read_bootstrap stdin = Returns (Inr (sid, pk, term, opts))"
    and "child_bind_addr (parse_addr host) (sl_bind cli) own_pref (sl_port cli) = Inr addr" and "listen host addr = Inr port"
  shows "\<exists>p. run_server host cli timeout own_pref stdin =
      Returns (Inr (Inr (server_reply port (cert_of host)), Inr (port, p)))
    \<and> ss_id p = sid \<and> ss_passkey p = pk \<and> ss_term p = term \<and> ss_timeout p = timeout \<and> ss_env p = bo_env opts
    \<and> ss_command p = bo_command opts \<and> ss_x11 p = bo_x11 opts \<and> ss_pref p = effective_pref opts own_pref"
  using assms by (simp add: run_server_def Let_def parent_reply_child)

text \<open>The server is started with exactly the words the client means.\<close>

lemma ssh_to_runs:
  assumes "family = None \<or> family = ssh_flag pref"
    and "programs (tilde_expand home server_path) = Some run"
  shows "ssh_to noise home programs (ssh_argv target ssh_port family server_path server_log verbose) stdin =
    (case run (tl (server_words home server_path server_log verbose)) stdin of
       (success, output) \<Rightarrow> Inr (success, concat (map (\<lambda>l. l @ [newline]) noise) @ output))"
proof -
  have "CHR ''-'' \<notin> set (show_nat n)" for n by (rule show_nat_no_sep) simp
  then have digits: "show_nat n \<noteq> ''--''" "show_nat n \<noteq> ''-p''" for n
    by (metis list.set_intros(1))+
  have "ssh_remote_words (ssh_argv target ssh_port family server_path server_log verbose) =
      remote_argv server_path server_log verbose"
    using assms(1) by (cases pref) (auto simp: ssh_argv_def digits split: option.split)
  then show ?thesis
    using assms(2) by (simp add: ssh_to_def remote_words server_words_def Let_def)
qed

text \<open>A server that cannot listen reports nothing, and the client ends with an error.\<close>

lemma dead_child_output:
  assumes "clap args = Some cli" and "server_main env_tmout cfg cli = RunServer timeout own_pref"
    and "\<And>reply x. run_server host cli timeout own_pref stdin \<noteq> Returns (Inr (Inr reply, x))"
  shows "etrs_program clap completions env_tmout cfg host args stdin = (False, [])"
  using assms(3) by (auto simp: etrs_program_def assms(1,2) split: outcome.split sum.split)

text \<open>A line of the login shell that looks like the reply is taken for it.\<close>

lemma login_shell_reply_believed:
  assumes "fake \<noteq> []"
  shows "parse_reply (server_reply other fake @ server_reply port cert) = Returns (Inr (other, fake))"
proof -
  let ?line = "\<lambda>p c. ''PORT '' @ show_nat (unat (p :: u16)) @ '' CERT '' @ hex_encode c"
  have "newline \<notin> set (?line p c) \<and> carriage_return \<notin> set (?line p c)" for p c
    by (auto dest!: set_show_nat set_hex_encode)
  then have "str_lines (concat (map (\<lambda>l. l @ [newline]) [?line other fake, ?line port cert])) =
      [?line other fake, ?line port cert]"
    by (intro str_lines_concat) (metis empty_iff empty_set set_ConsD)
  then show ?thesis
    using parse_reply_line_server_reply[OF assms, of other] by (simp add: parse_reply_def server_reply_def)
qed

section \<open>The credentials of the client\<close>

text \<open>\<open>generate_session_id\<close> and \<open>generate_passkey\<close>, given what the random generator yields: its bytes, and its
  samples of the alphanumeric characters.\<close>

definition generate_session_id :: "(nat \<Rightarrow> u8) \<Rightarrow> bytes" where
  "generate_session_id random = map random [0..<16]"

definition generate_passkey :: "(nat \<Rightarrow> char) \<Rightarrow> string" where
  "generate_passkey sample = map sample [0..<32]"

text \<open>They are what the bootstrap can carry.\<close>

lemma generated_credentials:
  assumes "\<And>i. is_ascii_alphanumeric (sample i)"
  shows "length (generate_session_id random) = 16" and "length (generate_passkey sample) = 32"
    and "CHR ''/'' \<notin> set (generate_passkey sample)" and "\<not> has_line_breaker (generate_passkey sample)"
proof -
  have "sample i \<noteq> c" if "\<not> is_ascii_alphanumeric c" for i c using assms[of i] that by auto
  moreover have "\<not> is_ascii_alphanumeric (CHR ''/'')" "\<not> is_ascii_alphanumeric newline"
    "\<not> is_ascii_alphanumeric carriage_return" "\<not> is_ascii_alphanumeric nul"
    by (simp_all add: is_ascii_alphanumeric_def)
  ultimately show "CHR ''/'' \<notin> set (generate_passkey sample)" "\<not> has_line_breaker (generate_passkey sample)"
    by (auto simp: generate_passkey_def has_line_breaker_def) metis+
qed (simp_all add: generate_session_id_def generate_passkey_def)

section \<open>The record of a login\<close>

text \<open>\<open>CString::new(remote_addr).unwrap_or_default()\<close>, and the two calls of libutempter.\<close>

definition login_host :: "string \<Rightarrow> bytes" where
  "login_host remote_addr = (if 0 \<in> set (as_bytes remote_addr) then [] else as_bytes remote_addr)"

datatype utempter_call = AddRecord int bytes | RemoveAddedRecord

definition record_login :: "int \<Rightarrow> string \<Rightarrow> utempter_call" where
  "record_login master_fd remote_addr = AddRecord master_fd (login_host remote_addr)"

definition record_logout :: "int \<Rightarrow> utempter_call" where
  "record_logout master_fd = RemoveAddedRecord"

fun utempter_calls :: "int \<Rightarrow> utmp_event list \<Rightarrow> utempter_call list" where
  "utempter_calls fd [] = []"
| "utempter_calls fd (RecordLogin peer # es) = record_login fd peer # utempter_calls fd es"
| "utempter_calls fd (RecordLogout # es) = record_logout fd # utempter_calls fd es"

lemma login_host_text: "nul \<notin> set addr \<Longrightarrow> login_host addr = as_bytes addr"
proof -
  assume a: "nul \<notin> set addr"
  have "0 \<notin> set (as_bytes addr)"
  proof
    assume "0 \<in> set (as_bytes addr)"
    then obtain c where c: "c \<in> set addr" "(word_of_nat (of_char c) :: u8) = 0" by (auto simp: as_bytes_def)
    then have "as_bytes [c] = as_bytes [nul]" by (simp add: as_bytes_def)
    then show False using a c(1) by simp
  qed
  then show ?thesis by (simp add: login_host_def)
qed

section \<open>Properties\<close>

text \<open>C11 (round trip): the bootstrap connects the two programs.  The \<open>ssh\<close> hands the client's command line to a
  login shell that finds this server under its first word, and the server's clap reads options \<open>cli\<close> from
  the others, which make \<open>main\<close> run the server; the server can listen and has a certificate.  Then the client
  learns exactly the port and the certificate of the child process, and that process serves exactly the
  session of the client, with its id, passkey, terminal, environment, command and X11 request.  The
  inputs are those the client accepts, with a session id of 16 bytes, no slash or line break in the
  passkey, no slash and no white space at the end of the terminal type, and environment entries that are
  not empty and do not begin with \<open>ETRCMD:\<close>, \<open>ETRX11:\<close> or \<open>ETRPREFER:\<close>, which the client does not check
  (\<open>slash_in_term_cut\<close>, \<open>env_entry_becomes_command\<close>); the family flag is that of a preference; and what the login
  shell prints first are lines without carriage returns of which none begins with \<open>PORT\<close> and a space, since
  such a line is taken for the reply (\<open>login_shell_reply_believed\<close>).\<close>

theorem bootstrap_connects:
  assumes "validate_bootstrap_inputs target tname env cmd = Inr ()"
    and "length sid = 16"
    and "CHR ''/'' \<notin> set pk" and "\<not> has_line_breaker pk"
    and "CHR ''/'' \<notin> set tname" and "trim_end (''/'' @ tname) = ''/'' @ tname"
    and "list_all env_line env"
    and "child_bind_addr (parse_addr host) (sl_bind cli) own_pref (sl_port cli) = Inr addr" and "listen host addr = Inr port"
    and "cert_of host \<noteq> []"
    and "\<forall>l \<in> set noise. newline \<notin> set l \<and> carriage_return \<notin> set l \<and> \<not> starts_with ''PORT '' (trim l)"
    and "family = None \<or> family = ssh_flag pref"
    and "programs (tilde_expand home server_path) = Some (etrs_program clap completions env_tmout cfg host)"
    and "clap (tl (server_words home server_path server_log verbose)) = Some cli"
    and "server_main env_tmout cfg cli = RunServer timeout own_pref"
  shows "bootstrap_ssh (ssh_to noise home programs) target ssh_port sid pk tname server_path
      server_log env cmd want_x family pref verbose = Returns (Inr (port, cert_of host))
    \<and> (\<exists>reply p. run_server host cli timeout own_pref (bootstrap_stdin sid pk tname env want_x pref cmd) =
          Returns (Inr (reply, Inr (port, p)))
        \<and> ss_id p = sid \<and> ss_passkey p = pk \<and> ss_term p = tname \<and> ss_timeout p = timeout \<and> ss_env p = env
        \<and> ss_command p = cmd \<and> ss_x11 p = want_x \<and> ss_pref p = pref_or pref own_pref)"
proof -
  obtain p where p: "run_server host cli timeout own_pref (bootstrap_stdin sid pk tname env want_x pref cmd) =
      Returns (Inr (Inr (server_reply port (cert_of host)), Inr (port, p)))"
    "ss_id p = sid" "ss_passkey p = pk" "ss_term p = tname" "ss_timeout p = timeout" "ss_env p = env"
    "ss_command p = cmd" "ss_x11 p = want_x" "ss_pref p = pref_or pref own_pref"
    using run_server_reads[OF bootstrap_round_trip[OF assms(1-7), of want_x pref] assms(8,9), of timeout]
    by (auto simp: effective_pref_def)
  then show ?thesis
    using assms(1) reply_round_trip[OF assms(10,11)]
    by (simp add: bootstrap_ssh_def ssh_to_runs[where run = "etrs_program clap completions env_tmout cfg host" and programs = programs
          and pref = pref, OF assms(12,13)]
        etrs_program_def assms(14,15))
qed

text \<open>A dual-stack server on a random port behind a shell that greets.\<close>

definition sample_host :: server_host where
  "sample_host = \<lparr>parse_addr = (\<lambda>s. if s = ''[::]:0'' then Some (SocketAddr (V6 (replicate 8 0)) 0) else None),
     listen = (\<lambda>_. Inr 4433), cert_of = [1, 2], default_log = ''/var/etrs.log'', null_opens = True, log_opens = (\<lambda>_. False)\<rparr>"

definition sample_server_cli :: ServerCli where
  "sample_server_cli = \<lparr>sl_port = 0, sl_bind = None, sl_verbose = 0, sl_prefer_ipv4 = False, sl_prefer_ipv6 = False,
     sl_log_path = None, sl_reconnect_timeout = None, sl_completions = False\<rparr>"

text \<open>The remote host: the server is in the home directory, and its clap knows one flag.\<close>

definition sample_clap :: "string list \<Rightarrow> ServerCli option" where
  "sample_clap args = (if args = [] then Some sample_server_cli
     else if args = [''-v''] then Some (sample_server_cli\<lparr>sl_verbose := 1\<rparr>) else None)"

definition sample_programs :: "server_host \<Rightarrow> string \<Rightarrow> (string list \<Rightarrow> string \<Rightarrow> bool \<times> string) option" where
  "sample_programs host path =
     (if path = ''/home/u/etrs'' then Some (etrs_program sample_clap [] None
        \<lparr>sc_reconnect_timeout = None, sc_address_family = None\<rparr> host) else None)"

lemma sample_server:
  "server_main None \<lparr>sc_reconnect_timeout = None, sc_address_family = None\<rparr> (sample_server_cli\<lparr>sl_verbose := v\<rparr>) =
     RunServer 1800 Auto"
  "sample_programs host (tilde_expand ''/home/u'' ''~/etrs'') = Some (etrs_program sample_clap [] None
     \<lparr>sc_reconnect_timeout = None, sc_address_family = None\<rparr> host)"
  "tl (server_words ''/home/u'' ''~/etrs'' None (Suc 0)) = [''-v'']"
  by (simp_all add: server_main_def sample_server_cli_def resolve_reconnect_timeout_def server_own_pref_def
      sample_programs_def pref_or_def from_config_def server_words_def tilde_expand_def starts_with_def v_flag_def)

theorem bootstrap_connects_witness:
  "bootstrap_ssh (ssh_to [''Welcome''] ''/home/u'' (sample_programs sample_host)) ''host'' 22 (replicate 16 7) ''k3y''
     ''xterm'' ''~/etrs'' None [''LANG=C''] (Some ''ls'') True None Ipv6 1 = Returns (Inr (4433, [1, 2]))"
proof -
  have "child_bind_addr (parse_addr sample_host) (sl_bind (sample_server_cli\<lparr>sl_verbose := 1\<rparr>)) Auto
      (sl_port (sample_server_cli\<lparr>sl_verbose := 1\<rparr>)) = Inr (SocketAddr (V6 (replicate 8 0)) 0)"
    by (simp add: child_bind_addr_def sample_host_def sample_server_cli_def effective_bind_ip_def show_u16_def show_nat.simps[of 0]
        digit_char_def char_of_def bit_Suc_0_iff)
  moreover have "trim_end (''/'' @ ''xterm'') = ''/'' @ ''xterm''"
    by (simp add: trim_end_def trim_front_fixed strip_one_printable printable_def)
  moreover have "list_all env_line [''LANG=C'']"
    by (simp add: env_line_def parse_bootstrap_line_def strip_prefix_str_def starts_with_def)
  moreover have "\<not> starts_with ''PORT '' (trim ''Welcome'')"
    by (simp add: trim_def trim_front_fixed strip_one_printable printable_def starts_with_def)
  ultimately show ?thesis
    using bootstrap_connects[where target = "''host''" and tname = "''xterm''" and env = "[''LANG=C'']" and cmd = "Some ''ls''"
        and sid = "replicate 16 7" and pk = "''k3y''" and host = sample_host and cli = "sample_server_cli\<lparr>sl_verbose := 1\<rparr>"
        and own_pref = Auto and addr = "SocketAddr (V6 (replicate 8 0)) 0" and port = 4433 and noise = "[''Welcome'']"
        and family = None and programs = "sample_programs sample_host" and home = "''/home/u''" and server_path = "''~/etrs''"
        and server_log = None and verbose = 1 and clap = sample_clap and timeout = 1800 and want_x = True and pref = Ipv6
        and ssh_port = 22, OF _ _ _ _ _ _ _ _ _ _ _ _ sample_server(2) _ sample_server(1)]
    by (simp add: validate_bootstrap_inputs_def has_line_breaker_def starts_with_def sample_host_def sample_server(3) sample_clap_def)
qed

text \<open>C15 (error): the client reports exactly what became of the server.  The host has the server under the path, and
  its clap reads options from the words the client sends, which make \<open>main\<close> run the server.  Then inputs the
  client refuses are an \<open>InvalidInput\<close> before \<open>ssh\<close> is run; a server that ends without a child that listens, for
  whatever reason, even a panic on what it reads, is an error of the client, which does not panic; and
  otherwise the client gets the port and the certificate of that child.  The certificate is not empty, the family flag
  is that of a preference, and what the login shell prints first are lines without carriage returns of which
  none begins with \<open>PORT\<close> and a space: such a line is taken for the reply (\<open>login_shell_reply_believed\<close>) and,
  with a bad certificate, can make the client panic (\<open>hex_decode_panics\<close>).\<close>

theorem bootstrap_outcome_exact:
  assumes "cert_of host \<noteq> []"
    and "\<forall>l \<in> set noise. newline \<notin> set l \<and> carriage_return \<notin> set l \<and> \<not> starts_with ''PORT '' (trim l)"
    and "family = None \<or> family = ssh_flag pref"
    and "programs (tilde_expand home server_path) = Some (etrs_program clap completions env_tmout cfg host)"
    and "clap (tl (server_words home server_path server_log verbose)) = Some cli"
    and "server_main env_tmout cfg cli = RunServer timeout own_pref"
  shows "bootstrap_ssh (ssh_to noise home programs) target ssh_port sid pk tname server_path
      server_log env cmd want_x family pref verbose =
    Returns (case validate_bootstrap_inputs target tname env cmd of
        Inl _ \<Rightarrow> Inl InvalidInput
      | Inr _ \<Rightarrow>
          (case run_server host cli timeout own_pref (bootstrap_stdin sid pk tname env want_x pref cmd) of
             Returns (Inr (_, Inr (port, _))) \<Rightarrow> Inr (port, cert_of host)
           | _ \<Rightarrow> Inl OtherError))"
proof (cases "validate_bootstrap_inputs target tname env cmd")
  case (Inr u)
  let ?stdin = "bootstrap_stdin sid pk tname env want_x pref cmd"
  note reply = reply_round_trip[OF assms(1,2)]
  note ssh = ssh_to_runs[where run = "etrs_program clap completions env_tmout cfg host" and programs = programs
          and pref = pref, OF assms(3,4)]
  show ?thesis
  proof (cases "read_bootstrap ?stdin")
    case Panics
    with Inr show ?thesis by (simp add: bootstrap_ssh_def ssh etrs_program_def assms(5,6) run_server_def)
  next
    case (Returns r)
    with Inr reply show ?thesis
      by (cases r) (auto simp: bootstrap_ssh_def ssh etrs_program_def assms(5,6) run_server_def Let_def parent_reply_child
        parent_reply_dead_child split: sum.splits)
  qed
qed (simp add: bootstrap_ssh_def)

text \<open>A server that cannot bind its port, a server whose child listens, and a target that is an option.\<close>

theorem bootstrap_outcome_exact_witness:
  "bootstrap_ssh (ssh_to [''Welcome''] ''/home/u'' (sample_programs (sample_host\<lparr>listen := \<lambda>_. Inl AddrNotAvailable\<rparr>)))
     ''host'' 22 (replicate 16 7) ''k3y'' ''xterm'' ''~/etrs'' None [] None False None Ipv6 1 = Returns (Inl OtherError)
   \<and> bootstrap_ssh (ssh_to [''Welcome''] ''/home/u'' (sample_programs (sample_host\<lparr>listen := \<lambda>_. Inl AddrNotAvailable\<rparr>)))
     ''-oProxyCommand=x'' 22 (replicate 16 7) ''k3y'' ''xterm'' ''~/etrs'' None [] None False None Ipv6 1 = Returns (Inl InvalidInput)"
proof -
  let ?host = "sample_host\<lparr>listen := \<lambda>_. Inl AddrNotAvailable\<rparr>"
  let ?cli = "sample_server_cli\<lparr>sl_verbose := 1\<rparr>"
  have noise: "\<forall>l \<in> set [''Welcome'']. newline \<notin> set l \<and> carriage_return \<notin> set l \<and> \<not> starts_with ''PORT '' (trim l)"
    by (simp add: trim_def trim_front_fixed strip_one_printable printable_def starts_with_def)
  have cert: "cert_of ?host \<noteq> []" by (simp add: sample_host_def)
  have clap: "sample_clap (tl (server_words ''/home/u'' ''~/etrs'' None 1)) = Some ?cli"
    by (simp add: sample_server(3) sample_clap_def)
  have dead: "run_server ?host ?cli 1800 Auto stdin \<noteq> Returns (Inr (x, Inr y))" for stdin x y
    by (auto simp: run_server_def Let_def split: outcome.splits sum.splits)
  have none: "(case run_server ?host ?cli 1800 Auto stdin of
             Returns (Inr (_, Inr (port, _))) \<Rightarrow> Inr (port, cert_of ?host) | _ \<Rightarrow> Inl OtherError) = Inl OtherError" for stdin
    using dead[of stdin] by (auto split: outcome.splits sum.splits)
  have fam: "None = None \<or> None = ssh_flag Ipv6" by simp
  note run = bootstrap_outcome_exact[where host = ?host and noise = "[''Welcome'']" and family = None and pref = Ipv6
      and programs = "sample_programs ?host" and home = "''/home/u''" and server_path = "''~/etrs''" and clap = sample_clap
      and server_log = None and verbose = 1 and cli = ?cli, OF cert noise fam sample_server(2) clap sample_server(1)]
  show ?thesis
    unfolding run none by (simp add: validate_bootstrap_inputs_def has_line_breaker_def starts_with_def)
qed

end
