(* ===== verification/Client_Resize.thy ===== *)
theory Client_Resize
  imports Client_Conn Server_Conn
begin

text \<open>
  The size of the terminal, from the client's window to the server's PTY: the resize task and the control
  sender of \<open>run_session\<close> in \<open>src/bin/etr.rs\<close>, and the control reader of \<open>src/bin/etrs.rs\<close>.
\<close>

section \<open>The resize task\<close>

text \<open>\<open>resize_tx\<close> has four places; \<open>try_send\<close> drops what does not fit.\<close>

definition RESIZE_CHANNEL :: nat where "RESIZE_CHANNEL = 4"

text \<open>Unix: on SIGWINCH, the size at that moment, if there is a terminal.\<close>

definition sigwinch :: "(u16 \<times> u16) option \<Rightarrow> (u16 \<times> u16) list \<Rightarrow> (u16 \<times> u16) list" where
  "sigwinch now q = (case now of None \<Rightarrow> q | Some sz \<Rightarrow> try_send RESIZE_CHANNEL sz q)"

text \<open>Windows: the size every 250 milliseconds, compared with the last one seen.\<close>

definition poll_size ::
    "(u16 \<times> u16) option \<Rightarrow> (u16 \<times> u16) option \<times> (u16 \<times> u16) list \<Rightarrow> (u16 \<times> u16) option \<times> (u16 \<times> u16) list" where
  "poll_size now s =
     (case (now, s) of
        (Some sz, (lst, q)) \<Rightarrow> if Some sz \<noteq> lst then (Some sz, try_send RESIZE_CHANNEL sz q) else (lst, q)
      | (None, _) \<Rightarrow> s)"

section \<open>From the window to the PTY\<close>

text \<open>\<open>sz_started\<close>: the control sender has sent the initial size; \<open>sz_listens\<close>: the handler of SIGWINCH is
  registered; \<open>sz_signalled\<close>: a signal has arrived and the task has not run; \<open>sz_wire\<close>: messages written to
  the control stream and not yet read.\<close>

record sizing =
  sz_terminal :: "(u16 \<times> u16) option"
  sz_started :: bool
  sz_listens :: bool
  sz_signalled :: bool
  sz_queue :: "(u16 \<times> u16) list"
  sz_wire :: "Envelope list"
  sz_server :: server

definition new_sizing :: "(u16 \<times> u16) option \<Rightarrow> server \<Rightarrow> sizing" where
  "new_sizing term sv = \<lparr>sz_terminal = term, sz_started = False, sz_listens = False, sz_signalled = False,
     sz_queue = [], sz_wire = [], sz_server = sv\<rparr>"

datatype sizing_event = UserResizes "u16 \<times> u16" | Listen | SendInitial | Sigwinch | SendResize | ReadResize

fun sizing_step :: "sizing \<Rightarrow> sizing_event \<Rightarrow> sizing option" where
  "sizing_step z (UserResizes sz) =
     Some (z\<lparr>sz_terminal := Some sz, sz_signalled := (sz_signalled z \<or> sz_listens z)\<rparr>)"
| "sizing_step z Listen = Some (z\<lparr>sz_listens := True\<rparr>)"
| "sizing_step z SendInitial =
     (if sz_started z then None
      else Some (z\<lparr>sz_started := True, sz_wire := sz_wire z @ ctrl_messages (sz_terminal z) (\<lambda>_. new_session [] []) 0 []\<rparr>))"
| "sizing_step z Sigwinch =
     (if sz_signalled z then Some (z\<lparr>sz_signalled := False, sz_queue := sigwinch (sz_terminal z) (sz_queue z)\<rparr>) else None)"
| "sizing_step z SendResize =
     (case sz_queue z of
        sz # q \<Rightarrow>
          (if sz_started z
           then Some (z\<lparr>sz_queue := q, sz_wire := sz_wire z @ ctrl_messages None (\<lambda>_. new_session [] []) 0 [Resized sz]\<rparr>)
           else None)
      | [] \<Rightarrow> None)"
| "sizing_step z ReadResize =
     (case sz_wire z of
        [] \<Rightarrow> None
      | env # w \<Rightarrow> Some (z\<lparr>sz_wire := w, sz_server := snd (ctrl_reader_step (Inr (Some env)) (sz_server z))\<rparr>))"

text \<open>The runs considered: there is room for every resize, and the window does not change between the initial
  size and the registration of the handler.\<close>

fun sizing_calm :: "sizing \<Rightarrow> sizing_event \<Rightarrow> bool" where
  "sizing_calm z (UserResizes sz) \<longleftrightarrow> sz_listens z \<or> \<not> sz_started z"
| "sizing_calm z Sigwinch \<longleftrightarrow> length (sz_queue z) < RESIZE_CHANNEL"
| "sizing_calm z _ \<longleftrightarrow> True"

section \<open>The invariant\<close>

text \<open>The size the PTY has once everything under way has been read: sizes in the order of the messages.\<close>

definition pty_size :: "u16 \<times> u16 \<Rightarrow> u16 \<times> u16" where
  "pty_size sz = (snd sz, fst sz)"

lemma resize_round_trip:
  "snd (ctrl_reader_step (Inr (Some (resize_env sz))) sv) = sv\<lparr>sv_size := pty_size sz\<rparr>"
proof -
  have "ucast (ucast x :: u32) = x" for x :: u16 by (rule bit_word_eqI) (simp add: bit_simps)
  then show ?thesis by (simp add: ctrl_reader_step_def resize_env_def envelope_of_def pty_size_def)
qed

text \<open>What is queued ends with the present size; once nothing is queued, what is on the wire does.\<close>

definition sizing_ok :: "sizing \<Rightarrow> bool" where
  "sizing_ok z \<longleftrightarrow>
     (\<not> sz_listens z \<longrightarrow> sz_queue z = [] \<and> \<not> sz_signalled z)
     \<and> (sz_signalled z \<or> sz_queue z \<noteq> [] \<longrightarrow> sz_terminal z \<noteq> None)
     \<and> (\<not> sz_signalled z \<and> sz_queue z \<noteq> [] \<longrightarrow> sz_terminal z = Some (last (sz_queue z)))
     \<and> (\<exists>ws. sz_wire z = map resize_env ws \<and>
          (\<forall>sz. sz_started z \<and> \<not> sz_signalled z \<and> sz_queue z = [] \<and> sz_terminal z = Some sz \<longrightarrow>
             last (sv_size (sz_server z) # map pty_size ws) = pty_size sz))"

lemma sizing_okI:
  assumes "\<not> sz_listens z \<Longrightarrow> sz_queue z = [] \<and> \<not> sz_signalled z"
    and "sz_signalled z \<or> sz_queue z \<noteq> [] \<Longrightarrow> sz_terminal z \<noteq> None"
    and "\<not> sz_signalled z \<Longrightarrow> sz_queue z \<noteq> [] \<Longrightarrow> sz_terminal z = Some (last (sz_queue z))"
    and "sz_wire z = map resize_env ws"
    and "\<And>sz. sz_started z \<Longrightarrow> \<not> sz_signalled z \<Longrightarrow> sz_queue z = [] \<Longrightarrow> sz_terminal z = Some sz \<Longrightarrow>
      last (sv_size (sz_server z) # map pty_size ws) = pty_size sz"
  shows "sizing_ok z"
  unfolding sizing_ok_def using assms by blast

lemma sizing_ok_new: "sizing_ok (new_sizing term sv)"
  by (simp add: sizing_ok_def new_sizing_def)

lemma sizing_ok_step:
  assumes ok: "sizing_ok z" and calm: "sizing_calm z e" and step: "sizing_step z e = Some z'"
  shows "sizing_ok z'"
proof -
  obtain ws where ws: "sz_wire z = map resize_env ws"
    and lst: "\<And>sz. sz_started z \<Longrightarrow> \<not> sz_signalled z \<Longrightarrow> sz_queue z = [] \<Longrightarrow> sz_terminal z = Some sz \<Longrightarrow>
      last (sv_size (sz_server z) # map pty_size ws) = pty_size sz"
    using ok unfolding sizing_ok_def by blast
  have quiet: "\<not> sz_listens z \<Longrightarrow> sz_queue z = [] \<and> \<not> sz_signalled z"
    and known: "sz_signalled z \<or> sz_queue z \<noteq> [] \<Longrightarrow> sz_terminal z \<noteq> None"
    and latest: "\<not> sz_signalled z \<Longrightarrow> sz_queue z \<noteq> [] \<Longrightarrow> sz_terminal z = Some (last (sz_queue z))"
    using ok unfolding sizing_ok_def by blast+
  show ?thesis
  proof (cases e)
    case (UserResizes sz)
    then have "z' = z\<lparr>sz_terminal := Some sz, sz_signalled := (sz_signalled z \<or> sz_listens z)\<rparr>"
      "sz_listens z \<or> \<not> sz_started z" using calm step by simp_all
    then show ?thesis by (intro sizing_okI[of _ ws]) (use ws quiet in auto)
  next
    case Listen
    then show ?thesis by (intro sizing_okI[of _ ws]) (use step ws lst known latest in auto)
  next
    case SendInitial
    show ?thesis
    proof (cases "sz_terminal z")
      case None
      then have "z' = z\<lparr>sz_started := True, sz_wire := map resize_env ws\<rparr>"
        using SendInitial step ws by (auto split: if_splits)
      then show ?thesis by (intro sizing_okI[of _ ws]) (use None quiet known latest in auto)
    next
      case (Some sz)
      then have "z' = z\<lparr>sz_started := True, sz_wire := map resize_env (ws @ [sz])\<rparr>"
        using SendInitial step ws by (auto split: if_splits)
      then show ?thesis by (intro sizing_okI[of _ "ws @ [sz]"]) (use Some quiet latest in auto)
    qed
  next
    case Sigwinch
    then obtain sz where "sz_terminal z = Some sz" "z' = z\<lparr>sz_signalled := False, sz_queue := sz_queue z @ [sz]\<rparr>"
      using calm step known by (auto simp: sigwinch_def try_send_def split: if_splits)
    moreover have "sz_listens z" using Sigwinch step quiet by (auto split: if_splits)
    ultimately show ?thesis by (intro sizing_okI[of _ ws]) (use ws in auto)
  next
    case SendResize
    then obtain sz q where "sz_queue z = sz # q" "z' = z\<lparr>sz_queue := q, sz_wire := map resize_env (ws @ [sz])\<rparr>"
      using step ws by (auto split: list.splits if_splits)
    then show ?thesis by (intro sizing_okI[of _ "ws @ [sz]"]) (use quiet known latest in auto)
  next
    case ReadResize
    then obtain w ws' where "ws = w # ws'"
      "z' = z\<lparr>sz_wire := map resize_env ws', sz_server := (sz_server z)\<lparr>sv_size := pty_size w\<rparr>\<rparr>"
      using step ws by (cases ws) (auto simp: resize_round_trip)
    then show ?thesis by (intro sizing_okI[of _ ws']) (use quiet known latest lst in auto)
  qed
qed

interpretation sizing: step_invariant sizing_step sizing_calm sizing_ok
  by unfold_locales (rule sizing_ok_step)

section \<open>Properties\<close>

text \<open>C27 (invariant): the PTY follows the window.  However resizes, signals, the two tasks of the client and the
  reader of the server interleave, once no signal is pending and nothing is queued or on the wire, the
  size of the PTY is the size of the terminal; provided the queue of four was never full at a signal, and the
  terminal was not resized between the control sender's reading of the initial size and the other task's
  registration of the signal.  Where one of the two fails the PTY can keep an older size
  (\<open>resize_overflow_stale\<close>, \<open>resize_before_listening_stale\<close>).\<close>

theorem pty_follows_window:
  assumes "run_steps sizing_step (new_sizing term sv) es = Some z"
    and "run_allowed sizing_step sizing_calm (new_sizing term sv) es"
    and "sz_started z" and "\<not> sz_signalled z" and "sz_queue z = []" and "sz_wire z = []"
    and "sz_terminal z = Some (cols, rows)"
  shows "sv_size (sz_server z) = (rows, cols)"
  using sizing.invar_run[OF sizing_ok_new assms(2,1)] assms(3-7) by (auto simp: sizing_ok_def pty_size_def)

definition sizing_run :: "sizing_event list" where
  "sizing_run = [UserResizes (100, 30), Listen, SendInitial, UserResizes (120, 40), Sigwinch, ReadResize,
     UserResizes (90, 20), SendResize, UserResizes (91, 21), Sigwinch, ReadResize, SendResize, ReadResize]"

lemmas sizing_eval = sizing_run_def new_sizing_def sigwinch_def try_send_def RESIZE_CHANNEL_def resize_round_trip pty_size_def

theorem pty_follows_window_witness:
  "\<exists>z. run_steps sizing_step (new_sizing (Some (80, 24)) (new_server [7] ''k'' True)) sizing_run = Some z
     \<and> sz_terminal z = Some (91, 21) \<and> sv_size (sz_server z) = (21, 91)"
proof -
  let ?z0 = "new_sizing (Some (80, 24)) (new_server [7] ''k'' True)"
  obtain z where z: "run_steps sizing_step ?z0 sizing_run = Some z" "sz_started z" "\<not> sz_signalled z" "sz_queue z = []"
    "sz_wire z = []" "sz_terminal z = Some (91, 21)"
    by (simp add: sizing_eval)
  have "run_allowed sizing_step sizing_calm ?z0 sizing_run" by (simp add: sizing_eval)
  from pty_follows_window[OF z(1) this z(2-6)] z show ?thesis by simp
qed

text \<open>With five resizes before the control sender writes, the last one is lost for good.\<close>

definition resize_storm :: "sizing_event list" where
  "resize_storm = [Listen, SendInitial, ReadResize, UserResizes (81, 24), Sigwinch, UserResizes (82, 24), Sigwinch,
     UserResizes (83, 24), Sigwinch, UserResizes (84, 24), Sigwinch, UserResizes (100, 50), Sigwinch,
     SendResize, SendResize, SendResize, SendResize, ReadResize, ReadResize, ReadResize, ReadResize]"

lemma resize_overflow_stale:
  "\<exists>z. run_steps sizing_step (new_sizing (Some (80, 24)) (new_server [7] ''k'' True)) resize_storm = Some z
     \<and> \<not> sz_signalled z \<and> sz_queue z = [] \<and> sz_wire z = [] \<and> sz_terminal z = Some (100, 50)
     \<and> sv_size (sz_server z) = (24, 84)"
  by (simp add: sizing_eval resize_storm_def)

text \<open>A window that changes between the initial size and the registration of the handler is not seen either.\<close>

lemma resize_before_listening_stale:
  "\<exists>z. run_steps sizing_step (new_sizing (Some (80, 24)) (new_server [7] ''k'' True))
       [SendInitial, UserResizes (100, 50), Listen, ReadResize] = Some z
     \<and> \<not> sz_signalled z \<and> sz_queue z = [] \<and> sz_wire z = [] \<and> sz_terminal z = Some (100, 50)
     \<and> sv_size (sz_server z) = (24, 80)"
  by (simp add: sizing_eval)

text \<open>Polling sends a size when it differs from the one before, as long as the queue has room.\<close>

lemma fold_poll_size:
  "length q + length sizes \<le> RESIZE_CHANNEL \<Longrightarrow>
   fold poll_size (map Some sizes) (Some sz, q) = (Some (last (sz # sizes)), q @ tl (remdups_adj (sz # sizes)))"
proof (induction sizes arbitrary: sz q)
  case (Cons s sizes)
  show ?case
  proof (cases "s = sz")
    case True
    then show ?thesis using Cons by (simp add: poll_size_def)
  next
    case False
    have "fold poll_size (map Some sizes) (Some s, q @ [s]) = (Some (last (s # sizes)), (q @ [s]) @ tl (remdups_adj (s # sizes)))"
      using Cons.prems by (intro Cons.IH) simp
    moreover have "poll_size (Some s) (Some sz, q) = (Some s, q @ [s])"
      using Cons.prems False by (simp add: poll_size_def try_send_def)
    moreover have "remdups_adj (s # sizes) = s # tl (remdups_adj (s # sizes))" by (cases sizes) (simp_all add: remdups_adj_Cons')
    ultimately show ?thesis using False by simp
  qed
qed simp

end
