(* ===== verification/Windows_Console.thy ===== *)
theory Windows_Console
  imports Etr_Prelude
begin

unbundle bit_operations_syntax

text \<open>
  The console of Windows in \<open>src/bin/etr.rs\<close>: what \<open>capture_console_originals\<close> remembers,
  \<open>enable_vt_console\<close> changes and \<open>restore_console_state\<close> puts back.  A console call on a handle that is
  not a console fails and changes nothing; \<open>raw_on\<close> and \<open>raw_off\<close> stand for what crossterm does to the
  input mode.
\<close>

section \<open>The console and the captured originals\<close>

text \<open>The modes behind the standard handles, \<open>None\<close> for a handle that is redirected, and the input codepage,
  \<open>0\<close> if it cannot be read.\<close>

record console =
  input_mode :: "u32 option"
  output_mode :: "u32 option"
  input_cp :: u32

record originals =
  console_captured :: bool
  orig_input_mode :: u32
  output_captured :: bool
  orig_output_mode :: u32
  orig_input_cp :: u32

definition new_originals :: originals where
  "new_originals = \<lparr>console_captured = False, orig_input_mode = 0, output_captured = False,
     orig_output_mode = 0, orig_input_cp = 0\<rparr>"

text \<open>Constants of the Windows API, and \<open>CP_UTF8\<close>.\<close>

definition ENABLE_VIRTUAL_TERMINAL_INPUT :: u32 where "ENABLE_VIRTUAL_TERMINAL_INPUT = 0x200"
definition ENABLE_VIRTUAL_TERMINAL_PROCESSING :: u32 where "ENABLE_VIRTUAL_TERMINAL_PROCESSING = 0x4"
definition CP_UTF8 :: u32 where "CP_UTF8 = 65001"

section \<open>Operations\<close>

definition enable_vt_console :: "console \<Rightarrow> console" where
  "enable_vt_console c =
     (let c1 = (case input_mode c of
                  None \<Rightarrow> c
                | Some mode \<Rightarrow> c\<lparr>input_mode := Some (mode OR ENABLE_VIRTUAL_TERMINAL_INPUT), input_cp := CP_UTF8\<rparr>)
      in (case output_mode c1 of
            None \<Rightarrow> c1
          | Some out_mode \<Rightarrow> c1\<lparr>output_mode := Some (out_mode OR ENABLE_VIRTUAL_TERMINAL_PROCESSING)\<rparr>))"

definition capture_console_originals :: "console \<Rightarrow> originals \<Rightarrow> originals" where
  "capture_console_originals c os =
     (if console_captured os then os
      else case input_mode c of
        None \<Rightarrow> os
      | Some mode \<Rightarrow>
          (let os1 = os\<lparr>orig_input_mode := mode\<rparr>;
               os2 = (if input_cp c \<noteq> 0 then os1\<lparr>orig_input_cp := input_cp c\<rparr> else os1);
               os3 = (case output_mode c of
                        None \<Rightarrow> os2
                      | Some out_mode \<Rightarrow> os2\<lparr>orig_output_mode := out_mode, output_captured := True\<rparr>)
           in os3\<lparr>console_captured := True\<rparr>))"

text \<open>\<open>SetConsoleMode\<close>, which fails on a handle that is not a console.\<close>

definition set_mode :: "u32 \<Rightarrow> u32 option \<Rightarrow> u32 option" where
  "set_mode m h = map_option (\<lambda>_. m) h"

definition restore_console_state :: "originals \<Rightarrow> console \<Rightarrow> console" where
  "restore_console_state os c =
     (if \<not> console_captured os then c
      else
        (let c1 = c\<lparr>input_mode := set_mode (orig_input_mode os) (input_mode c)\<rparr>;
             c2 = (if orig_input_cp os \<noteq> 0 then c1\<lparr>input_cp := orig_input_cp os\<rparr> else c1)
         in if output_captured os then c2\<lparr>output_mode := set_mode (orig_output_mode os) (output_mode c2)\<rparr> else c2))"

text \<open>\<open>read_stdin\<close> on Windows: the length of the buffer is given as a \<open>u32\<close>.  \<open>read_file\<close> is the result of
  \<open>ReadFile\<close> for that length.\<close>

definition read_stdin :: "(u32 \<Rightarrow> bytes io_result) \<Rightarrow> nat \<Rightarrow> bytes io_result" where
  "read_stdin read_file buf_len = read_file (word_of_nat buf_len)"

section \<open>What happens to the console in a session\<close>

text \<open>\<open>run_connection_loop\<close> captures at its start, enters raw and VT mode on every connection, and every way
  out goes through \<open>restore_terminal\<close>, which leaves raw mode and then restores.\<close>

datatype console_event = Capture | RawOn | RawOff | EnableVt | Restore

fun console_step ::
    "(u32 \<Rightarrow> u32) \<Rightarrow> (u32 \<Rightarrow> u32) \<Rightarrow> console \<times> originals \<Rightarrow> console_event \<Rightarrow> (console \<times> originals) option" where
  "console_step raw_on raw_off (c, os) Capture = Some (c, capture_console_originals c os)"
| "console_step raw_on raw_off (c, os) RawOn = Some (c\<lparr>input_mode := map_option raw_on (input_mode c)\<rparr>, os)"
| "console_step raw_on raw_off (c, os) RawOff = Some (c\<lparr>input_mode := map_option raw_off (input_mode c)\<rparr>, os)"
| "console_step raw_on raw_off (c, os) EnableVt = Some (enable_vt_console c, os)"
| "console_step raw_on raw_off (c, os) Restore = Some (restore_console_state os c, os)"

text \<open>The originals are those of \<open>c0\<close>, and no handle has become or ceased to be a console.\<close>

definition restorable :: "console \<Rightarrow> console \<times> originals \<Rightarrow> bool" where
  "restorable c0 s \<longleftrightarrow>
     (case s of (c, os) \<Rightarrow>
        console_captured os \<and> input_mode c0 = Some (orig_input_mode os) \<and> input_cp c0 = orig_input_cp os
        \<and> orig_input_cp os \<noteq> 0 \<and> output_mode c0 = (if output_captured os then Some (orig_output_mode os) else None)
        \<and> input_mode c \<noteq> None \<and> (output_mode c = None \<longleftrightarrow> output_mode c0 = None))"

lemma restorable_capture:
  assumes "input_mode c = Some m" and "input_cp c \<noteq> 0"
  shows "restorable c (c, capture_console_originals c new_originals)"
  using assms by (cases "output_mode c")
    (auto simp: restorable_def capture_console_originals_def new_originals_def Let_def)

lemma restorable_restores: "restorable c0 (c, os) \<Longrightarrow> restore_console_state os c = c0"
  by (cases c; cases c0) (auto simp: restorable_def restore_console_state_def set_mode_def Let_def split: if_splits)

lemma restorable_step:
  assumes "restorable c0 s" and "console_step raw_on raw_off s e = Some s'"
  shows "restorable c0 s'"
proof -
  obtain c os where s: "s = (c, os)" by (cases s)
  show ?thesis
    using assms unfolding s
    by (cases e) (auto simp: restorable_def capture_console_originals_def restore_console_state_def
        enable_vt_console_def set_mode_def Let_def split: option.splits)
qed

interpretation console: step_invariant "console_step raw_on raw_off" "\<lambda>_ _. True" "restorable c0" for raw_on raw_off c0
  by unfold_locales (rule restorable_step)

lemma console_step_total: "\<exists>s'. console_step raw_on raw_off s e = Some s'"
  by (cases s; cases e) simp_all

section \<open>Properties\<close>

text \<open>C26 (safety): a local console that stdin is on is given back as it was.  When stdin is a console, so that its
  mode can be read, and the input codepage can be read, then after the capture at the start of the client,
  and whatever sequence of raw mode, VT mode, further captures and restores a session with its
  reconnects goes through, restoring gives exactly the modes and the codepage from before; for any effect of
  crossterm on the input mode, and whether or not stdout is a console.  With stdin redirected nothing is
  captured, and an output console is not given back as it was (\<open>redirected_stdin_leaves_vt_output\<close>).\<close>

theorem console_given_back:
  assumes "input_mode c0 = Some m" and "input_cp c0 \<noteq> 0"
    and "run_steps (console_step raw_on raw_off) (c0, new_originals) (Capture # es @ [Restore]) = Some (c, os)"
  shows "c = c0"
proof -
  obtain s where s: "run_steps (console_step raw_on raw_off) (c0, capture_console_originals c0 new_originals) es = Some s"
    "console_step raw_on raw_off s Restore = Some (c, os)"
    using assms(3) by (auto simp: run_steps_append split: Option.bind_splits)
  have "restorable c0 s" by (rule console.invar_run[OF restorable_capture[OF assms(1,2)] run_allowed_True s(1)])
  then show ?thesis using s(2) restorable_restores by (cases s) auto
qed

text \<open>Two connections; crossterm clears the line, echo and processed bits and sets them again.\<close>

theorem console_given_back_witness:
  "\<exists>c1 os1. run_steps (console_step (\<lambda>m. m AND NOT 7) (\<lambda>m. m OR 7))
       (\<lparr>input_mode = Some 0x1F7, output_mode = Some 3, input_cp = 850\<rparr>, new_originals)
       [Capture, RawOn, EnableVt, RawOn, EnableVt, RawOff] = Some (c1, os1)
     \<and> input_mode c1 = Some 0x3F7 \<and> input_cp c1 = CP_UTF8
     \<and> restore_console_state os1 c1 = \<lparr>input_mode = Some 0x1F7, output_mode = Some 3, input_cp = 850\<rparr>"
proof -
  let ?c0 = "\<lparr>input_mode = Some 0x1F7, output_mode = Some 3, input_cp = 850\<rparr>"
  let ?step = "console_step (\<lambda>m. m AND NOT 7) (\<lambda>m. m OR 7)"
  obtain c1 os1 where r: "run_steps ?step (?c0, new_originals) [Capture, RawOn, EnableVt, RawOn, EnableVt, RawOff] = Some (c1, os1)"
    "input_mode c1 = Some 0x3F7" "input_cp c1 = CP_UTF8"
    by (simp add: enable_vt_console_def capture_console_originals_def new_originals_def
        ENABLE_VIRTUAL_TERMINAL_INPUT_def Let_def)
  then have "run_steps ?step (?c0, new_originals) (Capture # [RawOn, EnableVt, RawOn, EnableVt, RawOff] @ [Restore])
      = Some (restore_console_state os1 c1, os1)"
    by (simp split: Option.bind_splits)
  from console_given_back[OF _ _ this] r show ?thesis by auto
qed

text \<open>With stdin redirected nothing is captured, yet VT processing is switched on for the output, and stays on.\<close>

lemma redirected_stdin_leaves_vt_output:
  "run_steps (console_step raw_on raw_off) (\<lparr>input_mode = None, output_mode = Some 3, input_cp = 850\<rparr>, new_originals)
     [Capture, RawOn, EnableVt, RawOff, Restore] =
   Some (\<lparr>input_mode = None, output_mode = Some 7, input_cp = 850\<rparr>, new_originals)"
  by (simp add: enable_vt_console_def capture_console_originals_def restore_console_state_def new_originals_def
      ENABLE_VIRTUAL_TERMINAL_PROCESSING_def)

end
