(* ===== verification/Forward_Tunnel.thy ===== *)
theory Forward_Tunnel
  imports Tcp_Forward
begin

text \<open>
  A forwarded TCP connection from end to end: the pipe of the client (\<open>run_tcp_connection_quic\<close> of
  \<open>src/bin/etr.rs\<close>) and the pipe of the server (\<open>pipe_tcp_quic\<close> of \<open>src/bin/etrs.rs\<close>) joined by their
  QUIC stream, as a transition system, and how a \<open>-L\<close> and a \<open>-R\<close> connection set it up.  The two ends
  are symmetric, so every fact is stated for a side and its other side.
\<close>

section \<open>The two ends\<close>

datatype side = ClientEnd | ServerEnd

fun other :: "side \<Rightarrow> side" where
  "other ClientEnd = ServerEnd"
| "other ServerEnd = ClientEnd"

text \<open>Statements about every side can be evaluated.\<close>

instantiation side :: enum
begin

definition "enum_class.enum = [ClientEnd, ServerEnd]"
definition "enum_class.enum_all P \<longleftrightarrow> P ClientEnd \<and> P ServerEnd"
definition "enum_class.enum_ex P \<longleftrightarrow> P ClientEnd \<or> P ServerEnd"

instance
proof
  have all: "x = ClientEnd \<or> x = ServerEnd" for x :: side by (cases x) simp_all
  then show "(UNIV :: side set) = set enum_class.enum" by (auto simp: enum_side_def)
  show "distinct (enum_class.enum :: side list)" by (simp add: enum_side_def)
  show "enum_class.enum_all P \<longleftrightarrow> Ball UNIV P" for P :: "side \<Rightarrow> bool"
    by (metis all ball_UNIV enum_all_side_def)
  show "enum_class.enum_ex P \<longleftrightarrow> Bex UNIV P" for P :: "side \<Rightarrow> bool"
    by (metis all bex_UNIV enum_ex_side_def)
qed

end

text \<open>What the peers of the two sockets have written, which of them has shut down its writing half, which
  socket has failed, and whether the QUIC connection is lost.  The bytes that are on the stream are the
  \<open>quic_in\<close> of the end that has to read them.\<close>

record tunnel =
  ends :: "side \<Rightarrow> pipe"
  written :: "side \<Rightarrow> bytes"
  shut :: "side \<Rightarrow> bool"
  broken :: "side \<Rightarrow> bool"
  lost_conn :: bool

definition new_tunnel :: "(side \<Rightarrow> bytes) \<Rightarrow> tunnel" where
  "new_tunnel early = \<lparr>ends = (\<lambda>s. new_pipe [] (early s)), written = (\<lambda>_. []), shut = (\<lambda>_. False),
     broken = (\<lambda>_. False), lost_conn = False\<rparr>"

datatype tunnel_event =
    Pipe side pipe_event | PeerWrites side bytes | PeerShuts side | PeerFails side | LoseConn

text \<open>A sending half that was finished, or dropped with its task, ends the stream of the other side; a
  receiving half that was dropped stops the writes of the other side.\<close>

definition send_ended :: "tunnel \<Rightarrow> side \<Rightarrow> bool" where
  "send_ended t s \<longleftrightarrow> t1_done (ends t s) \<or> aborted (ends t s)"

definition recv_ended :: "tunnel \<Rightarrow> side \<Rightarrow> bool" where
  "recv_ended t s \<longleftrightarrow> t2_done (ends t s) \<or> aborted (ends t s)"

text \<open>Which step of a copy task the socket and the stream allow: a read waits for bytes, the end or an error,
  and a read error is a \<open>FailOut 0\<close> or \<open>FailIn 0\<close>.\<close>

fun pipe_can :: "tunnel \<Rightarrow> side \<Rightarrow> pipe_event \<Rightarrow> bool" where
  "pipe_can t s (CopyOut n) \<longleftrightarrow> local_in (ends t s) \<noteq> [] \<or> shut t s \<or> broken t s"
| "pipe_can t s (FailOut n) \<longleftrightarrow> recv_ended t (other s) \<or> broken t s \<or> lost_conn t"
| "pipe_can t s (CopyIn n) \<longleftrightarrow> quic_in (ends t s) \<noteq> [] \<or> send_ended t (other s) \<or> lost_conn t"
| "pipe_can t s (FailIn n) \<longleftrightarrow> broken t s \<or> lost_conn t"
| "pipe_can t s Select \<longleftrightarrow> True"

definition end_step :: "side \<Rightarrow> pipe \<Rightarrow> pipe_event \<Rightarrow> pipe" where
  "end_step s = (case s of ClientEnd \<Rightarrow> run_tcp_connection_quic | ServerEnd \<Rightarrow> pipe_tcp_quic)"

text \<open>What one end writes is there to read for the other.\<close>

definition hand_over :: "side \<Rightarrow> pipe \<Rightarrow> pipe \<Rightarrow> (side \<Rightarrow> pipe) \<Rightarrow> side \<Rightarrow> pipe" where
  "hand_over s p p' ps =
     (ps(s := p'))(other s := (ps (other s))\<lparr>quic_in := quic_in (ps (other s)) @ drop (length (to_quic p)) (to_quic p')\<rparr>)"

fun tunnel_step :: "tunnel \<Rightarrow> tunnel_event \<Rightarrow> tunnel option" where
  "tunnel_step t (Pipe s e) =
     (if pipe_can t s e
      then Some (t\<lparr>ends := hand_over s (ends t s) (end_step s (ends t s) e) (ends t)\<rparr>)
      else None)"
| "tunnel_step t (PeerWrites s bs) =
     (if shut t s \<or> broken t s then None
      else Some (t\<lparr>ends := (ends t)(s := (ends t s)\<lparr>local_in := local_in (ends t s) @ bs\<rparr>),
                   written := (written t)(s := written t s @ bs)\<rparr>))"
| "tunnel_step t (PeerShuts s) = Some (t\<lparr>shut := (shut t)(s := True)\<rparr>)"
| "tunnel_step t (PeerFails s) = Some (t\<lparr>broken := (broken t)(s := True)\<rparr>)"
| "tunnel_step t LoseConn = Some (t\<lparr>lost_conn := True\<rparr>)"

section \<open>Setting a tunnel up\<close>

text \<open>A \<open>ConnectTcp\<close> of the client's reverse acceptor: connect or finish the stream.\<close>

definition serve_reverse_tcp ::
    "(string \<Rightarrow> error_kind + SocketAddr list) \<Rightarrow> (SocketAddr \<Rightarrow> error_kind + 'conn) \<Rightarrow> AddrPref
     \<Rightarrow> reverse_action \<Rightarrow> 'conn option" where
  "serve_reverse_tcp lookup_host connect addr_pref act =
     (case act of
        ConnectTcp addr \<Rightarrow>
          (case connect_tcp_preferred lookup_host connect addr addr_pref of Inr c \<Rightarrow> Some c | Inl _ \<Rightarrow> None)
      | _ \<Rightarrow> None)"

text \<open>A connection to a \<open>-L\<close> listener of the client, and one to a \<open>-R\<close> listener of the server: the header on
  a fresh stream, what the other program makes of it, and the two pipes with what is left on the stream.
  \<open>None\<close>: there is no tunnel.\<close>

definition open_forward ::
    "(Envelope \<Rightarrow> bytes) \<Rightarrow> (bytes \<Rightarrow> Envelope option) \<Rightarrow> bool \<Rightarrow> (string \<Rightarrow> error_kind + SocketAddr list)
     \<Rightarrow> (SocketAddr \<Rightarrow> error_kind + 'conn) \<Rightarrow> AddrPref \<Rightarrow> ForwardSpec \<Rightarrow> ('conn \<times> tunnel) option" where
  "open_forward encode decode pty_pending lookup_host connect addr_pref spec =
     (case tcp_connection encode spec (Some \<lparr>outgoing = [], budget = None\<rparr>) of
        Some (Inr _, s) \<Rightarrow>
          (case dispatch_stream decode pty_pending \<lparr>incoming = outgoing s, ending = Lost\<rparr> of
             (ServeTcp so, r) \<Rightarrow>
               map_option (\<lambda>c. (c, new_tunnel ((\<lambda>_. [])(ServerEnd := incoming r))))
                 (serve_tcp_forward lookup_host connect addr_pref so)
           | _ \<Rightarrow> None)
      | _ \<Rightarrow> None)"

definition open_reverse ::
    "(Envelope \<Rightarrow> bytes) \<Rightarrow> (bytes \<Rightarrow> Envelope option) \<Rightarrow> ForwardSpec list \<Rightarrow> (string \<Rightarrow> error_kind + SocketAddr list)
     \<Rightarrow> (SocketAddr \<Rightarrow> error_kind + 'conn) \<Rightarrow> AddrPref \<Rightarrow> ForwardSpec \<Rightarrow> ('conn \<times> tunnel) option" where
  "open_reverse encode decode specs lookup_host connect addr_pref spec =
     (case reverse_tcp_connection encode spec (Some (Some \<lparr>outgoing = [], budget = None\<rparr>)) of
        Some (Inr _, s) \<Rightarrow>
          (let (act, r) = accept_reverse_stream decode False specs None \<lparr>incoming = outgoing s, ending = Lost\<rparr>
           in map_option (\<lambda>c. (c, new_tunnel ((\<lambda>_. [])(ClientEnd := incoming r))))
                (serve_reverse_tcp lookup_host connect addr_pref act))
      | _ \<Rightarrow> None)"

section \<open>The invariant\<close>

lemma other_other [simp]: "other (other s) = s" and other_neq [simp]: "other s \<noteq> s" "s \<noteq> other s"
  by (cases s; simp)+

lemma all_sides: "(\<forall>x. P x) \<longleftrightarrow> P s \<and> P (other s)"
  by (cases s) (metis other.simps side.exhaust)+

lemma end_step_eq [simp]: "end_step s = pipe_tcp_quic"
  by (cases s) (simp_all add: end_step_def run_tcp_connection_quic_def fun_eq_iff)

lemma hand_over_same [simp]: "hand_over s p p' ps s = p'"
  by (simp add: hand_over_def)

lemma hand_over_other [simp]: "hand_over s p p' ps (other s) =
    (ps (other s))\<lparr>quic_in := quic_in (ps (other s)) @ drop (length (to_quic p)) (to_quic p')\<rparr>"
  by (simp add: hand_over_def)

lemma no_early_bytes [simp]: "(\<lambda>_. [])(s := []) = (\<lambda>_. [])"
  by auto

text \<open>Nothing is lost, reordered or invented on the way: what the peer of one socket has written is what was
  handed on, then what is on the stream, then what is still unread.\<close>

definition flows :: "tunnel \<Rightarrow> side \<Rightarrow> bool" where
  "flows t s \<longleftrightarrow> to_quic (ends t s) @ local_in (ends t s) = written t s
     \<and> to_local (ends t (other s)) @ quic_in (ends t (other s)) = to_quic (ends t s)"

definition tunnel_ok :: "tunnel \<Rightarrow> bool" where
  "tunnel_ok t \<longleftrightarrow> (\<forall>s. flows t s)"

lemma pipe_step_grows: "prefix (to_quic p) (to_quic (pipe_tcp_quic p e))"
  by (cases e) (auto simp: Let_def)

lemma pipe_step_appends [simp]:
  "to_quic p @ drop (length (to_quic p)) (to_quic (pipe_tcp_quic p e)) = to_quic (pipe_tcp_quic p e)"
  using pipe_step_grows[of p e] by (auto simp: prefix_def)

lemma flows_pipe_self:
  assumes "flows t s" and "tunnel_step t (Pipe s e) = Some t'"
  shows "flows t' s"
  using assms pipe_step_conserves[of "ends t s" e]
  by (auto simp: flows_def split: if_splits simp flip: append_assoc)

lemma flows_pipe_other:
  assumes "flows t (other s)" and "tunnel_step t (Pipe s e) = Some t'"
  shows "flows t' (other s)"
  using assms pipe_step_conserves[of "ends t s" e]
  by (auto simp: flows_def split: if_splits)

lemma tunnel_ok_step:
  assumes "tunnel_ok t" and "tunnel_step t e = Some t'"
  shows "tunnel_ok t'"
proof (cases e)
  case (Pipe s e')
  with assms show ?thesis
    by (auto simp: tunnel_ok_def all_sides[of _ s] simp del: tunnel_step.simps
        intro: flows_pipe_self flows_pipe_other)
next
  case (PeerWrites s bs)
  with assms show ?thesis
    by (auto simp: tunnel_ok_def all_sides[of _ s] flows_def split: if_splits)
qed (use assms in \<open>auto simp: tunnel_ok_def flows_def\<close>)

lemma tunnel_ok_new [simp]: "tunnel_ok (new_tunnel (\<lambda>_. []))"
  by (simp add: tunnel_ok_def flows_def new_tunnel_def new_pipe_def)

interpretation tunnel: step_invariant tunnel_step "\<lambda>_ _. True" tunnel_ok
  by unfold_locales (rule tunnel_ok_step)

section \<open>A side whose bytes must arrive\<close>

text \<open>Neither socket has failed, the connection is up, the other peer has not shut down its writing half, and
  if this one has, nothing was written to it.\<close>

definition one_way :: "tunnel \<Rightarrow> side \<Rightarrow> bool" where
  "one_way t s \<longleftrightarrow> \<not> lost_conn t \<and> (\<forall>x. \<not> broken t x) \<and> \<not> shut t (other s)
     \<and> (shut t s \<longrightarrow> written t (other s) = [])"

text \<open>Then tasks only end in the order in which the end of the stream travels.\<close>

definition orderly :: "tunnel \<Rightarrow> side \<Rightarrow> bool" where
  "orderly t s \<longleftrightarrow> \<not> t1_done (ends t (other s))
     \<and> (t1_done (ends t s) \<longrightarrow> shut t s \<and> local_in (ends t s) = [])
     \<and> (aborted (ends t s) \<longrightarrow> t1_done (ends t s))
     \<and> (t2_done (ends t s) \<longrightarrow> t1_done (ends t s))
     \<and> (t2_done (ends t (other s)) \<longrightarrow> t1_done (ends t s) \<and> quic_in (ends t (other s)) = [])
     \<and> (aborted (ends t (other s)) \<longrightarrow> t2_done (ends t (other s)))"

lemma one_way_back: "tunnel_step t e = Some t' \<Longrightarrow> one_way t' s \<Longrightarrow> one_way t s"
  by (cases e) (auto simp: one_way_def split: if_splits)

lemma one_way_run_back: "run_steps tunnel_step t es = Some t' \<Longrightarrow> one_way t' s \<Longrightarrow> one_way t s"
  by (induction es arbitrary: t) (auto split: Option.bind_splits dest: one_way_back)

lemma pipe_event_step:
  assumes "tunnel_step t (Pipe s e) = Some t'"
  shows "pipe_can t s e" and "ends t' s = pipe_tcp_quic (ends t s) e"
    and "ends t' (other s) = (ends t (other s))
      \<lparr>quic_in := quic_in (ends t (other s)) @ drop (length (to_quic (ends t s))) (to_quic (pipe_tcp_quic (ends t s) e))\<rparr>"
    and "shut t' = shut t" and "written t' = written t" and "broken t' = broken t" and "lost_conn t' = lost_conn t"
  using assms by (auto split: if_splits)

lemma one_wayD:
  assumes "one_way t s"
  shows "\<not> lost_conn t" "\<not> broken t x" "\<not> shut t (other s)" "shut t s \<Longrightarrow> written t (other s) = []"
  using assms by (auto simp: one_way_def)

lemma orderly_self:
  assumes "tunnel_step t (Pipe s e) = Some t'" and "one_way t s" and "orderly t s"
  shows "orderly t' s"
proof -
  note st = pipe_event_step[OF assms(1)] and ow = one_wayD[OF assms(2)]
  show ?thesis
    unfolding orderly_def st(2-4) using assms(3) st(1)
    by (cases e) (simp_all add: orderly_def Let_def send_ended_def recv_ended_def ow(1-3), auto)
qed

lemma orderly_other:
  assumes "tunnel_step t (Pipe (other s) e) = Some t'" and "one_way t s" and "orderly t s" and "tunnel_ok t"
  shows "orderly t' s"
proof -
  note st = pipe_event_step[OF assms(1), unfolded other_other] and ow = one_wayD[OF assms(2)]
  have "to_quic (ends t (other s)) @ local_in (ends t (other s)) = written t (other s)"
    using assms(4) by (simp add: tunnel_ok_def flows_def)
  with ow(4) have quiet: "shut t s \<Longrightarrow> local_in (ends t (other s)) = []" by simp
  show ?thesis
    unfolding orderly_def st(2-4) using assms(3) st(1) quiet
    by (cases e) (simp_all add: orderly_def Let_def send_ended_def recv_ended_def ow(1-3), auto)
qed

lemma orderly_step:
  assumes "tunnel_step t e = Some t'" and "one_way t' s" and "orderly t s" and "tunnel_ok t"
  shows "orderly t' s"
proof -
  note ow = one_way_back[OF assms(1,2)]
  show ?thesis
  proof (cases e)
    case (Pipe x e')
    have "x = s \<or> x = other s" by (cases x; cases s) simp_all
    with Pipe assms(1,3,4) ow orderly_self orderly_other show ?thesis by metis
  next
    case (PeerWrites x bs)
    with assms(1) have t': "t' = t\<lparr>ends := (ends t)(x := (ends t x)\<lparr>local_in := local_in (ends t x) @ bs\<rparr>),
        written := (written t)(x := written t x @ bs)\<rparr>" "\<not> shut t x" by (auto split: if_splits)
    with assms(3) show ?thesis by (cases "x = s"; cases "x = other s") (auto simp: orderly_def)
  qed (use assms(1,3) in \<open>auto simp: orderly_def\<close>)
qed

definition settled_ok :: "tunnel \<Rightarrow> bool" where
  "settled_ok t \<longleftrightarrow> tunnel_ok t \<and> (\<forall>s. one_way t s \<longrightarrow> orderly t s)"

interpretation settled: step_invariant tunnel_step "\<lambda>_ _. True" settled_ok
proof
  show "settled_ok t'" if "settled_ok t" "tunnel_step t e = Some t'" for t e t'
    using that orderly_step[OF that(2)] one_way_back[OF that(2)] tunnel_ok_step[OF _ that(2)]
    by (auto simp: settled_ok_def)
qed

lemma settled_ok_new [simp]: "settled_ok (new_tunnel (\<lambda>_. []))"
  by (simp add: settled_ok_def orderly_def) (simp add: new_tunnel_def new_pipe_def)

section \<open>Progress\<close>

text \<open>What the pipes still have to do: every byte moves at most twice, every task ends and every pipe is torn
  down at most once.\<close>

definition pipe_left :: "pipe \<Rightarrow> nat" where
  "pipe_left p = 2 * length (local_in p) + length (quic_in p) + (if t1_done p then 0 else 1)
     + (if t2_done p then 0 else 1) + (if aborted p then 0 else 1)"

definition left_to_do :: "tunnel \<Rightarrow> nat" where
  "left_to_do t = pipe_left (ends t ClientEnd) + pipe_left (ends t ServerEnd)"

lemma left_to_do_side: "left_to_do t = pipe_left (ends t s) + pipe_left (ends t (other s))"
  by (cases s) (simp_all add: left_to_do_def)

text \<open>Runs of steps of the pipes that do something.\<close>

inductive pumps :: "tunnel \<Rightarrow> nat \<Rightarrow> tunnel \<Rightarrow> bool" where
  pumps_none: "pumps t 0 t"
| pumps_some: "tunnel_step t (Pipe s e) = Some t1 \<Longrightarrow> t1 \<noteq> t \<Longrightarrow> pumps t1 n t' \<Longrightarrow> pumps t (Suc n) t'"

inductive_simps pumps_0 [simp]: "pumps t 0 t'"
inductive_simps pumps_Suc: "pumps t (Suc n) t'"

definition at_rest :: "tunnel \<Rightarrow> bool" where
  "at_rest t \<longleftrightarrow> (\<forall>t'. \<not> pumps t 1 t')"

lemma at_restD: "at_rest t \<Longrightarrow> tunnel_step t (Pipe s e) = Some t' \<Longrightarrow> t' = t"
  by (auto simp: at_rest_def pumps_Suc)

lemma read_len_bounds: "src \<noteq> [] \<Longrightarrow> 0 < read_len n src \<and> read_len n src \<le> length src"
  using read_len_pos[of src n] by (simp add: read_len_def)

text \<open>A copy task that is running always has something to do: to move at least one byte, or to end.\<close>

lemma copy_out_works:
  assumes "\<not> aborted p" and "\<not> t1_done p"
  shows "pipe_left (pipe_tcp_quic p (CopyOut n))
    + (length (to_quic (pipe_tcp_quic p (CopyOut n))) - length (to_quic p)) < pipe_left p"
proof (cases "local_in p = []")
  case False
  from read_len_bounds[OF this, of n] have "2 * (length (local_in p) - read_len n (local_in p)) + read_len n (local_in p)
      < 2 * length (local_in p)" by linarith
  with False assms read_len_bounds[OF False, of n] show ?thesis by (simp add: pipe_left_def Let_def)
qed (use assms in \<open>simp add: pipe_left_def\<close>)

lemma copy_in_works:
  assumes "\<not> aborted p" and "\<not> t2_done p"
  shows "pipe_left (pipe_tcp_quic p (CopyIn n))
    + (length (to_quic (pipe_tcp_quic p (CopyIn n))) - length (to_quic p)) < pipe_left p"
  using assms read_len_bounds[of "quic_in p" n] by (cases "quic_in p = []") (simp_all add: pipe_left_def Let_def)

lemma pipe_step_left:
  "pipe_tcp_quic p e = p \<or>
   pipe_left (pipe_tcp_quic p e) + (length (to_quic (pipe_tcp_quic p e)) - length (to_quic p)) < pipe_left p"
proof (cases e)
  case (CopyOut n)
  then show ?thesis using copy_out_works[of p n] by (cases "aborted p \<or> t1_done p") auto
next
  case (CopyIn n)
  then show ?thesis using copy_in_works[of p n] by (cases "aborted p \<or> t2_done p") auto
next
  case (FailOut n)
  have "2 * (length (local_in p) - min n PIPE_BUF) + min (length (local_in p)) (min n PIPE_BUF)
      < Suc (2 * length (local_in p))" by linarith
  with FailOut show ?thesis by (simp add: pipe_left_def)
next
  case (FailIn n)
  have "length (quic_in p) - min n PIPE_BUF < Suc (length (quic_in p))" by linarith
  with FailIn show ?thesis by (simp add: pipe_left_def)
qed (simp add: pipe_left_def)

lemma tunnel_step_same:
  assumes "tunnel_step t (Pipe s e) = Some t'" and "pipe_tcp_quic (ends t s) e = ends t s"
  shows "t' = t"
  using assms by (auto simp: hand_over_def fun_upd_triv fun_upd_idem split: if_splits)

lemma tunnel_step_left:
  assumes "tunnel_step t (Pipe s e) = Some t'" and "t' \<noteq> t"
  shows "left_to_do t' < left_to_do t"
proof -
  from tunnel_step_same[OF assms(1)] assms(2) have "pipe_tcp_quic (ends t s) e \<noteq> ends t s" by blast
  with pipe_step_left[of "ends t s" e] show ?thesis
    by (simp add: left_to_do_side[of _ s] pipe_event_step(2,3)[OF assms(1)]) (simp add: pipe_left_def)
qed

lemma pumps_left: "pumps t n t' \<Longrightarrow> n + left_to_do t' \<le> left_to_do t"
proof (induction rule: pumps.induct)
  case (pumps_some t s e t1 n t')
  with tunnel_step_left[OF pumps_some.hyps(1,2)] show ?case by linarith
qed simp

lemma pumps_keep:
  "pumps t n t' \<Longrightarrow> settled_ok t \<Longrightarrow> settled_ok t' \<and> written t' = written t \<and> shut t' = shut t
     \<and> (one_way t s \<longrightarrow> one_way t' s)"
proof (induction rule: pumps.induct)
  case (pumps_some t x e t1 n t')
  have "settled_ok t1" using settled.invar_step[OF pumps_some.prems _ pumps_some.hyps(1)] by simp
  with pumps_some.IH show ?case using pipe_event_step[OF pumps_some.hyps(1)] by (auto simp: one_way_def)
qed simp

text \<open>At rest, a side whose bytes must arrive has delivered them, and the end of its stream.\<close>

lemma at_rest_pipe:
  assumes "at_rest t" and "pipe_can t s e"
  shows "pipe_tcp_quic (ends t s) e = ends t s"
proof -
  from assms(2) obtain t' where t': "tunnel_step t (Pipe s e) = Some t'" by simp
  with at_restD[OF assms(1) t'] pipe_event_step(2)[OF t'] show ?thesis by simp
qed

lemma at_rest_waits:
  assumes "at_rest t" and "\<not> aborted (ends t s)"
  shows "t1_done (ends t s) \<or> \<not> pipe_can t s (CopyOut 0)" and "t2_done (ends t s) \<or> \<not> pipe_can t s (CopyIn 0)"
proof -
  have "\<not> pipe_can t s (CopyOut 0)" if run: "\<not> t1_done (ends t s)"
  proof
    assume can: "pipe_can t s (CopyOut 0)"
    from copy_out_works[OF assms(2) run, of 0] show False unfolding at_rest_pipe[OF assms(1) can] by linarith
  qed
  then show "t1_done (ends t s) \<or> \<not> pipe_can t s (CopyOut 0)" by blast
  have "\<not> pipe_can t s (CopyIn 0)" if run: "\<not> t2_done (ends t s)"
  proof
    assume can: "pipe_can t s (CopyIn 0)"
    from copy_in_works[OF assms(2) run, of 0] show False unfolding at_rest_pipe[OF assms(1) can] by linarith
  qed
  then show "t2_done (ends t s) \<or> \<not> pipe_can t s (CopyIn 0)" by blast
qed

lemma at_rest_copied_out:
  assumes "at_rest t" and "orderly t s"
  shows "local_in (ends t s) = []" and "shut t s \<Longrightarrow> t1_done (ends t s)"
  using at_rest_waits(1)[OF assms(1), of s] assms(2) unfolding orderly_def pipe_can.simps by blast+

lemma at_rest_copied_in:
  assumes "at_rest t" and "orderly t s"
  shows "quic_in (ends t (other s)) = []" and "t1_done (ends t s) \<Longrightarrow> t2_done (ends t (other s))"
  using at_rest_waits(2)[OF assms(1), of "other s"] assms(2)
  unfolding orderly_def pipe_can.simps send_ended_def other_other by blast+

section \<open>Properties\<close>

text \<open>C12 (safety): a forwarded TCP connection is transparent.  For a TCP spec whose target accepts, a \<open>-L\<close>
  connection of the client and a \<open>-R\<close> connection of the server both end in a tunnel to that target, with no
  byte of the header left in it; and in every run of the tunnel, whatever fails and whatever is torn down,
  what each peer is given is a prefix of what the other has written, the rest being still on its way.\<close>

theorem forwarded_connection_transparent:
  assumes "length (encode (envelope_of (PStreamOpen (stream_open_of spec Tcp)))) \<le> MAX_CONTROL_MSG"
    and "decode (encode (envelope_of (PStreamOpen (stream_open_of spec Tcp)))) =
           Some (envelope_of (PStreamOpen (stream_open_of spec Tcp)))"
    and "proto spec = Tcp" and "spec \<in> set specs"
    and "connect_tcp_preferred lookup_host connect (remote_host spec @ '':'' @ show_u16 (remote_port spec)) pref = Inr c"
    and "run_steps tunnel_step t0 es = Some t" and "t0 = new_tunnel (\<lambda>_. [])"
  shows "open_forward encode decode pending lookup_host connect pref spec = Some (c, t0)
    \<and> open_reverse encode decode specs lookup_host connect pref spec = Some (c, t0)
    \<and> (\<forall>s. written t s = to_local (ends t (other s)) @ quic_in (ends t (other s)) @ local_in (ends t s))"
proof -
  let ?so = "stream_open_of spec Tcp"
  have w: "write_stream_header encode ?so \<lparr>outgoing = [], budget = None\<rparr> =
      (Inr (), \<lparr>outgoing = TAG_FORWARD # msg_bytes encode (envelope_of (PStreamOpen ?so)), budget = None\<rparr>)"
    using write_stream_header_unlimited[where encode = encode and so = ?so] assms(1) by blast
  have rd: "read_msg decode \<lparr>incoming = msg_bytes encode (envelope_of (PStreamOpen ?so)), ending = Lost\<rparr>
      = (Inr (Some (envelope_of (PStreamOpen ?so))), \<lparr>incoming = [], ending = Lost\<rparr>)"
    using read_msg_of_msg[where encode = encode and decode = decode, OF assms(1,2), of "[]" Lost] by simp
  have pr: "forward_proto_try_from (sto_forward_proto ?so) = Some Tcp" "sto_stream_type ?so \<noteq> stream_type_i32 X11"
    by (simp_all add: stream_open_of_def del: forward_proto_i32.simps)
  have au: "is_authorized_reverse_stream ?so False specs" using authorized_of_spec[OF assms(4), of False] assms(3) by simp
  have "tunnel_ok t" using tunnel.invar_run[OF tunnel_ok_new _ assms(6)[unfolded assms(7)]] by simp
  moreover have "open_forward encode decode pending lookup_host connect pref spec = Some (c, t0)"
    using w rd pr assms(5)
    by (simp add: open_forward_def tcp_connection_def dispatch_stream_def read_tag_Cons TAG_FORWARD_def TAG_PTY_def
        serve_tcp_forward_def assms(7))
  moreover have "open_reverse encode decode specs lookup_host connect pref spec = Some (c, t0)"
    using w rd pr au assms(5)
    by (simp add: open_reverse_def reverse_tcp_connection_def accept_reverse_stream_def read_tag_Cons
        serve_reverse_tcp_def assms(7))
  ultimately show ?thesis by (auto simp: tunnel_ok_def flows_def) (metis append.assoc)
qed

text \<open>A client that sends two bytes to the target of \<open>sample_spec\<close>, of which the target has the first.\<close>

definition tunnel_run :: "tunnel_event list" where
  "tunnel_run = [PeerWrites ClientEnd [1, 2], Pipe ClientEnd (CopyOut 1), Pipe ServerEnd (CopyIn 1)]"

lemmas tunnel_eval = new_tunnel_def new_pipe_def send_ended_def recv_ended_def hand_over_def read_len_def PIPE_BUF_def Let_def

lemma sample_connect:
  "connect_tcp_preferred (\<lambda>_. Inr [SocketAddr (V4 7) 80]) (\<lambda>_. Inr True) a Auto = Inr True"
  by (simp add: connect_tcp_preferred_def order_by_family_def)

theorem forwarded_connection_transparent_witness:
  "\<exists>t. run_steps tunnel_step (new_tunnel (\<lambda>_. [])) tunnel_run = Some t
     \<and> open_forward sample_encode sample_decode False (\<lambda>_. Inr [SocketAddr (V4 7) 80]) (\<lambda>_. Inr True) Auto sample_spec
         = Some (True, new_tunnel (\<lambda>_. []))
     \<and> to_local (ends t ServerEnd) = [1] \<and> written t ClientEnd = [1] @ local_in (ends t ClientEnd)"
proof -
  obtain t where t: "run_steps tunnel_step (new_tunnel (\<lambda>_. [])) tunnel_run = Some t"
    "to_local (ends t ServerEnd) = [1]" "quic_in (ends t ServerEnd) = []"
    by (simp add: tunnel_run_def tunnel_eval)
  have p: "proto sample_spec = Tcp" by (simp add: sample_spec_def)
  show ?thesis
    using forwarded_connection_transparent[where encode = sample_encode and decode = sample_decode and spec = sample_spec
        and specs = "[sample_spec]" and pending = False and c = True, OF _ _ p _ sample_connect t(1) refl] t
    by (auto simp: sample_encode_def sample_decode_def MAX_CONTROL_MSG_def dest: spec[of _ ClientEnd])
qed

text \<open>C13 (liveness): a forwarded connection delivers.  As long as the connection is up, no socket fails and
  the other peer neither shuts its half down nor, if this one has, has written anything: the steps of the
  two pipes that do anything are bounded by what is left to do, and when they can do no more, everything
  that was written has been delivered, followed by the end of the stream if the writer has shut down.\<close>

theorem forwarded_connection_delivers:
  assumes "run_steps tunnel_step (new_tunnel (\<lambda>_. [])) es = Some t" and "one_way t s" and "pumps t n t'"
  shows "n + left_to_do t' \<le> left_to_do t
    \<and> (at_rest t' \<longrightarrow> to_local (ends t' (other s)) = written t s \<and> (shut t s \<longrightarrow> t2_done (ends t' (other s))))"
proof -
  have "settled_ok t" using settled.invar_run[OF settled_ok_new _ assms(1)] by simp
  from pumps_keep[OF assms(3) this, of s] assms(2) have ok: "tunnel_ok t'" "orderly t' s"
    and same: "written t' = written t" "shut t' = shut t" by (auto simp: settled_ok_def)
  have "flows t' s" using ok(1) by (simp add: tunnel_ok_def)
  then show ?thesis
    using pumps_left[OF assms(3)] at_rest_copied_out[OF _ ok(2)] at_rest_copied_in[OF _ ok(2)] same
    by (auto simp: flows_def)
qed

text \<open>The same client shuts its half down; five steps deliver the second byte and the end of the stream.\<close>

definition shut_tunnel :: tunnel where
  "shut_tunnel = the (run_steps tunnel_step (new_tunnel (\<lambda>_. [])) (tunnel_run @ [PeerShuts ClientEnd]))"

lemma torn_down_at_rest:
  assumes "\<forall>s. aborted (ends t s)"
  shows "at_rest t"
proof -
  have "t' = t" if st: "tunnel_step t (Pipe s e) = Some t'" for s e t'
  proof (rule tunnel_step_same[OF st])
    show "pipe_tcp_quic (ends t s) e = ends t s" using assms by (cases e) simp_all
  qed
  then show ?thesis by (auto simp: at_rest_def elim!: pumps.cases simp del: tunnel_step.simps)
qed

text \<open>A run of effective steps, checked step by step.\<close>

fun effective :: "tunnel \<Rightarrow> (side \<times> pipe_event) list \<Rightarrow> bool" where
  "effective t [] \<longleftrightarrow> True"
| "effective t ((s, e) # fs) \<longleftrightarrow> pipe_tcp_quic (ends t s) e \<noteq> ends t s
     \<and> (case tunnel_step t (Pipe s e) of None \<Rightarrow> False | Some t1 \<Rightarrow> effective t1 fs)"

lemma pumps_effective:
  "effective t fs \<Longrightarrow> run_steps tunnel_step t (map (\<lambda>(s, e). Pipe s e) fs) = Some t' \<Longrightarrow> pumps t (length fs) t'"
proof (induction fs arbitrary: t)
  case (Cons f fs)
  obtain s e where f: "f = (s, e)" by (cases f)
  with Cons.prems obtain t1 where t1: "tunnel_step t (Pipe s e) = Some t1" "pipe_tcp_quic (ends t s) e \<noteq> ends t s"
    "effective t1 fs" "run_steps tunnel_step t1 (map (\<lambda>(s, e). Pipe s e) fs) = Some t'"
    by (auto split: option.splits Option.bind_splits simp del: tunnel_step.simps)
  then have "t1 \<noteq> t" using pipe_event_step(2)[OF t1(1)] by auto
  with t1 Cons.IH show ?case by (auto intro: pumps_some)
qed simp

definition shut_run :: "(side \<times> pipe_event) list" where
  "shut_run = [(ClientEnd, CopyOut 1), (ClientEnd, CopyOut 1), (ServerEnd, CopyIn 1), (ServerEnd, CopyIn 1), (ClientEnd, Select), (ServerEnd, Select)]"

theorem forwarded_connection_delivers_witness:
  "\<exists>t t'. run_steps tunnel_step (new_tunnel (\<lambda>_. [])) (tunnel_run @ [PeerShuts ClientEnd]) = Some t \<and> pumps t 6 t'
     \<and> 6 + left_to_do t' \<le> left_to_do t \<and> written t ClientEnd = [1, 2]
     \<and> to_local (ends t' ServerEnd) = written t ClientEnd \<and> t2_done (ends t' ServerEnd)"
proof -
  let ?t = "shut_tunnel" and ?fs = "map (\<lambda>(s, e). Pipe s e) shut_run"
  have t: "run_steps tunnel_step (new_tunnel (\<lambda>_. [])) (tunnel_run @ [PeerShuts ClientEnd]) = Some ?t"
    by (simp add: shut_tunnel_def tunnel_run_def tunnel_eval)
  have w: "written ?t ClientEnd = [1, 2]" "shut ?t ClientEnd" "one_way ?t ClientEnd"
    by (simp_all add: one_way_def shut_tunnel_def tunnel_run_def tunnel_eval all_sides[of _ ClientEnd])
  have "effective ?t shut_run" by (simp add: shut_run_def shut_tunnel_def tunnel_run_def tunnel_eval)
  moreover obtain t' where t': "run_steps tunnel_step ?t ?fs = Some t'" "\<forall>s. aborted (ends t' s)"
    by (simp add: shut_run_def shut_tunnel_def tunnel_run_def tunnel_eval all_sides[of _ ClientEnd])
  ultimately have "pumps ?t (length shut_run) t'" by (blast intro: pumps_effective)
  then have p: "pumps ?t 6 t'" by (simp add: shut_run_def eval_nat_numeral)
  from forwarded_connection_delivers[OF t w(3) p, unfolded other.simps] torn_down_at_rest[OF t'(2)] w t p show ?thesis by blast
qed

text \<open>Without that restriction a clean end loses data: the client of the connection sends two bytes and shuts
  down, its pipe is torn down, and the answer the target has begun to write fails at the other end, which
  tears that pipe down before it has read the two bytes.  No socket has failed, the connection is up, and
  the target sees a regular end of the stream.\<close>

definition close_race :: "tunnel_event list" where
  "close_race = [PeerWrites ClientEnd [1, 2], Pipe ClientEnd (CopyOut 2), PeerShuts ClientEnd, Pipe ClientEnd (CopyOut 1),
     Pipe ClientEnd Select, PeerWrites ServerEnd [9], Pipe ServerEnd (FailOut 0), Pipe ServerEnd Select]"

lemma clean_close_loses_tail:
  "\<exists>t. run_steps tunnel_step (new_tunnel (\<lambda>_. [])) close_race = Some t \<and> \<not> lost_conn t \<and> (\<forall>s. \<not> broken t s)
     \<and> written t ClientEnd = [1, 2] \<and> aborted (ends t ServerEnd) \<and> to_local (ends t ServerEnd) = []"
  by (simp add: close_race_def tunnel_eval)

end
