(* ===== verification/X11_Tunnel.thy ===== *)
theory X11_Tunnel
  imports Forward_Tunnel
begin

text \<open>
  A forwarded X11 connection from end to end: a connection to the proxy display of \<open>src/bin/etrs.rs\<close>, the
  exchange of its cookie, the stream to the client, what \<open>src/bin/etr.rs\<close> makes of it, and the two pipes
  between the X client on the server and the X server of the user, as a tunnel.
\<close>

section \<open>Setting it up\<close>

text \<open>The task of a connection to the proxy display, for its Unix and its TCP listeners: without an active
  connection or a real cookie, or with a setup request that is refused, the connection is dropped.
  Otherwise the stream that was written to, and what is left to read of the connection.\<close>

definition x11_connection ::
    "(Envelope \<Rightarrow> bytes) \<Rightarrow> bytes \<Rightarrow> send_stream option option \<Rightarrow> bytes option \<Rightarrow> bytes
     \<Rightarrow> ((unit io_result \<times> send_stream) \<times> bytes) option" where
  "x11_connection encode fake_cookie active_conn real_cookie stream =
     (case (active_conn, real_cookie) of
        (Some open_bi, Some rc) \<Rightarrow>
          (case process_x11_setup stream fake_cookie rc of
             Inl _ \<Rightarrow> None
           | Inr (rest, setup_block) \<Rightarrow>
               (case open_bi of
                  None \<Rightarrow> None
                | Some s \<Rightarrow> Some (forward_x11_connection encode setup_block s, rest)))
      | _ \<Rightarrow> None)"

text \<open>The setup request that is already on the stream was written by the pipe of the server's end.\<close>

definition x11_tunnel :: "bytes \<Rightarrow> bytes \<Rightarrow> tunnel" where
  "x11_tunnel setup_block rest =
     (new_tunnel (\<lambda>_. []))\<lparr>
       ends := (\<lambda>s. case s of
         ServerEnd \<Rightarrow> (new_pipe rest [])\<lparr>to_quic := setup_block\<rparr> | ClientEnd \<Rightarrow> new_pipe [] setup_block),
       written := (\<lambda>s. case s of ServerEnd \<Rightarrow> setup_block @ rest | ClientEnd \<Rightarrow> [])\<rparr>"

text \<open>The whole way of a connection whose X client has sent \<open>stream\<close> so far: the socket the client of the
  session connects to, if it can be reached, and the tunnel.\<close>

definition open_x11 ::
    "(Envelope \<Rightarrow> bytes) \<Rightarrow> (bytes \<Rightarrow> Envelope option) \<Rightarrow> bool \<Rightarrow> ForwardSpec list \<Rightarrow> (x11_endpoint \<Rightarrow> bool) \<Rightarrow> string
     \<Rightarrow> bytes \<Rightarrow> bytes option \<Rightarrow> bytes \<Rightarrow> (x11_endpoint \<times> tunnel) option" where
  "open_x11 encode decode x11_enabled specs can_connect display fake_cookie real_cookie stream =
     (case x11_connection encode fake_cookie (Some (Some \<lparr>outgoing = [], budget = None\<rparr>)) real_cookie stream of
        Some ((Inr _, s), rest) \<Rightarrow>
          (case accept_reverse_stream decode x11_enabled specs (Some display) \<lparr>incoming = outgoing s, ending = Lost\<rparr> of
             (ConnectX11 d, r) \<Rightarrow>
               (case connect_local_x11 d of
                  Inl _ \<Rightarrow> None
                | Inr endpoint \<Rightarrow> if can_connect endpoint then Some (endpoint, x11_tunnel (incoming r) rest) else None)
           | _ \<Rightarrow> None)
      | _ \<Rightarrow> None)"

section \<open>Lemmas\<close>

lemma tunnel_ok_x11 [simp]: "tunnel_ok (x11_tunnel setup_block rest)"
  by (simp add: tunnel_ok_def all_sides[of _ ClientEnd] flows_def x11_tunnel_def new_pipe_def)

lemma written_step: "tunnel_step t e = Some t' \<Longrightarrow> prefix (written t s) (written t' s)"
  by (cases e) (auto split: if_splits)

lemma written_run: "run_steps tunnel_step t es = Some t' \<Longrightarrow> prefix (written t s) (written t' s)"
proof (induction es arbitrary: t)
  case (Cons e es)
  then obtain t1 where "tunnel_step t e = Some t1" "run_steps tunnel_step t1 es = Some t'"
    by (auto split: Option.bind_splits)
  with Cons.IH written_step show ?case by (metis prefix_order.trans)
qed simp

lemma forward_x11_unlimited:
  assumes "length (encode x11_stream_open) \<le> MAX_CONTROL_MSG"
  shows "forward_x11_connection encode setup_block \<lparr>outgoing = [], budget = None\<rparr> =
    (Inr (), \<lparr>outgoing = TAG_FORWARD # msg_bytes encode x11_stream_open @ setup_block, budget = None\<rparr>)"
  using write_msg_unlimited[where encode = encode, OF assms, of "[TAG_FORWARD]"]
  by (simp add: forward_x11_connection_def write_all_def)

lemma accept_x11_stream:
  assumes "length (encode x11_stream_open) \<le> MAX_CONTROL_MSG" and "decode (encode x11_stream_open) = Some x11_stream_open"
  shows "accept_reverse_stream decode x11_enabled specs (Some display)
      \<lparr>incoming = TAG_FORWARD # msg_bytes encode x11_stream_open @ rest, ending = e\<rparr> =
    (if x11_enabled then ConnectX11 display else FinishStream, \<lparr>incoming = rest, ending = e\<rparr>)"
  using read_msg_of_msg[where encode = encode and decode = decode, OF assms, of rest e]
  by (simp add: accept_reverse_stream_def read_tag_Cons x11_stream_open_def is_authorized_reverse_stream_def)

section \<open>Properties\<close>

text \<open>C22 (safety): X11 forwarding from end to end.  A connection to the proxy display reaches the user's X server
  exactly when its setup request, in either byte order, carries the fake cookie of the session and the user
  has enabled X11 forwarding and that server can be reached; then, in every run and whatever fails, what the
  X server is given is a prefix of the same request with the real cookie (or none), followed by what the X
  client sends after it, with nothing of the header or of the fake cookie in it; and what the X client
  is given is a prefix of what the X server sends.\<close>

theorem x11_connection_exact:
  assumes "length version = 5" and "length unused = 2" and "length name < 2 ^ 16" and "length data < 2 ^ 16"
    and "length (encode x11_stream_open) \<le> MAX_CONTROL_MSG" and "decode (encode x11_stream_open) = Some x11_stream_open"
    and "setup_block = (if real = [] then setup_bytes order version unused [] []
           else setup_bytes order version unused MIT_MAGIC_COOKIE real)"
    and "run_steps tunnel_step (x11_tunnel setup_block rest) es = Some t"
  shows "open_x11 encode decode x11_enabled specs can_connect display fake (Some real)
      (setup_bytes order version unused name data @ rest) =
    (if fake = [] \<or> take (length fake) data \<noteq> fake \<or> \<not> x11_enabled then None
     else (case connect_local_x11 display of
             Inl _ \<Rightarrow> None
           | Inr endpoint \<Rightarrow> if can_connect endpoint then Some (endpoint, x11_tunnel setup_block rest) else None))
    \<and> prefix (to_local (ends t ClientEnd)) (written t ServerEnd) \<and> prefix (setup_block @ rest) (written t ServerEnd)
    \<and> prefix (to_local (ends t ServerEnd)) (written t ClientEnd)"
proof -
  have "tunnel_ok t" using tunnel.invar_run[OF tunnel_ok_x11 _ assms(8)] by simp
  then have "prefix (to_local (ends t (other s))) (written t s)" for s
    by (auto simp: tunnel_ok_def flows_def prefix_def) (metis append.assoc)
  from this[of ServerEnd] this[of ClientEnd]
  have "prefix (to_local (ends t ClientEnd)) (written t ServerEnd)" "prefix (to_local (ends t ServerEnd)) (written t ClientEnd)"
    by simp_all
  moreover have "prefix (setup_block @ rest) (written t ServerEnd)"
    using written_run[OF assms(8), of ServerEnd] by (simp add: x11_tunnel_def)
  ultimately show ?thesis
    using process_x11_setup_request[OF assms(1-4), of order rest fake real] assms(7)
      forward_x11_unlimited[where encode = encode, OF assms(5)]
      accept_x11_stream[where encode = encode and decode = decode, OF assms(5,6)]
    by (auto simp: open_x11_def x11_connection_def split: sum.split)
qed

text \<open>An X client that presents the cookie 1 2 3 and then sends 9, for a real cookie 7 and the display \<open>:0\<close>.\<close>

definition sample_x11_decode :: "bytes \<Rightarrow> Envelope option" where
  "sample_x11_decode bs = Some x11_stream_open"

theorem x11_connection_exact_witness:
  "\<exists>t. run_steps tunnel_step (x11_tunnel (setup_bytes 0x6C [0, 11, 0, 0, 0] [0, 0] MIT_MAGIC_COOKIE [7]) [9])
         [Pipe ClientEnd (CopyIn 100), Pipe ServerEnd (CopyOut 1), PeerWrites ServerEnd [8], Pipe ClientEnd (CopyIn 1)] = Some t
     \<and> open_x11 (\<lambda>_. [1]) sample_x11_decode True [] (\<lambda>_. True) '':0'' [1, 2, 3] (Some [7])
          (setup_bytes 0x6C [0, 11, 0, 0, 0] [0, 0] MIT_MAGIC_COOKIE [1, 2, 3] @ [9]) =
        Some (UnixSocket ''/tmp/.X11-unix/X0'', x11_tunnel (setup_bytes 0x6C [0, 11, 0, 0, 0] [0, 0] MIT_MAGIC_COOKIE [7]) [9])
     \<and> prefix (to_local (ends t ClientEnd)) (setup_bytes 0x6C [0, 11, 0, 0, 0] [0, 0] MIT_MAGIC_COOKIE [7] @ [9, 8])"
proof -
  let ?blk = "setup_bytes 0x6C [0, 11, 0, 0, 0] [0, 0] MIT_MAGIC_COOKIE [7]"
  let ?es = "[Pipe ClientEnd (CopyIn 100), Pipe ServerEnd (CopyOut 1), PeerWrites ServerEnd [8], Pipe ClientEnd (CopyIn 1)]"
  have "?blk \<noteq> []" by (simp add: setup_bytes_def)
  then obtain t where t: "run_steps tunnel_step (x11_tunnel ?blk [9]) ?es = Some t" "written t ServerEnd = ?blk @ [9, 8]"
    by (simp add: x11_tunnel_def tunnel_eval)
  have d: "connect_local_x11 '':0'' = Inr (UnixSocket ''/tmp/.X11-unix/X0'')"
    by (simp add: connect_local_x11_def x11_parse_def starts_with_def split_ignoring_brackets_def parse_u16_def
        from_str_radix_def to_digit_def after_last_def Let_def show_u16_def show_nat.simps[of 0] digit_char_def char_of_def bit_Suc_0_iff)
  note x = x11_connection_exact[where encode = "\<lambda>_. [1]" and decode = sample_x11_decode and version = "[0, 11, 0, 0, 0]"
      and unused = "[0, 0]" and name = MIT_MAGIC_COOKIE and data = "[1, 2, 3]" and real = "[7]" and order = "0x6C"
      and rest = "[9]" and fake = "[1, 2, 3]" and x11_enabled = True and specs = "[]" and can_connect = "\<lambda>_. True"
      and display = "'':0''" and setup_block = ?blk, OF _ _ _ _ _ _ _ t(1)]
  have "length MIT_MAGIC_COOKIE < 2 ^ 16" by (simp add: MIT_MAGIC_COOKIE_def as_bytes_def)
  with x show ?thesis using t d by (auto simp: sample_x11_decode_def MAX_CONTROL_MSG_def)
qed

end
