(* ===== verification/Udp_Tunnel.thy ===== *)
theory Udp_Tunnel
  imports Udp_Forward
begin

text \<open>
  A forwarded UDP port from end to end: the local socket of \<open>run_udp_forward_client_socket\<close> in
  \<open>src/bin/etr.rs\<close> with its frame encoder, the stream, the relay of \<open>serve_udp_forward\<close> in
  \<open>src/bin/etrs.rs\<close> with its sockets, the channel and the task that collect the replies, and the way back
  to the local senders; down to the bytes of the frames on the stream.
\<close>

section \<open>The forward tasks of a session\<close>

text \<open>\<open>run_session\<close> starts a task for each of its \<open>-L\<close> specs, by protocol; those that can bind nothing end at once.\<close>

definition forward_tasks ::
    "(Envelope \<Rightarrow> bytes) \<Rightarrow> (string \<Rightarrow> bool) \<Rightarrow> (string \<Rightarrow> bool) \<Rightarrow> bool \<Rightarrow> ForwardSpec list
     \<Rightarrow> (ForwardSpec \<times> string list) list" where
  "forward_tasks encode can_listen can_bind_udp gateway specs =
     List.map_filter (\<lambda>spec. map_option (Pair spec)
       (case proto spec of
          Tcp \<Rightarrow> map_option fst (run_tcp_acceptor_quic encode can_listen spec gateway)
        | Udp \<Rightarrow> run_udp_forward_client_quic can_bind_udp spec gateway)) specs"

lemma forward_tasks_serve:
  assumes "(spec, addrs) \<in> set (forward_tasks encode can_listen can_bind_udp gateway specs)"
  shows "spec \<in> set specs" and "addrs \<noteq> []" and "list_all (if proto spec = Tcp then can_listen else can_bind_udp) addrs"
proof -
  from assms have "spec \<in> set specs \<and> (case proto spec of
      Tcp \<Rightarrow> map_option fst (run_tcp_acceptor_quic encode can_listen spec gateway) = Some addrs
    | Udp \<Rightarrow> run_udp_forward_client_quic can_bind_udp spec gateway = Some addrs)"
    unfolding forward_tasks_def by (auto simp: List.map_filter_def split: ForwardProto.splits)
  then show "spec \<in> set specs" "addrs \<noteq> []" "list_all (if proto spec = Tcp then can_listen else can_bind_udp) addrs"
    by (cases "proto spec";
        auto simp: run_tcp_acceptor_quic_def run_udp_forward_client_quic_def bind_listeners_def Let_def list_all_iff
        simp del: filter_empty_conv split: if_splits)+
qed

section \<open>The tunnel\<close>

text \<open>The encoder, the bytes on the stream in each direction and the channel of the reply tasks, and the history:
  the datagrams of local senders, those sent to the target and from which socket, those a reply task has
  taken from its socket, and those sent to local senders.\<close>

record udp_tunnel =
  ut_encoder :: UdpFrameEncoder
  ut_up :: bytes
  ut_relay :: relay
  ut_channel :: "Envelope list"
  ut_down :: bytes
  ut_asked :: "(SocketAddr \<times> bytes) list"
  ut_sent :: "(nat \<times> bytes) list"
  ut_heard :: "(nat \<times> bytes) list"
  ut_given :: "(SocketAddr \<times> bytes) list"

definition new_udp_tunnel :: udp_tunnel where
  "new_udp_tunnel = \<lparr>ut_encoder = new_encoder, ut_up = [], ut_relay = new_relay, ut_channel = [], ut_down = [],
     ut_asked = [], ut_sent = [], ut_heard = [], ut_given = []\<rparr>"

definition REPLY_CHANNEL :: nat where "REPLY_CHANNEL = 256"
definition DATAGRAM_BUF :: nat where "DATAGRAM_BUF = 65535"

text \<open>A datagram of a local sender; the relay reads a message at a time, with the result of the bind it may
  need; a datagram from some host arrives on a socket of the relay, whose task waits while the channel is
  full; the collector writes a reply; the client reads one; and the map of senders may reorder.  A receive
  buffer holds no more than \<open>DATAGRAM_BUF\<close> bytes, and the rest of a longer datagram is not delivered.\<close>

datatype udp_event =
    LocalDatagram SocketAddr bytes | RelayReads nat bool | SocketReceives nat nat SocketAddr bytes
  | Collect | LocalReply | Reorder "(peer_key \<times> sender) list"

fun udp_step ::
    "(IpAddr \<Rightarrow> string) \<Rightarrow> (string \<Rightarrow> IpAddr option) \<Rightarrow> (nat \<Rightarrow> UdpDatagram \<Rightarrow> nat) \<Rightarrow> (nat \<Rightarrow> UdpDatagram \<Rightarrow> bytes)
     \<Rightarrow> (Envelope \<Rightarrow> bytes) \<Rightarrow> (bytes \<Rightarrow> Envelope option) \<Rightarrow> udp_tunnel \<Rightarrow> udp_event \<Rightarrow> udp_tunnel option" where
  "udp_step ip_text parse_ip encoded_len encode_field encode decode t (LocalDatagram src data) =
     (let n = take DATAGRAM_BUF data;
          (framed, enc) = frame ip_text encoded_len encode_field src n (ut_encoder t)
      in Some (t\<lparr>ut_encoder := enc, ut_up := ut_up t @ framed, ut_asked := ut_asked t @ [(src, n)]\<rparr>))"
| "udp_step ip_text parse_ip encoded_len encode_field encode decode t (RelayReads now bind_ok) =
     (case read_msg decode \<lparr>incoming = ut_up t, ending = Lost\<rparr> of
        (Inr (Some env), r) \<Rightarrow>
          (let (res, rl) = relay_message now bind_ok env (ut_relay t)
           in Some (t\<lparr>ut_up := incoming r, ut_relay := rl, ut_sent := ut_sent t @ the_list res\<rparr>))
      | _ \<Rightarrow> None)"
| "udp_step ip_text parse_ip encoded_len encode_field encode decode t (SocketReceives now sock from_addr data) =
     (if REPLY_CHANNEL \<le> length (ut_channel t) then None
      else (let n = take DATAGRAM_BUF data; (env, rl) = relay_reply now sock n (ut_relay t)
            in Some (t\<lparr>ut_relay := rl, ut_channel := ut_channel t @ the_list env,
                       ut_heard := ut_heard t @ map (\<lambda>_. (sock, n)) (the_list env)\<rparr>)))"
| "udp_step ip_text parse_ip encoded_len encode_field encode decode t Collect =
     (case ut_channel t of
        [] \<Rightarrow> None
      | env # envs \<Rightarrow>
          Some (t\<lparr>ut_channel := envs,
                  ut_down := ut_down t @ outgoing (snd (write_msg encode env \<lparr>outgoing = [], budget = None\<rparr>))\<rparr>))"
| "udp_step ip_text parse_ip encoded_len encode_field encode decode t LocalReply =
     (case read_msg decode \<lparr>incoming = ut_down t, ending = Lost\<rparr> of
        (Inr (Some env), r) \<Rightarrow>
          Some (t\<lparr>ut_down := incoming r, ut_given := ut_given t @ the_list (dgram_out parse_ip env)\<rparr>)
      | _ \<Rightarrow> None)"
| "udp_step ip_text parse_ip encoded_len encode_field encode decode t (Reorder es) =
     (if mset es = mset (senders (ut_relay t)) then Some (t\<lparr>ut_relay := (ut_relay t)\<lparr>senders := es\<rparr>\<rparr>) else None)"

text \<open>What is assumed of the address parser and the codec, for the address of a local sender: its text parses
  back, and the messages that name it fit the limit and decode to what was encoded.\<close>

definition carries ::
    "(IpAddr \<Rightarrow> string) \<Rightarrow> (string \<Rightarrow> IpAddr option) \<Rightarrow> (Envelope \<Rightarrow> bytes) \<Rightarrow> (bytes \<Rightarrow> Envelope option)
     \<Rightarrow> SocketAddr \<Rightarrow> bool" where
  "carries ip_text parse_ip encode decode src \<longleftrightarrow>
     parse_ip (ip_text (sa_ip src)) = Some (sa_ip src)
     \<and> (\<forall>data. length data \<le> DATAGRAM_BUF \<longrightarrow>
          length (encode (datagram_env ip_text src data)) \<le> MAX_CONTROL_MSG
          \<and> decode (encode (datagram_env ip_text src data)) = Some (datagram_env ip_text src data))"

fun senders_carried ::
    "(IpAddr \<Rightarrow> string) \<Rightarrow> (string \<Rightarrow> IpAddr option) \<Rightarrow> (Envelope \<Rightarrow> bytes) \<Rightarrow> (bytes \<Rightarrow> Envelope option)
     \<Rightarrow> udp_event \<Rightarrow> bool" where
  "senders_carried ip_text parse_ip encode decode (LocalDatagram src data) = carries ip_text parse_ip encode decode src"
| "senders_carried ip_text parse_ip encode decode _ = True"

section \<open>The invariant\<close>

definition key_of :: "(IpAddr \<Rightarrow> string) \<Rightarrow> SocketAddr \<Rightarrow> peer_key" where
  "key_of ip_text src = (ip_text (sa_ip src), ucast (sa_port src))"

text \<open>A message of a local sender on the stream, and a reply addressed to one.\<close>

definition env_bytes :: "(IpAddr \<Rightarrow> string) \<Rightarrow> (Envelope \<Rightarrow> bytes) \<Rightarrow> (SocketAddr \<times> bytes) list \<Rightarrow> bytes" where
  "env_bytes ip_text encode ds = concat (map (\<lambda>(src, data). msg_bytes encode (datagram_env ip_text src data)) ds)"

text \<open>Every datagram sent from a socket was asked by the sender the socket belongs to, and every socket belongs
  to a sender and was used.\<close>

definition sent_ok ::
    "(IpAddr \<Rightarrow> string) \<Rightarrow> (SocketAddr \<times> bytes) list \<Rightarrow> (nat \<times> bytes) list \<Rightarrow> (peer_key \<times> nat) list \<Rightarrow> bool" where
  "sent_ok ip_text asked sent out \<longleftrightarrow>
     (\<forall>x \<in> set sent. \<exists>src. (src, snd x) \<in> set asked \<and> (key_of ip_text src, fst x) \<in> set out)
     \<and> (\<forall>x \<in> set out. fst x \<in> key_of ip_text ` fst ` set asked \<and> snd x \<in> fst ` set sent)"

lemma sent_ok_asked: "sent_ok ip_text asked sent out \<Longrightarrow> set asked \<subseteq> set asked' \<Longrightarrow> sent_ok ip_text asked' sent out"
  unfolding sent_ok_def by (meson image_mono subsetD)

lemma sent_ok_send:
  assumes "sent_ok ip_text asked sent out" and "(src, d) \<in> set asked"
  shows "sent_ok ip_text asked (sent @ [(sock, d)]) ((key_of ip_text src, sock) # out)"
proof -
  have "key_of ip_text src \<in> key_of ip_text ` fst ` set asked" using assms(2) by force
  moreover have "\<exists>s. (s, snd x) \<in> set asked \<and> (key_of ip_text s, fst x) \<in> set ((key_of ip_text src, sock) # out)"
    if "x \<in> set (sent @ [(sock, d)])" for x
    using that assms by (auto simp: sent_ok_def)
  ultimately show ?thesis using assms(1) unfolding sent_ok_def by auto
qed

text \<open>On the way up: what was asked is what the relay has read and then what is on the stream; every datagram
  sent from a socket was asked by the sender the socket belongs to.\<close>

definition up_ok ::
    "(IpAddr \<Rightarrow> string) \<Rightarrow> (string \<Rightarrow> IpAddr option) \<Rightarrow> (Envelope \<Rightarrow> bytes) \<Rightarrow> (bytes \<Rightarrow> Envelope option)
     \<Rightarrow> udp_tunnel \<Rightarrow> (SocketAddr \<times> bytes) list \<Rightarrow> (SocketAddr \<times> bytes) list \<Rightarrow> (peer_key \<times> nat) list \<Rightarrow> bool" where
  "up_ok ip_text parse_ip encode decode t taken pend out \<longleftrightarrow>
     enc_ok ip_text (ut_encoder t) \<and> ut_asked t = taken @ pend
     \<and> (\<forall>x \<in> set (ut_asked t). carries ip_text parse_ip encode decode (fst x) \<and> length (snd x) \<le> DATAGRAM_BUF)
     \<and> ut_up t = env_bytes ip_text encode pend
     \<and> subseq (map snd (ut_sent t)) (map snd taken)
     \<and> sent_ok ip_text (ut_asked t) (ut_sent t) out"

text \<open>Every reply is addressed to a sender and was heard on a socket the reply task of that sender read.\<close>

definition heard_ok ::
    "(IpAddr \<Rightarrow> string) \<Rightarrow> (SocketAddr \<times> bytes) list \<Rightarrow> (SocketAddr \<times> nat \<times> bytes) list \<Rightarrow> (peer_key \<times> nat) list \<Rightarrow> bool" where
  "heard_ok ip_text asked rs ins \<longleftrightarrow>
     (\<forall>x \<in> set rs. (key_of ip_text (fst x), fst (snd x)) \<in> set ins \<and> fst x \<in> fst ` set asked
        \<and> length (snd (snd x)) \<le> DATAGRAM_BUF)"

lemma heard_ok_mono:
  "heard_ok ip_text asked rs ins \<Longrightarrow> set asked \<subseteq> set asked' \<Longrightarrow> set ins \<subseteq> set ins' \<Longrightarrow> heard_ok ip_text asked' rs ins'"
  unfolding heard_ok_def by (meson image_mono subsetD)

text \<open>On the way down: the replies heard on the sockets are those given to local senders (or to none, when
  the port is 0), then those on the stream, then those in the channel, each addressed to a sender.\<close>

definition down_ok ::
    "(IpAddr \<Rightarrow> string) \<Rightarrow> (string \<Rightarrow> IpAddr option) \<Rightarrow> (Envelope \<Rightarrow> bytes) \<Rightarrow> udp_tunnel
     \<Rightarrow> (SocketAddr \<times> nat \<times> bytes) list \<Rightarrow> (SocketAddr \<times> nat \<times> bytes) list \<Rightarrow> (SocketAddr \<times> nat \<times> bytes) list
     \<Rightarrow> (peer_key \<times> nat) list \<Rightarrow> bool" where
  "down_ok ip_text parse_ip encode t gone stream chan ins \<longleftrightarrow>
     ut_heard t = map snd (gone @ stream @ chan)
     \<and> ut_given t = map (\<lambda>(src, _, d). (src, d)) (filter (\<lambda>x. sa_port (fst x) \<noteq> 0) gone)
     \<and> ut_down t = env_bytes ip_text encode (map (\<lambda>(src, _, d). (src, d)) stream)
     \<and> ut_channel t = map (\<lambda>(src, _, d). datagram_env ip_text src d) chan
     \<and> heard_ok ip_text (ut_asked t) (gone @ stream @ chan) ins"

definition udp_ok ::
    "(IpAddr \<Rightarrow> string) \<Rightarrow> (string \<Rightarrow> IpAddr option) \<Rightarrow> (Envelope \<Rightarrow> bytes) \<Rightarrow> (bytes \<Rightarrow> Envelope option)
     \<Rightarrow> udp_tunnel \<Rightarrow> bool" where
  "udp_ok ip_text parse_ip encode decode t \<longleftrightarrow>
     (\<exists>taken pend out gone stream chan ins. up_ok ip_text parse_ip encode decode t taken pend out
        \<and> down_ok ip_text parse_ip encode t gone stream chan ins \<and> relay_reach (ut_relay t) out ins)"

lemma env_bytes_simps [simp]:
  "env_bytes ip_text encode [] = []"
  "env_bytes ip_text encode ((src, d) # ds) = msg_bytes encode (datagram_env ip_text src d) @ env_bytes ip_text encode ds"
  "env_bytes ip_text encode (ds @ es) = env_bytes ip_text encode ds @ env_bytes ip_text encode es"
  by (simp_all add: env_bytes_def)

lemma datagram_env_key:
  "datagram_env ip_text src d =
    envelope_of (PUdpDatagram \<lparr>dg_peer_addr = fst (key_of ip_text src), dg_peer_port = snd (key_of ip_text src), dg_data = d\<rparr>)"
  by (simp add: datagram_env_def key_of_def)

lemma carriesD:
  assumes "carries ip_text parse_ip encode decode src" and "length d \<le> DATAGRAM_BUF"
  shows "length (encode (datagram_env ip_text src d)) \<le> MAX_CONTROL_MSG"
    and "decode (encode (datagram_env ip_text src d)) = Some (datagram_env ip_text src d)"
  using assms by (auto simp: carries_def)

lemma read_pending:
  assumes "carries ip_text parse_ip encode decode src" and "length d \<le> DATAGRAM_BUF"
  shows "read_msg decode \<lparr>incoming = env_bytes ip_text encode ((src, d) # ds), ending = Lost\<rparr> =
    (Inr (Some (datagram_env ip_text src d)), \<lparr>incoming = env_bytes ip_text encode ds, ending = Lost\<rparr>)"
  using read_msg_of_msg[where encode = encode and decode = decode and env = "datagram_env ip_text src d"]
    carriesD[OF assms] by simp

lemma read_nothing: "read_msg decode \<lparr>incoming = [], ending = Lost\<rparr> = (Inl BrokenPipe, \<lparr>incoming = [], ending = Lost\<rparr>)"
  by (simp add: read_msg_def io_simps)

text \<open>The frame of the encoder is the message.\<close>

lemma frame_bytes:
  assumes "enc_ok ip_text enc" and "\<And>d. encoded_len 12 d = length (encode_field 12 d)"
    and "\<And>d. encode (envelope_of (PUdpDatagram d)) = encode_field 12 d"
    and "frame ip_text encoded_len encode_field src d enc = (framed, enc')"
    and "length (encode (datagram_env ip_text src d)) \<le> MAX_CONTROL_MSG"
  shows "enc_ok ip_text enc'" and "framed = msg_bytes encode (datagram_env ip_text src d)"
proof -
  note f = frame_spec[where encode = encode, OF assms(1-4), of "\<lparr>outgoing = [], budget = None\<rparr>"]
  then show "enc_ok ip_text enc'" by blast
  show "framed = msg_bytes encode (datagram_env ip_text src d)"
    using f write_msg_unlimited[where encode = encode, OF assms(5), of "[]"] by (simp add: write_framed_def write_all_def)
qed

text \<open>What the relay answers.\<close>

lemma relay_datagram_result:
  assumes "relay_datagram now b dg r = (res, r')" and "relay_ok r out ins"
  shows "res = None \<or> (\<exists>sock. res = Some (sock, dg_data dg))"
  using assms(1) by (cases rule: relay_datagram_cases) auto

lemma relay_reply_result:
  assumes "relay_reply now sock data r = (res, r')" and "relay_ok r out ins"
  shows "res = None \<or> (\<exists>k. (k, sock) \<in> set out
    \<and> res = Some (envelope_of (PUdpDatagram \<lparr>dg_peer_addr = fst k, dg_peer_port = snd k, dg_data = data\<rparr>)))"
proof (cases "find (\<lambda>e. s_sock (snd e) = sock) (senders r)")
  case None
  then show ?thesis using assms(1) by (simp add: relay_reply_def)
next
  case (Some e)
  from find_SomeD[OF this] have "(fst e, snd e) \<in> set (senders r)" "s_sock (snd e) = sock" by simp_all
  with relay_ok_owner[OF assms(2), of "fst e" "snd e"] have "(fst e, sock) \<in> set out" by simp
  moreover have "res = None \<or>
      res = Some (envelope_of (PUdpDatagram \<lparr>dg_peer_addr = fst (fst e), dg_peer_port = snd (fst e), dg_data = data\<rparr>))"
    using assms(1) Some by (cases e) (auto simp: relay_reply_def Let_def split: if_splits)
  ultimately show ?thesis by blast
qed

section \<open>The steps\<close>

lemma up_okD:
  assumes "up_ok ip_text parse_ip encode decode t taken pend out"
  shows "enc_ok ip_text (ut_encoder t)" and "ut_asked t = taken @ pend"
    and "x \<in> set (ut_asked t) \<Longrightarrow> carries ip_text parse_ip encode decode (fst x) \<and> length (snd x) \<le> DATAGRAM_BUF"
    and "ut_up t = env_bytes ip_text encode pend" and "subseq (map snd (ut_sent t)) (map snd taken)"
    and "sent_ok ip_text (ut_asked t) (ut_sent t) out"
  using assms unfolding up_ok_def by blast+

lemma up_okI:
  assumes "enc_ok ip_text (ut_encoder t)" and "ut_asked t = taken @ pend"
    and "\<And>x. x \<in> set (ut_asked t) \<Longrightarrow> carries ip_text parse_ip encode decode (fst x) \<and> length (snd x) \<le> DATAGRAM_BUF"
    and "ut_up t = env_bytes ip_text encode pend" and "subseq (map snd (ut_sent t)) (map snd taken)"
    and "sent_ok ip_text (ut_asked t) (ut_sent t) out"
  shows "up_ok ip_text parse_ip encode decode t taken pend out"
  using assms unfolding up_ok_def by blast

lemma down_ok_asked:
  assumes "down_ok ip_text parse_ip encode t gone stream chan ins"
    and "set (ut_asked t) \<subseteq> set (ut_asked t')" and "ut_heard t' = ut_heard t" and "ut_given t' = ut_given t"
    and "ut_down t' = ut_down t" and "ut_channel t' = ut_channel t"
  shows "down_ok ip_text parse_ip encode t' gone stream chan ins"
  using assms(1) heard_ok_mono[OF _ assms(2) subset_refl] unfolding down_ok_def assms(3-6) by blast

lemma udp_okI:
  assumes "up_ok ip_text parse_ip encode decode t taken pend out"
    and "down_ok ip_text parse_ip encode t gone stream chan ins" and "relay_reach (ut_relay t) out ins"
  shows "udp_ok ip_text parse_ip encode decode t"
  using assms unfolding udp_ok_def by blast

lemma udp_local_ok:
  assumes "udp_ok ip_text parse_ip encode decode t" and "carries ip_text parse_ip encode decode src"
    and "\<And>d. encoded_len 12 d = length (encode_field 12 d)"
    and "\<And>d. encode (envelope_of (PUdpDatagram d)) = encode_field 12 d"
    and "udp_step ip_text parse_ip encoded_len encode_field encode decode t (LocalDatagram src data) = Some t'"
  shows "udp_ok ip_text parse_ip encode decode t'"
proof -
  let ?n = "take DATAGRAM_BUF data"
  obtain framed enc where f: "frame ip_text encoded_len encode_field src ?n (ut_encoder t) = (framed, enc)" by fastforce
  with assms(5) have t': "t' = t\<lparr>ut_encoder := enc, ut_up := ut_up t @ framed, ut_asked := ut_asked t @ [(src, ?n)]\<rparr>"
    by simp
  obtain taken pend out gone stream chan ins where
    up: "up_ok ip_text parse_ip encode decode t taken pend out"
    and down: "down_ok ip_text parse_ip encode t gone stream chan ins" and reach: "relay_reach (ut_relay t) out ins"
    using assms(1) unfolding udp_ok_def by blast
  have "enc_ok ip_text (ut_encoder t)" by (rule up_okD[OF up])
  note fb = frame_bytes[where encode = encode, OF this assms(3,4) f carriesD(1)[OF assms(2)]]
  note u = up_okD[OF up]
  have "up_ok ip_text parse_ip encode decode t' taken (pend @ [(src, ?n)]) out"
  proof (rule up_okI)
    show "sent_ok ip_text (ut_asked t') (ut_sent t') out" by (rule sent_ok_asked) (use u(6) in \<open>auto simp: t'\<close>)
    show "carries ip_text parse_ip encode decode (fst x) \<and> length (snd x) \<le> DATAGRAM_BUF" if "x \<in> set (ut_asked t')" for x
      using that u(3)[of x] assms(2) by (auto simp: t')
  qed (use u fb in \<open>simp_all add: t'\<close>)
  moreover have "down_ok ip_text parse_ip encode t' gone stream chan ins"
    by (rule down_ok_asked[OF down]) (auto simp: t')
  ultimately show ?thesis by (rule udp_okI) (simp add: t' reach)
qed

lemma udp_relay_ok:
  assumes "udp_ok ip_text parse_ip encode decode t"
    and "udp_step ip_text parse_ip encoded_len encode_field encode decode t (RelayReads now b) = Some t'"
  shows "udp_ok ip_text parse_ip encode decode t'"
proof -
  obtain taken pend out gone stream chan ins where
    up: "up_ok ip_text parse_ip encode decode t taken pend out"
    and down: "down_ok ip_text parse_ip encode t gone stream chan ins" and reach: "relay_reach (ut_relay t) out ins"
    using assms(1) unfolding udp_ok_def by blast
  have bytes: "ut_up t = env_bytes ip_text encode pend" using up by (simp add: up_ok_def)
  have "pend \<noteq> []" using assms(2) by (auto simp: bytes read_nothing)
  then obtain src d ps where pend: "pend = (src, d) # ps" by (metis neq_Nil_conv surj_pair)
  note u = up_okD[OF up]
  have asked: "(src, d) \<in> set (ut_asked t)" using u(2) by (simp add: pend)
  with u(3) have src: "carries ip_text parse_ip encode decode src" "length d \<le> DATAGRAM_BUF" by fastforce+
  let ?dg = "\<lparr>dg_peer_addr = fst (key_of ip_text src), dg_peer_port = snd (key_of ip_text src), dg_data = d\<rparr>"
  obtain res rl where rd: "relay_datagram now b ?dg (ut_relay t) = (res, rl)" by fastforce
  have msg: "relay_message now b (datagram_env ip_text src d) (ut_relay t) = (res, rl)"
    using rd by (simp add: relay_message_def datagram_env_key)
  have t': "t' = t\<lparr>ut_up := env_bytes ip_text encode ps, ut_relay := rl, ut_sent := ut_sent t @ the_list res\<rparr>"
    using assms(2) by (simp add: bytes pend read_pending[OF src] msg del: env_bytes_simps)
  let ?out = "case res of None \<Rightarrow> out | Some (sock, _) \<Rightarrow> ((dg_peer_addr ?dg, dg_peer_port ?dg), sock) # out"
  have reach': "relay_reach rl ?out ins" by (rule relay_reach.datagram[OF reach rd])
  have "up_ok ip_text parse_ip encode decode t' (taken @ [(src, d)]) ps ?out"
  proof (rule up_okI)
    show "subseq (map snd (ut_sent t')) (map snd (taken @ [(src, d)]))"
      using relay_datagram_result[OF rd relay_reach_ok[OF reach]] u(5)
      by (auto simp: t' the_list_def intro: list_emb_append_mono subseq_rev_drop_many)
    show "sent_ok ip_text (ut_asked t') (ut_sent t') ?out"
      using relay_datagram_result[OF rd relay_reach_ok[OF reach]] u(6) sent_ok_send[OF u(6) asked]
      by (auto simp: t' the_list_def)
    show "carries ip_text parse_ip encode decode (fst x) \<and> length (snd x) \<le> DATAGRAM_BUF" if "x \<in> set (ut_asked t')" for x
      using that u(3)[of x] by (simp add: t')
  qed (use u in \<open>simp_all add: t' pend\<close>)
  moreover have "down_ok ip_text parse_ip encode t' gone stream chan ins"
    by (rule down_ok_asked[OF down]) (simp_all add: t')
  ultimately show ?thesis by (rule udp_okI) (use reach' in \<open>simp add: t'\<close>)
qed

lemma up_ok_same:
  assumes "up_ok ip_text parse_ip encode decode t taken pend out"
    and "ut_encoder t' = ut_encoder t" and "ut_up t' = ut_up t" and "ut_asked t' = ut_asked t" and "ut_sent t' = ut_sent t"
  shows "up_ok ip_text parse_ip encode decode t' taken pend out"
  using assms(1) unfolding up_ok_def assms(2-5) .

lemma down_okD:
  assumes "down_ok ip_text parse_ip encode t gone stream chan ins"
  shows "ut_heard t = map snd (gone @ stream @ chan)"
    and "ut_given t = map (\<lambda>(src, _, d). (src, d)) (filter (\<lambda>x. sa_port (fst x) \<noteq> 0) gone)"
    and "ut_down t = env_bytes ip_text encode (map (\<lambda>(src, _, d). (src, d)) stream)"
    and "ut_channel t = map (\<lambda>(src, _, d). datagram_env ip_text src d) chan"
    and "heard_ok ip_text (ut_asked t) (gone @ stream @ chan) ins"
  using assms unfolding down_ok_def by blast+

lemma down_okI:
  assumes "ut_heard t = map snd (gone @ stream @ chan)"
    and "ut_given t = map (\<lambda>(src, _, d). (src, d)) (filter (\<lambda>x. sa_port (fst x) \<noteq> 0) gone)"
    and "ut_down t = env_bytes ip_text encode (map (\<lambda>(src, _, d). (src, d)) stream)"
    and "ut_channel t = map (\<lambda>(src, _, d). datagram_env ip_text src d) chan"
    and "heard_ok ip_text (ut_asked t) (gone @ stream @ chan) ins"
  shows "down_ok ip_text parse_ip encode t gone stream chan ins"
  using assms unfolding down_ok_def by blast

lemma udp_hears_ok:
  assumes "udp_ok ip_text parse_ip encode decode t"
    and "udp_step ip_text parse_ip encoded_len encode_field encode decode t (SocketReceives now sock from_addr data) = Some t'"
  shows "udp_ok ip_text parse_ip encode decode t'"
proof -
  obtain taken pend out gone stream chan ins where
    up: "up_ok ip_text parse_ip encode decode t taken pend out"
    and down: "down_ok ip_text parse_ip encode t gone stream chan ins" and reach: "relay_reach (ut_relay t) out ins"
    using assms(1) unfolding udp_ok_def by blast
  let ?n = "take DATAGRAM_BUF data"
  obtain res rl where rr: "relay_reply now sock ?n (ut_relay t) = (res, rl)" by fastforce
  have t': "t' = t\<lparr>ut_relay := rl, ut_channel := ut_channel t @ the_list res,
      ut_heard := ut_heard t @ map (\<lambda>_. (sock, ?n)) (the_list res)\<rparr>"
    using assms(2) rr by (simp add: Let_def split: if_splits)
  have up': "up_ok ip_text parse_ip encode decode t' taken pend out" by (rule up_ok_same[OF up]) (simp_all add: t')
  note reach' = relay_reach.reply[OF reach rr]
  note d = down_okD[OF down]
  from relay_reply_result[OF rr relay_reach_ok[OF reach]] show ?thesis
  proof
    assume none: "res = None"
    have "down_ok ip_text parse_ip encode t' gone stream chan ins"
      by (rule down_ok_asked[OF down]) (simp_all add: t' none the_list_def)
    moreover have "relay_reach (ut_relay t') out ins" using reach' by (simp add: t' none addressee_def)
    ultimately show ?thesis using up' by (blast intro: udp_okI)
  next
    assume "\<exists>k. (k, sock) \<in> set out
      \<and> res = Some (envelope_of (PUdpDatagram \<lparr>dg_peer_addr = fst k, dg_peer_port = snd k, dg_data = ?n\<rparr>))"
    then obtain k where k: "(k, sock) \<in> set out"
      "res = Some (envelope_of (PUdpDatagram \<lparr>dg_peer_addr = fst k, dg_peer_port = snd k, dg_data = ?n\<rparr>))" by blast
    from k(1) up_okD(6)[OF up] obtain src where src: "src \<in> fst ` set (ut_asked t)" "k = key_of ip_text src"
      unfolding sent_ok_def by force
    have env: "res = Some (datagram_env ip_text src ?n)" using k(2) by (simp add: datagram_env_key src(2))
    have ins: "relay_reach (ut_relay t') out ((k, sock) # ins)" using reach' by (simp add: t' k(2) addressee_def)
    have "down_ok ip_text parse_ip encode t' gone stream (chan @ [(src, sock, ?n)]) ((k, sock) # ins)"
    proof (rule down_okI)
      have "heard_ok ip_text (ut_asked t) (gone @ stream @ chan) ((k, sock) # ins)"
        by (rule heard_ok_mono[OF d(5)]) auto
      then show "heard_ok ip_text (ut_asked t') (gone @ stream @ chan @ [(src, sock, ?n)]) ((k, sock) # ins)"
        using src by (simp add: heard_ok_def t')
    qed (simp_all add: t' env the_list_def d)
    then show ?thesis using up' ins by (blast intro: udp_okI)
  qed
qed

lemma udp_collect_ok:
  assumes "udp_ok ip_text parse_ip encode decode t"
    and "udp_step ip_text parse_ip encoded_len encode_field encode decode t Collect = Some t'"
  shows "udp_ok ip_text parse_ip encode decode t'"
proof -
  obtain taken pend out gone stream chan ins where
    up: "up_ok ip_text parse_ip encode decode t taken pend out"
    and down: "down_ok ip_text parse_ip encode t gone stream chan ins" and reach: "relay_reach (ut_relay t) out ins"
    using assms(1) unfolding udp_ok_def by blast
  note d = down_okD[OF down]
  have "chan \<noteq> []" using assms(2) d(4) by auto
  then obtain src sock n cs where chan: "chan = (src, sock, n) # cs" by (metis neq_Nil_conv prod_cases3)
  have "src \<in> fst ` set (ut_asked t)" "length n \<le> DATAGRAM_BUF" using d(5) by (simp_all add: heard_ok_def chan)
  then have len: "length (encode (datagram_env ip_text src n)) \<le> MAX_CONTROL_MSG"
    using up_okD(3)[OF up] carriesD(1) by fastforce
  have t': "t' = t\<lparr>ut_channel := map (\<lambda>(src, _, d). datagram_env ip_text src d) cs,
      ut_down := ut_down t @ msg_bytes encode (datagram_env ip_text src n)\<rparr>"
    using assms(2) write_msg_unlimited[where encode = encode, OF len, of "[]"] by (simp add: d(4) chan)
  have "up_ok ip_text parse_ip encode decode t' taken pend out" by (rule up_ok_same[OF up]) (simp_all add: t')
  moreover have "down_ok ip_text parse_ip encode t' gone (stream @ [(src, sock, n)]) cs ins"
    by (rule down_okI) (use d in \<open>simp_all add: t' chan\<close>)
  ultimately show ?thesis by (rule udp_okI) (simp add: t' reach)
qed

lemma udp_given_ok:
  assumes "udp_ok ip_text parse_ip encode decode t"
    and "udp_step ip_text parse_ip encoded_len encode_field encode decode t LocalReply = Some t'"
  shows "udp_ok ip_text parse_ip encode decode t'"
proof -
  obtain taken pend out gone stream chan ins where
    up: "up_ok ip_text parse_ip encode decode t taken pend out"
    and down: "down_ok ip_text parse_ip encode t gone stream chan ins" and reach: "relay_reach (ut_relay t) out ins"
    using assms(1) unfolding udp_ok_def by blast
  note d = down_okD[OF down]
  have "stream \<noteq> []" using assms(2) d(3) by (auto simp: read_nothing)
  then obtain src sock n ss where stream: "stream = (src, sock, n) # ss" by (metis neq_Nil_conv prod_cases3)
  have "src \<in> fst ` set (ut_asked t)" "length n \<le> DATAGRAM_BUF" using d(5) by (simp_all add: heard_ok_def stream)
  then have src: "carries ip_text parse_ip encode decode src" "length n \<le> DATAGRAM_BUF"
    using up_okD(3)[OF up] by fastforce+
  have out: "dgram_out parse_ip (datagram_env ip_text src n) = (if sa_port src = 0 then None else Some (src, n))"
    using src(1) datagram_peer_round_trip[of parse_ip ip_text src n] by (simp add: carries_def)
  have t': "t' = t\<lparr>ut_down := env_bytes ip_text encode (map (\<lambda>(src, _, d). (src, d)) ss),
      ut_given := ut_given t @ (if sa_port src = 0 then [] else [(src, n)])\<rparr>"
    using assms(2) read_pending[OF src, of "map (\<lambda>(src, _, d). (src, d)) ss"]
    by (simp add: d(3) stream out the_list_def split: if_splits del: env_bytes_simps)
  have "up_ok ip_text parse_ip encode decode t' taken pend out" by (rule up_ok_same[OF up]) (simp_all add: t')
  moreover have "down_ok ip_text parse_ip encode t' (gone @ [(src, sock, n)]) ss chan ins"
    by (rule down_okI) (use d in \<open>simp_all add: t' stream\<close>)
  ultimately show ?thesis by (rule udp_okI) (simp add: t' reach)
qed

lemma udp_reorder_ok:
  assumes "udp_ok ip_text parse_ip encode decode t"
    and "udp_step ip_text parse_ip encoded_len encode_field encode decode t (Reorder es) = Some t'"
  shows "udp_ok ip_text parse_ip encode decode t'"
proof -
  obtain taken pend out gone stream chan ins where
    up: "up_ok ip_text parse_ip encode decode t taken pend out"
    and down: "down_ok ip_text parse_ip encode t gone stream chan ins" and reach: "relay_reach (ut_relay t) out ins"
    using assms(1) unfolding udp_ok_def by blast
  from assms(2) have t': "t' = t\<lparr>ut_relay := (ut_relay t)\<lparr>senders := es\<rparr>\<rparr>" and es: "mset es = mset (senders (ut_relay t))"
    by (simp_all split: if_splits)
  have "up_ok ip_text parse_ip encode decode t' taken pend out" by (rule up_ok_same[OF up]) (simp_all add: t')
  moreover have "down_ok ip_text parse_ip encode t' gone stream chan ins"
    by (rule down_ok_asked[OF down]) (simp_all add: t')
  ultimately show ?thesis by (rule udp_okI) (simp add: t' relay_reach.rehash[OF reach es])
qed

lemma udp_ok_new [simp]: "udp_ok ip_text parse_ip encode decode new_udp_tunnel"
proof (rule udp_okI[where taken = "[]" and pend = "[]" and out = "[]" and gone = "[]" and stream = "[]" and chan = "[]" and ins = "[]"])
  show "relay_reach (ut_relay new_udp_tunnel) [] []" by (simp add: new_udp_tunnel_def relay_reach.start)
qed (simp_all add: up_ok_def down_ok_def new_udp_tunnel_def enc_ok_new sent_ok_def heard_ok_def)

text \<open>What prost promises of a message field: \<open>encoded_len\<close> is the length of the encoding, and an envelope is the
  encoding of its only field.\<close>

definition prost_field :: "(nat \<Rightarrow> UdpDatagram \<Rightarrow> nat) \<Rightarrow> (nat \<Rightarrow> UdpDatagram \<Rightarrow> bytes) \<Rightarrow> (Envelope \<Rightarrow> bytes) \<Rightarrow> bool" where
  "prost_field encoded_len encode_field encode \<longleftrightarrow>
     (\<forall>d. encoded_len 12 d = length (encode_field 12 d) \<and> encode (envelope_of (PUdpDatagram d)) = encode_field 12 d)"

interpretation udp_tunnel: step_invariant
    "udp_step ip_text parse_ip encoded_len encode_field encode decode"
    "\<lambda>_ e. prost_field encoded_len encode_field encode \<and> senders_carried ip_text parse_ip encode decode e"
    "udp_ok ip_text parse_ip encode decode"
  for ip_text parse_ip encoded_len encode_field encode decode
proof
  fix t e t'
  assume ok: "udp_ok ip_text parse_ip encode decode t"
    and allowed: "prost_field encoded_len encode_field encode \<and> senders_carried ip_text parse_ip encode decode e"
    and step: "udp_step ip_text parse_ip encoded_len encode_field encode decode t e = Some t'"
  show "udp_ok ip_text parse_ip encode decode t'"
  proof (cases e)
    case (LocalDatagram src data)
    have "carries ip_text parse_ip encode decode src" using allowed by (simp add: LocalDatagram)
    moreover have "encoded_len 12 d = length (encode_field 12 d)" "encode (envelope_of (PUdpDatagram d)) = encode_field 12 d" for d
      using allowed by (simp_all add: prost_field_def)
    ultimately show ?thesis using udp_local_ok[OF ok _ _ _ step[unfolded LocalDatagram]] by blast
  qed (use step ok udp_relay_ok udp_hears_ok udp_collect_ok udp_given_ok udp_reorder_ok in \<open>metis\<close>)+
qed

text \<open>A key belongs to one sender.\<close>

lemma key_of_inject:
  assumes "key_of ip_text a = key_of ip_text b"
    and "parse_ip (ip_text (sa_ip a)) = Some (sa_ip a)" and "parse_ip (ip_text (sa_ip b)) = Some (sa_ip b)"
  shows "a = b"
proof -
  have "sa_ip a = sa_ip b" using assms by (metis key_of_def option.inject prod.inject)
  moreover have "sa_port a = sa_port b" using assms(1) by (simp add: key_of_def)
  ultimately show ?thesis by (cases a; cases b) simp
qed

lemma given_subseq_heard:
  assumes "down_ok ip_text parse_ip encode t gone stream chan ins"
  shows "subseq (map snd (ut_given t)) (map snd (ut_heard t))"
proof -
  note d = down_okD[OF assms]
  have "map snd (ut_given t) = map (snd \<circ> snd) (filter (\<lambda>x. sa_port (fst x) \<noteq> 0) gone)"
    by (simp add: d(2) case_prod_unfold)
  also have "subseq \<dots> (map (snd \<circ> snd) gone)" by (intro subseq_map subseq_filter_left)
  also have "subseq \<dots> (map snd (ut_heard t))" by (simp add: d(1) subseq_rev_drop_many)
  finally show ?thesis .
qed

text \<open>The socket a reply was heard on belongs to the sender it is given to.\<close>

lemma socket_of_sender:
  assumes "up_ok ip_text parse_ip encode decode t taken pend out" and "relay_ok r out ins"
    and "(key_of ip_text dest, sock) \<in> set ins" and "dest \<in> fst ` set (ut_asked t)"
  shows "sock \<in> fst ` set (ut_sent t)" and "(sock, d) \<in> set (ut_sent t) \<Longrightarrow> (dest, d) \<in> set (ut_asked t)"
proof -
  note u = up_okD[OF assms(1)]
  have parse: "parse_ip (ip_text (sa_ip a)) = Some (sa_ip a)" if "a \<in> fst ` set (ut_asked t)" for a
    using that u(3) by (auto simp: carries_def)
  have o: "(key_of ip_text dest, sock) \<in> set out" using assms(2,3) by (auto simp: relay_ok_def)
  then show "sock \<in> fst ` set (ut_sent t)" using u(6) unfolding sent_ok_def by force
  show "(dest, d) \<in> set (ut_asked t)" if s: "(sock, d) \<in> set (ut_sent t)"
  proof -
    from u(6) s obtain src where src: "(src, d) \<in> set (ut_asked t)" "(key_of ip_text src, sock) \<in> set out"
      unfolding sent_ok_def by force
    have "key_of ip_text src = key_of ip_text dest" using assms(2) o src(2) unfolding relay_ok_def one_owner_def by blast
    then have "src = dest"
      by (rule key_of_inject[where parse_ip = parse_ip]) (use src(1) assms(4) parse in force)+
    with src(1) show ?thesis by simp
  qed
qed

section \<open>Properties\<close>

text \<open>C14 (safety): conversations through a forwarded UDP port do not mix.  However the datagrams of any number of
  local senders, the replies and the losses of senders from the relay's map interleave: the target gets
  datagrams that were sent, each at most once and in order; local senders get what was heard on the relay's
  sockets, each at most once and in order; and what a sender is given was heard on a socket from which
  something was sent, and only datagrams of that very sender.\<close>

theorem udp_conversations_separate:
  assumes "prost_field encoded_len encode_field encode"
    and "list_all (senders_carried ip_text parse_ip encode decode) es"
    and "run_steps (udp_step ip_text parse_ip encoded_len encode_field encode decode) new_udp_tunnel es = Some t"
  shows "subseq (map snd (ut_sent t)) (map snd (ut_asked t)) \<and> subseq (map snd (ut_given t)) (map snd (ut_heard t))
    \<and> (\<forall>dest data. (dest, data) \<in> set (ut_given t) \<longrightarrow>
         (\<exists>sock. (sock, data) \<in> set (ut_heard t) \<and> sock \<in> fst ` set (ut_sent t)
            \<and> (\<forall>d. (sock, d) \<in> set (ut_sent t) \<longrightarrow> (dest, d) \<in> set (ut_asked t))))"
proof -
  have "run_allowed (udp_step ip_text parse_ip encoded_len encode_field encode decode)
      (\<lambda>_ e. prost_field encoded_len encode_field encode \<and> senders_carried ip_text parse_ip encode decode e) new_udp_tunnel es"
    by (rule run_allowed_list_all) (use assms(1,2) in \<open>simp add: list_all_iff\<close>)
  from udp_tunnel.invar_run[OF udp_ok_new this assms(3)] obtain taken pend out gone stream chan ins where
    up: "up_ok ip_text parse_ip encode decode t taken pend out"
    and down: "down_ok ip_text parse_ip encode t gone stream chan ins" and reach: "relay_reach (ut_relay t) out ins"
    unfolding udp_ok_def by blast
  note d = down_okD[OF down] and owner = socket_of_sender[OF up relay_reach_ok[OF reach]]
  have "\<exists>sock. (sock, data) \<in> set (ut_heard t) \<and> sock \<in> fst ` set (ut_sent t)
      \<and> (\<forall>d. (sock, d) \<in> set (ut_sent t) \<longrightarrow> (dest, d) \<in> set (ut_asked t))"
    if given: "(dest, data) \<in> set (ut_given t)" for dest data
  proof -
    from given obtain sock where sock: "(dest, sock, data) \<in> set gone" by (auto simp: d(2))
    then have dest: "(key_of ip_text dest, sock) \<in> set ins" "dest \<in> fst ` set (ut_asked t)"
      using bspec[OF d(5)[unfolded heard_ok_def], of "(dest, sock, data)"] by auto
    have "(sock, data) \<in> set (ut_heard t)" using sock by (force simp: d(1))
    with owner[OF dest] show ?thesis by (intro exI[of _ sock]) simp
  qed
  moreover have "subseq (map snd (ut_sent t)) (map snd (ut_asked t))"
    using up_okD(2,5)[OF up] by (auto intro: subseq_rev_drop_many)
  ultimately show ?thesis using given_subseq_heard[OF down] by simp
qed

text \<open>Two local senders; the target answers the second, on the socket that was opened for it.  Messages are
  encoded as the port and the data.\<close>

definition sample_peer :: "u16 \<Rightarrow> SocketAddr" where
  "sample_peer p = SocketAddr (V4 1) p"

definition sample_field :: "nat \<Rightarrow> UdpDatagram \<Rightarrow> bytes" where
  "sample_field _ d = ucast (dg_peer_port d) # dg_data d"

definition sample_udp_encode :: "Envelope \<Rightarrow> bytes" where
  "sample_udp_encode env = (case payload env of Some (PUdpDatagram d) \<Rightarrow> sample_field 12 d | _ \<Rightarrow> [])"

definition sample_udp_decode :: "bytes \<Rightarrow> Envelope option" where
  "sample_udp_decode bs = (case bs of [] \<Rightarrow> None | p # data \<Rightarrow> Some (datagram_env (\<lambda>_. ''0.0.0.1'') (sample_peer (ucast p)) data))"

abbreviation sample_udp_step :: "udp_tunnel \<Rightarrow> udp_event \<Rightarrow> udp_tunnel option" where
  "sample_udp_step \<equiv> udp_step (\<lambda>_. ''0.0.0.1'') (\<lambda>_. Some (V4 1)) (\<lambda>n d. length (sample_field n d)) sample_field
     sample_udp_encode sample_udp_decode"

definition udp_run :: "udp_event list" where
  "udp_run = [LocalDatagram (sample_peer 7) [1], LocalDatagram (sample_peer 9) [2], RelayReads 0 True, RelayReads 5 True,
     SocketReceives 9 1 (SocketAddr (V4 2) 53) [3], Collect, LocalReply]"

lemma sample_carries:
  "carries (\<lambda>_. ''0.0.0.1'') (\<lambda>_. Some (V4 1)) sample_udp_encode sample_udp_decode (sample_peer 7)"
  "carries (\<lambda>_. ''0.0.0.1'') (\<lambda>_. Some (V4 1)) sample_udp_encode sample_udp_decode (sample_peer 9)"
  by (simp_all add: carries_def sample_peer_def sample_udp_encode_def sample_udp_decode_def sample_field_def
      datagram_env_def DATAGRAM_BUF_def MAX_CONTROL_MSG_def)

lemma sample_prost: "prost_field (\<lambda>n d. length (sample_field n d)) sample_field sample_udp_encode"
  by (simp add: prost_field_def sample_udp_encode_def sample_field_def)

lemma sample_be_bytes: "be_bytes 4 2 = [0, 0, 0, 2]" "be_bytes 4 (Suc (Suc 0)) = [0, 0, 0, 2]"
  by code_simp+

lemmas udp_eval = frame_def new_encoder_def sample_field_def sample_peer_def sample_udp_encode_def sample_udp_decode_def
  datagram_env_def sample_be_bytes read_msg_def read_exact_def from_be_bytes_def relay_message_def relay_datagram_def
  relay_reply_def new_relay_def retain_active_def evict_oldest_def SENDER_IDLE_def MAX_UDP_SENDERS_def the_list_def
  REPLY_CHANNEL_def DATAGRAM_BUF_def MAX_CONTROL_MSG_def write_msg_def write_framed_def write_all_def dgram_out_def
  datagram_peer_addr_def Let_def

theorem udp_conversations_separate_witness:
  "\<exists>t. run_steps sample_udp_step new_udp_tunnel udp_run = Some t
     \<and> ut_sent t = [(0, [1]), (1, [2])] \<and> ut_given t = [(sample_peer 9, [3])] \<and> ut_heard t = [(1, [3])]
     \<and> (sample_peer 9, [2]) \<in> set (ut_asked t)"
proof -
  have "case run_steps sample_udp_step new_udp_tunnel udp_run of None \<Rightarrow> False
      | Some t \<Rightarrow> ut_sent t = [(0, [1]), (1, [2])] \<and> ut_given t = [(sample_peer 9, [3])] \<and> ut_heard t = [(1, [3])]"
    by (simp add: udp_run_def new_udp_tunnel_def udp_eval)
  then obtain t where t: "run_steps sample_udp_step new_udp_tunnel udp_run = Some t"
    "ut_sent t = [(0, [1]), (1, [2])]" "ut_given t = [(sample_peer 9, [3])]" "ut_heard t = [(1, [3])]"
    by (auto split: option.splits)
  have "list_all (senders_carried (\<lambda>_. ''0.0.0.1'') (\<lambda>_. Some (V4 1)) sample_udp_encode sample_udp_decode) udp_run"
    by (simp add: udp_run_def sample_carries)
  from udp_conversations_separate[OF sample_prost this t(1)] t show ?thesis by auto
qed

text \<open>The relay's sockets are not connected and the source of what they receive is not looked at: a datagram
  from any host that finds the port of a socket is given to the local sender as a reply of the target.\<close>

lemma strangers_are_heard:
  "udp_step ip_text parse_ip encoded_len encode_field encode decode t (SocketReceives now sock from_addr data) =
   udp_step ip_text parse_ip encoded_len encode_field encode decode t (SocketReceives now sock other_addr data)"
  by simp

end
