(* ===== verification/Stress_Pacer.thy ===== *)
theory Stress_Pacer
  imports Etr_Prelude
begin

text \<open>
  The pacer of the load generator \<open>src/tools/stress/src/main.rs\<close>: how far apart its datagrams are sent.
  An \<open>Instant\<close> and a \<open>Duration\<close> are nanoseconds, as natural numbers: with a pace below \<open>2 ^ 64\<close>
  microseconds neither the addition nor the saturating multiplication reaches its limit.  The clock is
  the list of the values \<open>Instant::now\<close> returns, in order; a definition takes what it reads from the front.
\<close>

section \<open>The pacer\<close>

definition SPIN_HORIZON :: nat where "SPIN_HORIZON = 250 * 1000"
definition MAX_LAG_STEPS :: nat where "MAX_LAG_STEPS = 8"

definition advance_deadline :: "nat \<Rightarrow> nat \<Rightarrow> nat \<Rightarrow> nat \<times> nat option" where
  "advance_deadline current_deadline step now =
     (let target = current_deadline + step
      in if target \<le> now then
           (let max_lag = step * MAX_LAG_STEPS;
                clamped = (if max_lag < now - target then now else target)
            in (clamped, None))
         else
           (let remaining = target - now;
                coarse_sleep = (if SPIN_HORIZON < remaining then Some (remaining - SPIN_HORIZON) else None)
            in (target, coarse_sleep)))"

record Pacer =
  pace_step :: "nat option"
  next_deadline :: nat

definition new_pacer :: "u64 \<Rightarrow> nat \<Rightarrow> Pacer" where
  "new_pacer pace_us now =
     \<lparr>pace_step = (if 0 < pace_us then Some (unat pace_us * 1000) else None), next_deadline = now\<rparr>"

text \<open>The loop that ends the wait: it reads the clock until the deadline is reached.  \<open>None\<close>: the clock
  given does not reach it.\<close>

fun spin_until :: "nat \<Rightarrow> nat list \<Rightarrow> (nat \<times> nat list) option" where
  "spin_until deadline [] = None"
| "spin_until deadline (now # clock) =
     (if now < deadline then spin_until deadline clock else Some (now, clock))"

text \<open>\<open>wait\<close>, with the instant at which it returns.  The coarse sleep is seen in the readings after it only.\<close>

definition pacer_wait :: "Pacer \<Rightarrow> nat list \<Rightarrow> (Pacer \<times> nat list) option" where
  "pacer_wait p clock =
     (case pace_step p of
        None \<Rightarrow> Some (p, clock)
      | Some step \<Rightarrow>
          (case clock of
             [] \<Rightarrow> None
           | now # clock1 \<Rightarrow>
               (let target = fst (advance_deadline (next_deadline p) step now)
                in map_option (\<lambda>(_, rest). (p\<lparr>next_deadline := target\<rparr>, rest)) (spin_until target clock1))))"

section \<open>Its deadlines\<close>

text \<open>A deadline moves by at least one step, lies at most eight steps in the past, and is in the future
  only by being the next multiple of the step.\<close>

lemma advance_deadline_bounds:
  assumes "advance_deadline d step now = (d', sleep)"
  shows "d + step \<le> d'" and "now \<le> d' + MAX_LAG_STEPS * step" and "d' \<le> max now (d + step)"
  using assms by (auto simp: advance_deadline_def Let_def mult.commute split: if_splits)

text \<open>What the pacer sleeps is never past the deadline, and what is left to spin is at most the horizon.\<close>

lemma advance_deadline_sleep:
  assumes "advance_deadline d step now = (d', sleep)"
  shows "(case sleep of None \<Rightarrow> d' \<le> now + SPIN_HORIZON | Some s \<Rightarrow> now + s + SPIN_HORIZON = d')"
  using assms by (auto simp: advance_deadline_def Let_def split: if_splits)

lemma advance_deadline_cadence:
  "now \<le> d + step + MAX_LAG_STEPS * step \<Longrightarrow> fst (advance_deadline d step now) = d + step"
  by (auto simp: advance_deadline_def Let_def mult.commute)

lemma spin_until_Some:
  "spin_until deadline clock = Some (now, rest) \<Longrightarrow> deadline \<le> now \<and> (\<exists>pre. clock = pre @ now # rest)"
  by (induction clock) (auto split: if_splits intro: exI[of _ "_ # _"])

lemma spin_until_ends: "t \<in> set clock \<Longrightarrow> deadline \<le> t \<Longrightarrow> spin_until deadline clock \<noteq> None"
  by (induction clock) auto

text \<open>A wait, from its first reading to its last.\<close>

lemma pacer_wait_Some:
  assumes "pacer_wait p clock = Some (p', rest)" and "pace_step p = Some step"
  shows "\<exists>now pre t. clock = now # pre @ t # rest \<and> pace_step p' = Some step
    \<and> next_deadline p' = fst (advance_deadline (next_deadline p) step now) \<and> next_deadline p' \<le> t"
  using assms spin_until_Some by (fastforce simp: pacer_wait_def Let_def split: list.splits)

lemma pacer_wait_unpaced: "pacer_wait p clock = Some (p', rest) \<Longrightarrow> pace_step p = None \<Longrightarrow> p' = p \<and> rest = clock"
  by (simp add: pacer_wait_def)

section \<open>Successive waits\<close>

text \<open>The waits of a sender, each on its own readings, with the first and the last of them.\<close>

fun pacer_waits :: "Pacer \<Rightarrow> nat list list \<Rightarrow> (nat \<times> nat) list option" where
  "pacer_waits p [] = Some []"
| "pacer_waits p (clock # clocks) =
     (case pacer_wait p clock of
        None \<Rightarrow> None
      | Some (p', rest) \<Rightarrow> map_option ((#) (hd clock, last (take (length clock - length rest) clock))) (pacer_waits p' clocks))"

lemma pacer_waits_reach:
  assumes "pacer_waits p clocks = Some log" and "pace_step p = Some step" and "j < length log"
  shows "next_deadline p + Suc j * step \<le> snd (log ! j)"
  using assms
proof (induction clocks arbitrary: p log j)
  case (Cons clock clocks)
  then obtain p' rest log' where w: "pacer_wait p clock = Some (p', rest)" "pacer_waits p' clocks = Some log'"
    "log = (hd clock, last (take (length clock - length rest) clock)) # log'"
    by (auto split: option.splits)
  obtain now pre t where c: "clock = now # pre @ t # rest" "pace_step p' = Some step" "next_deadline p' \<le> t"
    "next_deadline p' = fst (advance_deadline (next_deadline p) step now)"
    using pacer_wait_Some[OF w(1) Cons.prems(2)] by blast
  have d: "next_deadline p + step \<le> next_deadline p'"
    using advance_deadline_bounds(1) c(4) by (metis prod.collapse)
  show ?case
  proof (cases j)
    case 0
    then show ?thesis using d c(1,3) w(3) by simp
  next
    case (Suc i)
    then have "next_deadline p' + Suc i * step \<le> snd (log' ! i)"
      using Cons.IH[OF w(2) c(2), of i] Cons.prems(3) w(3) by simp
    then show ?thesis using d Suc w(3) by simp
  qed
qed simp

section \<open>Properties\<close>

text \<open>C34 (bounds): the pacer never bursts.  Between the beginning of one wait and the end of a later one,
  for any readings of the clock and so for any stall of the socket or of the scheduler, at least as many
  steps have passed as there were waits between them, less the eight it may catch up.\<close>

theorem pacer_never_bursts:
  assumes "pacer_waits p clocks = Some log" and "pace_step p = Some step" and "i \<le> j" and "j < length log"
  shows "fst (log ! i) + (j - i) * step \<le> snd (log ! j) + MAX_LAG_STEPS * step"
  using assms
proof (induction clocks arbitrary: p log i j)
  case (Cons clock clocks)
  then obtain p' rest log' where w: "pacer_wait p clock = Some (p', rest)" "pacer_waits p' clocks = Some log'"
    "log = (hd clock, last (take (length clock - length rest) clock)) # log'"
    by (auto split: option.splits)
  obtain now pre t where c: "clock = now # pre @ t # rest" "pace_step p' = Some step" "next_deadline p' \<le> t"
    "next_deadline p' = fst (advance_deadline (next_deadline p) step now)"
    using pacer_wait_Some[OF w(1) Cons.prems(2)] by blast
  have late: "now \<le> next_deadline p' + MAX_LAG_STEPS * step"
    using advance_deadline_bounds(2) c(4) by (metis prod.collapse)
  show ?case
  proof (cases i)
    case 0
    show ?thesis
    proof (cases j)
      case 0
      then show ?thesis using \<open>i = 0\<close> late c(1,3) w(3) by simp
    next
      case (Suc k)
      then have "next_deadline p' + Suc k * step \<le> snd (log' ! k)"
        using pacer_waits_reach[OF w(2) c(2), of k] Cons.prems(4) w(3) by simp
      then show ?thesis using \<open>i = 0\<close> Suc late c(1) w(3) by simp
    qed
  next
    case (Suc m)
    then show ?thesis using Cons.IH[OF w(2) c(2), of m "j - 1"] Cons.prems(3,4) w(3) by (cases j) simp_all
  qed
qed simp

text \<open>A pace of 50 microseconds, and a stall of 10 milliseconds before the third wait.\<close>

theorem pacer_never_bursts_witness:
  "pacer_waits (new_pacer 50 0) [[10000, 30000, 51000], [52000, 100000], [10100000, 10100000], [10100100, 10150000]] =
     Some [(10000, 51000), (52000, 100000), (10100000, 10100000), (10100100, 10150000)]
   \<and> 52000 + (3 - 1) * 50000 \<le> 10150000 + MAX_LAG_STEPS * (50000 :: nat)"
proof -
  have "pacer_waits (new_pacer 50 0) [[10000, 30000, 51000], [52000, 100000], [10100000, 10100000], [10100100, 10150000]] =
      Some [(10000, 51000), (52000, 100000), (10100000, 10100000), (10100100, 10150000)]"
    by (simp add: new_pacer_def pacer_wait_def advance_deadline_def Let_def MAX_LAG_STEPS_def)
  from this pacer_never_bursts[OF this, of 50000 1 3] show ?thesis by (simp add: new_pacer_def)
qed

end
