(* ===== verification/Stress_Tool.thy ===== *)
theory Stress_Tool
  imports Quic_Framing Stress_Pacer
begin

text \<open>
  The load generator \<open>src/tools/stress/src/main.rs\<close>: its command line, the echo servers, the pumps and
  the one-way senders and receivers, with the numbers they report.  What the sockets and the clock
  return, and whether \<open>STOP\<close> is set when a loop looks at it, is given as the list of the turns of the
  loop; \<open>None\<close> means that the loop is still running at the end of the list.  Times are nanoseconds.
\<close>

section \<open>Command line\<close>

datatype stress_command =
    TcpEcho u16 | UdpEcho u16 | TcpPump u16 | UdpPump u16 u64
  | TcpSink u16 | TcpSource string u16 u64 | UdpSink u16 | UdpSource string u16 u64 u64

datatype stress_action = UsageExit | UnknownCommand string | RunCommand stress_command

definition is_source :: "string \<Rightarrow> bool" where
  "is_source cmd \<longleftrightarrow> cmd = ''tcp-source'' \<or> cmd = ''udp-source''"

text \<open>\<open>args[i]\<close>, which panics out of range, and \<open>.parse().expect(..)\<close>.\<close>

definition arg_at :: "string list \<Rightarrow> nat \<Rightarrow> string outcome" where
  "arg_at args i = (if i < length args then Returns (args ! i) else Panics)"

definition expect :: "(string \<Rightarrow> 'a option) \<Rightarrow> string outcome \<Rightarrow> 'a outcome" where
  "expect parse a =
     (case a of Panics \<Rightarrow> Panics | Returns s \<Rightarrow> (case parse s of None \<Rightarrow> Panics | Some x \<Rightarrow> Returns x))"

definition pace_arg :: "string list \<Rightarrow> nat \<Rightarrow> u64" where
  "pace_arg args i =
     (if i < length args then (case parse_u64 (args ! i) of None \<Rightarrow> 0 | Some p \<Rightarrow> p) else 0)"

definition stress_main :: "string list \<Rightarrow> stress_action outcome" where
  "stress_main args =
     (if length args < 3 then Returns UsageExit
      else case arg_at args 1 of Panics \<Rightarrow> Panics | Returns cmd \<Rightarrow>
        if is_source cmd \<and> length args < 5 then Returns UsageExit
        else case expect parse_u16 (arg_at args (if is_source cmd then 3 else 2)) of
          Panics \<Rightarrow> Panics
        | Returns port \<Rightarrow>
            if cmd = ''tcp-echo'' then Returns (RunCommand (TcpEcho port))
            else if cmd = ''udp-echo'' then Returns (RunCommand (UdpEcho port))
            else if cmd = ''tcp-pump'' then Returns (RunCommand (TcpPump port))
            else if cmd = ''udp-pump'' then Returns (RunCommand (UdpPump port (pace_arg args 3)))
            else if cmd = ''tcp-sink'' then Returns (RunCommand (TcpSink port))
            else if cmd = ''tcp-source'' then
              (case (expect parse_u64 (arg_at args 4), arg_at args 2) of
                 (Returns secs, Returns host) \<Rightarrow> Returns (RunCommand (TcpSource host port secs)) | _ \<Rightarrow> Panics)
            else if cmd = ''udp-sink'' then Returns (RunCommand (UdpSink port))
            else if cmd = ''udp-source'' then
              (case (expect parse_u64 (arg_at args 4), arg_at args 2) of
                 (Returns secs, Returns host) \<Rightarrow> Returns (RunCommand (UdpSource host port secs (pace_arg args 5)))
               | _ \<Rightarrow> Panics)
            else Returns (UnknownCommand cmd))"

text \<open>The commands that install the handler of SIGTERM; without it the signal ends the process.\<close>

fun handles_sigterm :: "stress_command \<Rightarrow> bool" where
  "handles_sigterm (TcpPump _) = True"
| "handles_sigterm (UdpPump _ _) = True"
| "handles_sigterm (TcpSink _) = True"
| "handles_sigterm (UdpSink _) = True"
| "handles_sigterm _ = False"

section \<open>What is reported\<close>

datatype stats =
    TcpStats u64 u64 nat | UdpStats u64 u64 nat | SourceStats u64 nat | SinkStats u64 nat

definition MIN_ELAPSED :: nat where "MIN_ELAPSED = 1000000"

section \<open>Echo servers\<close>

text \<open>One connection: the results of its reads, \<open>Inr []\<close> for the end of the stream.\<close>

fun echo_tcp_conn :: "(unit + bytes) list \<Rightarrow> send_stream \<Rightarrow> send_stream" where
  "echo_tcp_conn [] s = s"
| "echo_tcp_conn (Inl _ # reads) s = s"
| "echo_tcp_conn (Inr buf # reads) s =
     (if buf = [] then s
      else case write_all buf s of
        (Inl _, s') \<Rightarrow> s'
      | (Inr _, s') \<Rightarrow> echo_tcp_conn reads s')"

text \<open>The accept loop: the connections that get a thread, up to the first failed accept.\<close>

fun tcp_echo :: "(unit + 'conn) list \<Rightarrow> 'conn list" where
  "tcp_echo [] = []"
| "tcp_echo (Inl _ # accepts) = []"
| "tcp_echo (Inr conn # accepts) = conn # tcp_echo accepts"

text \<open>One of the two sockets of \<open>udp_echo\<close>: what it receives, and what it sends to whom.\<close>

definition UDP_BUF :: nat where "UDP_BUF = 65535"

fun udp_echo_socket :: "(unit + bytes \<times> string) list \<Rightarrow> (bytes \<times> string) list" where
  "udp_echo_socket [] = []"
| "udp_echo_socket (Inl _ # recvs) = udp_echo_socket recvs"
| "udp_echo_socket (Inr (datagram, addr) # recvs) = (take UDP_BUF datagram, addr) # udp_echo_socket recvs"

section \<open>Errors of a datagram socket\<close>

datatype socket_error_kind = WouldBlock | OutOfMemory | ConnectionRefused | TimedOut | OtherKind

record socket_error =
  kind_of :: socket_error_kind
  raw_os_error :: "int option"

text \<open>\<open>libc::ENOBUFS\<close>, on Linux.\<close>

definition ENOBUFS :: int where "ENOBUFS = 105"

definition is_transient_udp_send_error :: "socket_error \<Rightarrow> bool" where
  "is_transient_udp_send_error e \<longleftrightarrow>
     kind_of e \<in> {WouldBlock, OutOfMemory, ConnectionRefused} \<or> raw_os_error e = Some ENOBUFS"

definition is_timeout :: "socket_error \<Rightarrow> bool" where
  "is_timeout e \<longleftrightarrow> kind_of e \<in> {WouldBlock, TimedOut}"

section \<open>Pumps\<close>

fun first_connected :: "'s option list \<Rightarrow> 's option" where
  "first_connected [] = None"
| "first_connected (None # attempts) = first_connected attempts"
| "first_connected (Some s # attempts) = Some s"

text \<open>Fifty attempts, 100 milliseconds apart; \<open>connect i\<close> is the result of the \<open>i\<close>-th.\<close>

definition tcp_connect_with_retry :: "(nat \<Rightarrow> 's option) \<Rightarrow> 's option" where
  "tcp_connect_with_retry connect = first_connected (map connect [0..<50])"

definition PUMP_CHUNK :: bytes where "PUMP_CHUNK = replicate 65536 0"

text \<open>The send loop of \<open>tcp_pump\<close>: one entry per turn, whether \<open>STOP\<close> is set.  A chunk counts when all of it
  is written.\<close>

fun tcp_pump_loop :: "send_stream \<Rightarrow> u64 \<Rightarrow> bool list \<Rightarrow> (u64 \<times> send_stream) option" where
  "tcp_pump_loop s sent [] = None"
| "tcp_pump_loop s sent (stop # turns) =
     (if stop then Some (sent, s)
      else case write_all PUMP_CHUNK s of
        (Inl _, s') \<Rightarrow> Some (sent, s')
      | (Inr _, s') \<Rightarrow> tcp_pump_loop s' (sent + word_of_nat (length PUMP_CHUNK)) turns)"

text \<open>The drain threads: the sizes of the reads, \<open>0\<close> for the end of a TCP stream.\<close>

fun tcp_drain :: "u64 \<Rightarrow> (unit + nat) list \<Rightarrow> u64" where
  "tcp_drain recv [] = recv"
| "tcp_drain recv (Inl _ # reads) = recv"
| "tcp_drain recv (Inr n # reads) = (if n = 0 then recv else tcp_drain (recv + word_of_nat n) reads)"

fun udp_drain :: "u64 \<Rightarrow> (socket_error + nat) list \<Rightarrow> u64" where
  "udp_drain recv [] = recv"
| "udp_drain recv (Inl e # reads) = (if is_timeout e then udp_drain recv reads else recv)"
| "udp_drain recv (Inr n # reads) = udp_drain (recv + word_of_nat n) reads"

text \<open>\<open>clone_ok\<close>: the socket can be cloned for the drain thread; \<open>drained\<close>: what that thread has read when the
  numbers are printed.\<close>

definition tcp_pump ::
    "(nat \<Rightarrow> send_stream option) \<Rightarrow> bool \<Rightarrow> bool list \<Rightarrow> (unit + nat) list \<Rightarrow> nat \<Rightarrow> nat \<Rightarrow> stats option outcome" where
  "tcp_pump connect clone_ok turns drained start finish =
     (case tcp_connect_with_retry connect of
        None \<Rightarrow> Returns (Some (TcpStats 0 0 MIN_ELAPSED))
      | Some s \<Rightarrow>
          (if \<not> clone_ok then Panics
           else Returns (map_option (\<lambda>(sent, _). TcpStats sent (tcp_drain 0 drained) (finish - start))
             (tcp_pump_loop s 0 turns))))"

text \<open>One \<open>send\<close> of \<open>udp_pump\<close> and \<open>udp_source\<close>: whether the loop goes on.  A sent datagram is followed by a
  wait, an error that is transient by nothing.\<close>

definition udp_send_turn ::
    "Pacer \<Rightarrow> u64 \<Rightarrow> nat list \<Rightarrow> socket_error + nat \<Rightarrow> (bool \<times> Pacer \<times> u64 \<times> nat list) option" where
  "udp_send_turn p sent clock res =
     (case res of
        Inr n \<Rightarrow> map_option (\<lambda>(p', clock'). (True, p', sent + word_of_nat n, clock')) (pacer_wait p clock)
      | Inl e \<Rightarrow> Some (is_transient_udp_send_error e, p, sent, clock))"

fun udp_pump_loop ::
    "Pacer \<Rightarrow> u64 \<Rightarrow> nat list \<Rightarrow> (bool \<times> (socket_error + nat)) list \<Rightarrow> (u64 \<times> nat list) option" where
  "udp_pump_loop p sent clock [] = None"
| "udp_pump_loop p sent clock ((stop, res) # turns) =
     (if stop then Some (sent, clock)
      else case udp_send_turn p sent clock res of
        None \<Rightarrow> None
      | Some (go, p', sent', clock') \<Rightarrow>
          (if go then udp_pump_loop p' sent' clock' turns else Some (sent', clock')))"

definition udp_pump ::
    "bool \<Rightarrow> u64 \<Rightarrow> nat list \<Rightarrow> (bool \<times> (socket_error + nat)) list \<Rightarrow> (socket_error + nat) list \<Rightarrow>
     stats option outcome" where
  "udp_pump socket_ok pace_us clock turns drained =
     (if \<not> socket_ok then Panics
      else Returns
        (case clock of
           start # now # clock' \<Rightarrow>
             (case udp_pump_loop (new_pacer pace_us now) 0 clock' turns of
                Some (sent, finish # _) \<Rightarrow> Some (UdpStats sent (udp_drain 0 drained) (finish - start))
              | _ \<Rightarrow> None)
         | _ \<Rightarrow> None))"

section \<open>One-way senders\<close>

definition SOURCE_CHUNK :: bytes where "SOURCE_CHUNK = replicate (256 * 1024) 0"

definition from_secs :: "u64 \<Rightarrow> nat" where
  "from_secs secs = unat secs * 1000000000"

text \<open>The loop of \<open>tcp_source\<close> reads the clock on every turn, and once others for the message of an error.\<close>

fun tcp_source_loop ::
    "nat \<Rightarrow> nat \<Rightarrow> u64 \<Rightarrow> send_stream \<Rightarrow> nat list \<Rightarrow> bool list \<Rightarrow> (u64 \<times> send_stream \<times> nat list) option" where
  "tcp_source_loop start deadline sent s (now # clock) (stop # turns) =
     (if now - start < deadline \<and> \<not> stop
      then (case write_all SOURCE_CHUNK s of
              (Inr _, s') \<Rightarrow>
                tcp_source_loop start deadline (sent + word_of_nat (length SOURCE_CHUNK)) s' clock turns
            | (Inl _, s') \<Rightarrow> Some (sent, s', drop 1 clock))
      else Some (sent, s, clock))"
| "tcp_source_loop start deadline sent s _ _ = None"

definition tcp_source :: "send_stream option \<Rightarrow> u64 \<Rightarrow> nat list \<Rightarrow> bool list \<Rightarrow> stats option" where
  "tcp_source connected secs clock turns =
     (case connected of
        None \<Rightarrow> Some (SourceStats 0 MIN_ELAPSED)
      | Some s \<Rightarrow>
          (case clock of
             [] \<Rightarrow> None
           | start # clock' \<Rightarrow>
               (case tcp_source_loop start (from_secs secs) 0 s clock' turns of
                  Some (sent, _, finish # _) \<Rightarrow> Some (SourceStats sent (finish - start))
                | _ \<Rightarrow> None)))"

fun udp_source_loop ::
    "nat \<Rightarrow> nat \<Rightarrow> Pacer \<Rightarrow> u64 \<Rightarrow> nat list \<Rightarrow> (bool \<times> (socket_error + nat)) list \<Rightarrow> (u64 \<times> nat list) option" where
  "udp_source_loop start deadline p sent (now # clock) ((stop, res) # turns) =
     (if now - start < deadline \<and> \<not> stop
      then (case udp_send_turn p sent clock res of
              None \<Rightarrow> None
            | Some (go, p', sent', clock') \<Rightarrow>
                (if go then udp_source_loop start deadline p' sent' clock' turns else Some (sent', clock')))
      else Some (sent, clock))"
| "udp_source_loop start deadline p sent _ _ = None"

definition udp_source ::
    "bool \<Rightarrow> bool \<Rightarrow> u64 \<Rightarrow> u64 \<Rightarrow> nat list \<Rightarrow> (bool \<times> (socket_error + nat)) list \<Rightarrow> stats option outcome" where
  "udp_source bound connected secs pace_us clock turns =
     (if \<not> bound then Panics
      else if \<not> connected then Returns (Some (SourceStats 0 MIN_ELAPSED))
      else Returns
        (case clock of
           start # now # clock' \<Rightarrow>
             (case udp_source_loop start (from_secs secs) (new_pacer pace_us now) 0 clock' turns of
                Some (sent, finish # _) \<Rightarrow> Some (SourceStats sent (finish - start))
              | _ \<Rightarrow> None)
         | _ \<Rightarrow> None))"

section \<open>One-way receivers\<close>

text \<open>A read that returns data is followed by up to two readings of the clock: for the first byte, unless one
  is known, and for the last.\<close>

datatype sink_read = ReadBytes nat nat nat | ReadFailed socket_error

record sink =
  sk_recv :: u64
  sk_start :: "nat option"
  sk_last :: nat

definition sink_count :: "nat \<Rightarrow> nat \<Rightarrow> nat \<Rightarrow> sink \<Rightarrow> sink" where
  "sink_count n first_now last_now sk =
     sk\<lparr>sk_start := Some (case sk_start sk of None \<Rightarrow> first_now | Some t \<Rightarrow> t), sk_last := last_now,
        sk_recv := sk_recv sk + word_of_nat n\<rparr>"

definition sink_elapsed :: "sink \<Rightarrow> nat" where
  "sink_elapsed sk = (case sk_start sk of None \<Rightarrow> MIN_ELAPSED | Some t \<Rightarrow> max (sk_last sk - t) MIN_ELAPSED)"

text \<open>The read loop of one connection, and whether it ends because of \<open>STOP\<close>.\<close>

fun sink_reads :: "sink \<Rightarrow> (bool \<times> sink_read) list \<Rightarrow> (sink \<times> bool) option" where
  "sink_reads sk [] = None"
| "sink_reads sk ((stop, r) # reads) =
     (if stop then Some (sk, True)
      else case r of
        ReadBytes n t1 t2 \<Rightarrow> (if n = 0 then Some (sk, False) else sink_reads (sink_count n t1 t2 sk) reads)
      | ReadFailed e \<Rightarrow> (if is_timeout e then sink_reads sk reads else Some (sk, False)))"

datatype accept_turn = Accepted bool "(bool \<times> sink_read) list" | AcceptError socket_error

text \<open>The accept loop.  \<open>Accepted b reads\<close>: a connection, on which \<open>set_nonblocking(false)\<close> succeeds if \<open>b\<close>.\<close>

fun sink_accepts :: "sink \<Rightarrow> (bool \<times> accept_turn) list \<Rightarrow> sink option" where
  "sink_accepts sk [] = None"
| "sink_accepts sk ((stop, a) # turns) =
     (if stop then Some sk
      else case a of
        AcceptError e \<Rightarrow> (if kind_of e = WouldBlock then sink_accepts sk turns else Some sk)
      | Accepted blocking reads \<Rightarrow>
          (if \<not> blocking then sink_accepts sk turns
           else case sink_reads sk reads of
             None \<Rightarrow> None
           | Some (sk', stopped) \<Rightarrow>
               (if stopped \<or> sk_recv sk < sk_recv sk' then Some sk' else sink_accepts sk' turns)))"

definition tcp_sink :: "bool \<Rightarrow> nat \<Rightarrow> (bool \<times> accept_turn) list \<Rightarrow> stats option outcome" where
  "tcp_sink listening now turns =
     (if \<not> listening then Panics
      else Returns (map_option (\<lambda>sk. SinkStats (sk_recv sk) (sink_elapsed sk))
        (sink_accepts \<lparr>sk_recv = 0, sk_start = None, sk_last = now\<rparr> turns)))"

fun udp_sink_loop :: "sink \<Rightarrow> (bool \<times> sink_read) list \<Rightarrow> sink option" where
  "udp_sink_loop sk [] = None"
| "udp_sink_loop sk ((stop, r) # turns) =
     (if stop then Some sk
      else case r of
        ReadBytes n t1 t2 \<Rightarrow> udp_sink_loop (sink_count n t1 t2 sk) turns
      | ReadFailed e \<Rightarrow> (if is_timeout e then udp_sink_loop sk turns else Some sk))"

definition udp_sink :: "bool \<Rightarrow> nat \<Rightarrow> (bool \<times> sink_read) list \<Rightarrow> stats option outcome" where
  "udp_sink bound now turns =
     (if \<not> bound then Panics
      else Returns (map_option (\<lambda>sk. SinkStats (sk_recv sk) (sink_elapsed sk))
        (udp_sink_loop \<lparr>sk_recv = 0, sk_start = None, sk_last = now\<rparr> turns)))"

section \<open>Lemmas\<close>

text \<open>The echo server returns what it read, up to the point where its writes fail.\<close>

fun echoed :: "(unit + bytes) list \<Rightarrow> bytes" where
  "echoed [] = []"
| "echoed (Inl _ # reads) = []"
| "echoed (Inr buf # reads) = (if buf = [] then [] else buf @ echoed reads)"

lemma echo_tcp_conn_prefix:
  "\<exists>sent. outgoing (echo_tcp_conn reads s) = outgoing s @ sent \<and> prefix sent (echoed reads)"
proof (induction reads arbitrary: s)
  case (Cons r reads)
  show ?case
  proof (cases r)
    case (Inr buf)
    show ?thesis
    proof (cases "write_all buf s")
      case (Pair res s')
      show ?thesis
      proof (cases res)
        case (Inl e)
        then show ?thesis
          using Pair Inr by (auto simp: write_all_def prefix_append take_is_prefix split: option.splits if_splits)
      next
        case (Inr u)
        then have "outgoing s' = outgoing s @ buf"
          using Pair by (auto simp: write_all_def split: option.splits if_splits)
        then show ?thesis using Cons.IH[of s'] Pair Inr \<open>r = Inr buf\<close> by auto
      qed
    qed
  qed simp
qed simp

lemma echo_tcp_conn_unlimited: "budget s = None \<Longrightarrow> outgoing (echo_tcp_conn reads s) = outgoing s @ echoed reads"
  by (induction reads arbitrary: s rule: echoed.induct) (simp_all add: write_all_def)

lemma udp_echo_replies:
  "udp_echo_socket recvs = [(take UDP_BUF d, addr). Inr (d, addr) \<leftarrow> recvs]"
  by (induction recvs rule: udp_echo_socket.induct) simp_all

lemma connect_retry_None_iff: "tcp_connect_with_retry connect = None \<longleftrightarrow> (\<forall>i<50. connect i = None)"
proof -
  have "first_connected l = None \<longleftrightarrow> (\<forall>x \<in> set l. x = None)" for l :: "'a option list"
    by (induction l rule: first_connected.induct) auto
  then show ?thesis by (auto simp: tcp_connect_with_retry_def)
qed

text \<open>What the pump counts: at most one chunk of what it writes is not counted, the one that fails.\<close>

lemma unat_plus_le: "unat (a + word_of_nat n :: u64) \<le> unat a + n"
proof -
  have "unat (a + word_of_nat n :: u64) \<le> unat a + unat (word_of_nat n :: u64)" by (simp add: unat_word_ariths(1) mod_less_eq_dividend)
  also have "unat (word_of_nat n :: u64) \<le> n" by (simp add: unat_of_nat)
  finally show ?thesis by simp
qed

lemma tcp_pump_loop_written:
  assumes "tcp_pump_loop s sent turns = Some (sent', s')" and "unat sent + length turns * 65536 < 2 ^ 64"
  shows "\<exists>n part. outgoing s' = outgoing s @ replicate (n * 65536 + part) 0 \<and> unat sent' = unat sent + n * 65536
    \<and> part \<le> 65536"
  using assms
proof (induction turns arbitrary: s sent)
  case (Cons stop turns)
  show ?case
  proof (cases stop)
    case True
    then show ?thesis using Cons.prems by (intro exI[of _ 0] exI[of _ 0]) simp
  next
    case False
    show ?thesis
    proof (cases "write_all PUMP_CHUNK s")
      case (Pair res s1)
      show ?thesis
      proof (cases res)
        case (Inl e)
        then have "\<exists>k. outgoing s1 = outgoing s @ take k PUMP_CHUNK"
          using Pair by (auto simp: write_all_def split: option.splits if_splits)
        then obtain k where "outgoing s1 = outgoing s @ replicate (min k 65536) 0" by (auto simp: PUMP_CHUNK_def)
        moreover have "sent' = sent" "s' = s1" using Cons.prems(1) False Pair Inl by simp_all
        ultimately show ?thesis by (intro exI[of _ 0] exI[of _ "min k 65536"]) simp
      next
        case (Inr u)
        then have o: "outgoing s1 = outgoing s @ replicate 65536 0"
          using Pair by (auto simp: write_all_def PUMP_CHUNK_def split: option.splits if_splits)
        have l: "tcp_pump_loop s1 (sent + 65536) turns = Some (sent', s')"
          using Cons.prems(1) False Pair Inr by (simp add: PUMP_CHUNK_def)
        have u: "unat (sent + 65536) = unat sent + 65536"
          using Cons.prems(2) by (subst unat_add_lem[THEN iffD1]) simp_all
        with Cons.IH[OF l] Cons.prems(2) obtain n part where
          "outgoing s' = outgoing s1 @ replicate (n * 65536 + part) 0" "unat sent' = unat sent + 65536 + n * 65536" "part \<le> 65536"
          by auto
        then show ?thesis using o
          by (intro exI[of _ "Suc n"] exI[of _ part]) (simp add: replicate_add[symmetric] algebra_simps)
      qed
    qed
  qed
qed simp

lemma tcp_drain_le: "unat (tcp_drain recv reads) \<le> unat recv + sum_list (map (\<lambda>r. case r of Inl _ \<Rightarrow> 0 | Inr n \<Rightarrow> n) reads)"
proof (induction recv reads rule: tcp_drain.induct)
  case (3 recv n reads)
  then show ?case using unat_plus_le[of recv n] by (cases "n = 0") simp_all
qed simp_all

text \<open>The rate of a paced sender: what it has sent, in steps of the pace, fits between the deadline at its
  start and the present one, which has been reached.\<close>

lemma udp_send_turn_rate:
  assumes "udp_send_turn p sent clock res = Some (go, p', sent', clock')" and "pace_step p = Some step"
    and "case res of Inl _ \<Rightarrow> True | Inr n \<Rightarrow> n \<le> sz" and "sorted clock" and "\<forall>t \<in> set clock. next_deadline p \<le> t"
    and "unat sent * step + sz * d0 \<le> sz * next_deadline p"
  shows "pace_step p' = Some step \<and> sorted clock' \<and> (\<forall>t \<in> set clock'. next_deadline p' \<le> t)
    \<and> unat sent' * step + sz * d0 \<le> sz * next_deadline p'"
proof (cases res)
  case (Inl e)
  then show ?thesis using assms by (auto simp: udp_send_turn_def)
next
  case (Inr n)
  then have w: "pacer_wait p clock = Some (p', clock')" "sent' = sent + word_of_nat n"
    using assms(1) by (auto simp: udp_send_turn_def)
  obtain now pre t where c: "clock = now # pre @ t # clock'" "pace_step p' = Some step" "next_deadline p' \<le> t"
    "next_deadline p' = fst (advance_deadline (next_deadline p) step now)"
    using pacer_wait_Some[OF w(1) assms(2)] by blast
  have d: "next_deadline p + step \<le> next_deadline p'"
    using advance_deadline_bounds(1) c(4) by (metis prod.collapse)
  have "unat sent' \<le> unat sent + sz" using unat_plus_le[of sent n] assms(3) w(2) Inr by simp
  then have "unat sent' * step + sz * d0 \<le> (unat sent + sz) * step + sz * d0" by simp
  also have "\<dots> \<le> sz * (next_deadline p + step)" using assms(6) by (simp add: algebra_simps)
  also have "\<dots> \<le> sz * next_deadline p'" using d by simp
  finally show ?thesis using c assms(4) by (auto simp: sorted_append intro: order_trans)
qed

lemma udp_source_loop_rate:
  assumes "udp_source_loop start deadline p sent clock turns = Some (sent', clock')" and "pace_step p = Some step"
    and "list_all (\<lambda>(_, res). case res of Inl _ \<Rightarrow> True | Inr n \<Rightarrow> n \<le> sz) turns" and "sorted clock"
    and "\<forall>t \<in> set clock. next_deadline p \<le> t" and "unat sent * step + sz * d0 \<le> sz * next_deadline p"
  shows "\<forall>t \<in> set clock'. unat sent' * step + sz * d0 \<le> sz * t"
  using assms
proof (induction start deadline p sent clock turns rule: udp_source_loop.induct)
  case (1 start deadline p sent now clock stop res turns)
  have here: "\<forall>t \<in> set clock. unat sent * step + sz * d0 \<le> sz * t"
    using 1(6,7) by (meson list.set_intros(2) mult_le_mono2 order_trans)
  show ?case
  proof (cases "now - start < deadline \<and> \<not> stop")
    case True
    then obtain go p1 sent1 clock1 where t: "udp_send_turn p sent clock res = Some (go, p1, sent1, clock1)"
      and rest: "if go then udp_source_loop start deadline p1 sent1 clock1 turns = Some (sent', clock')
        else sent' = sent1 \<and> clock' = clock1"
      using 1(2) by (auto split: option.splits if_splits)
    have s: "pace_step p1 = Some step \<and> sorted clock1 \<and> (\<forall>t \<in> set clock1. next_deadline p1 \<le> t)
        \<and> unat sent1 * step + sz * d0 \<le> sz * next_deadline p1"
      by (rule udp_send_turn_rate[OF t 1(3)]) (use 1 in auto)
    show ?thesis
    proof (cases go)
      case True
      then show ?thesis using 1(1)[OF \<open>now - start < deadline \<and> \<not> stop\<close> t refl refl refl True] s rest 1(4) by auto
    next
      case False
      then show ?thesis using s rest by (auto intro: order_trans)
    qed
  next
    case False
    then show ?thesis using 1(2) here by auto
  qed
qed simp_all

text \<open>A probe opens a connection and closes it without sending anything.  Turns that change nothing: a probe,
  no connection waiting, a connection that could not be made blocking.\<close>

fun idle_reads :: "(bool \<times> sink_read) list \<Rightarrow> bool" where
  "idle_reads [] = False"
| "idle_reads ((stop, ReadFailed e) # reads) = (\<not> stop \<and> (is_timeout e \<longrightarrow> idle_reads reads))"
| "idle_reads ((stop, ReadBytes n _ _) # reads) = (\<not> stop \<and> n = 0)"

fun idle_turn :: "bool \<times> accept_turn \<Rightarrow> bool" where
  "idle_turn (stop, AcceptError e) = (\<not> stop \<and> kind_of e = WouldBlock)"
| "idle_turn (stop, Accepted blocking reads) = (\<not> stop \<and> (blocking \<longrightarrow> idle_reads reads))"

text \<open>A transfer: data and timeouts, then the end of the stream or an error.\<close>

fun transfer_read :: "bool \<times> sink_read \<Rightarrow> bool" where
  "transfer_read (stop, ReadFailed e) = (\<not> stop \<and> is_timeout e)"
| "transfer_read (stop, ReadBytes n _ _) = (\<not> stop \<and> 0 < n)"

fun transfer_end :: "sink_read \<Rightarrow> bool" where
  "transfer_end (ReadFailed e) = (\<not> is_timeout e)"
| "transfer_end (ReadBytes n _ _) = (n = 0)"

fun arrivals :: "(bool \<times> sink_read) list \<Rightarrow> (nat \<times> nat \<times> nat) list" where
  "arrivals [] = []"
| "arrivals ((_, ReadBytes n t1 t2) # reads) = (n, t1, t2) # arrivals reads"
| "arrivals ((_, ReadFailed _) # reads) = arrivals reads"

lemma sink_reads_idle: "idle_reads reads \<Longrightarrow> sink_reads sk reads = Some (sk, False)"
  by (induction reads rule: idle_reads.induct) auto

lemma sink_accepts_idle: "list_all idle_turn turns \<Longrightarrow> sink_accepts sk (turns @ others) = sink_accepts sk others"
proof (induction turns)
  case (Cons t turns)
  obtain stop a where t: "t = (stop, a)" by (cases t)
  show ?case using Cons by (cases a) (simp_all add: t sink_reads_idle)
qed simp

lemma sink_reads_transfer:
  "list_all transfer_read reads \<Longrightarrow>
   sink_reads sk (reads @ others) = sink_reads (fold (\<lambda>(n, t1, t2). sink_count n t1 t2) (arrivals reads) sk) others"
proof (induction reads arbitrary: sk)
  case (Cons t reads)
  obtain stop a where t: "t = (stop, a)" by (cases t)
  show ?case using Cons by (cases a) (simp_all add: t)
qed simp

lemma sink_counts:
  assumes "as \<noteq> []"
  shows "fold (\<lambda>(n, t1, t2). sink_count n t1 t2) as sk =
    \<lparr>sk_recv = sk_recv sk + word_of_nat (sum_list (map fst as)),
     sk_start = Some (case sk_start sk of None \<Rightarrow> fst (snd (hd as)) | Some t \<Rightarrow> t), sk_last = snd (snd (last as))\<rparr>"
  using assms
proof (induction as arbitrary: sk rule: list_nonempty_induct)
  case (single a)
  then show ?case by (cases sk; cases a) (simp add: sink_count_def split: option.split)
next
  case (cons a as)
  obtain n t1 t2 where a: "a = (n, t1, t2)" by (cases a)
  show ?case using cons by (simp add: a sink_count_def algebra_simps split: option.split)
qed

section \<open>Properties\<close>

text \<open>(functional): the one-way receiver reports goodput.  Whatever probes, failed accepts and timeouts come
  first, they change nothing and do not end the run; the first connection that carries data does, and
  what is printed is the number of its bytes and the time from its first read to its last, at least a
  millisecond.\<close>

theorem tcp_sink_goodput:
  assumes "list_all idle_turn probes" and "list_all transfer_read reads" and "transfer_end final"
    and "arrivals reads \<noteq> []" and "sum_list (map fst (arrivals reads)) < 2 ^ 64"
  shows "tcp_sink True now (probes @ (False, Accepted True (reads @ (False, final) # unread)) # turns) =
    Returns (Some (SinkStats (word_of_nat (sum_list (map fst (arrivals reads))))
      (max (snd (snd (last (arrivals reads))) - fst (snd (hd (arrivals reads)))) MIN_ELAPSED)))"
proof -
  let ?as = "arrivals reads"
  let ?sk = "\<lparr>sk_recv = 0, sk_start = None, sk_last = now\<rparr>"
  let ?sk' = "\<lparr>sk_recv = word_of_nat (sum_list (map fst ?as)), sk_start = Some (fst (snd (hd ?as))),
    sk_last = snd (snd (last ?as))\<rparr>"
  have fin: "sink_reads ?sk' ((False, final) # unread) = Some (?sk', False)" using assms(3) by (cases final) simp_all
  have "\<exists>n \<in> set (map fst ?as). 0 < n"
    using assms(2,4) by (induction reads rule: arrivals.induct) auto
  then have "0 < sum_list (map fst ?as)" by (metis gr_zeroI sum_list_eq_0_iff less_numeral_extra(3))
  then have "(0 :: u64) < word_of_nat (sum_list (map fst ?as))"
    using assms(5) by (simp add: word_less_nat_alt unat_of_nat)
  with fin show ?thesis
    by (simp add: tcp_sink_def sink_accepts_idle[OF assms(1)] sink_reads_transfer[OF assms(2)] sink_counts[OF assms(4)]
        sink_elapsed_def)
qed

text \<open>A probe and a poll come before the transfer of two reads with a timeout between them.\<close>

theorem tcp_sink_goodput_witness:
  "tcp_sink True 5 [(False, AcceptError \<lparr>kind_of = WouldBlock, raw_os_error = None\<rparr>),
      (False, Accepted True [(False, ReadBytes 0 0 0)]),
      (False, Accepted True [(False, ReadBytes 1000 2000000 2000001),
        (False, ReadFailed \<lparr>kind_of = TimedOut, raw_os_error = None\<rparr>), (False, ReadBytes 24 0 9000000),
        (False, ReadBytes 0 0 0)])] = Returns (Some (SinkStats 1024 7000000))"
proof -
  have "[(False, AcceptError \<lparr>kind_of = WouldBlock, raw_os_error = None\<rparr>), (False, Accepted True [(False, ReadBytes 0 0 0)]),
      (False, Accepted True [(False, ReadBytes 1000 2000000 2000001),
        (False, ReadFailed \<lparr>kind_of = TimedOut, raw_os_error = None\<rparr>), (False, ReadBytes 24 0 9000000),
        (False, ReadBytes 0 0 0)])] =
    [(False, AcceptError \<lparr>kind_of = WouldBlock, raw_os_error = None\<rparr>), (False, Accepted True [(False, ReadBytes 0 0 0)])]
    @ (False, Accepted True ([(False, ReadBytes 1000 2000000 2000001),
        (False, ReadFailed \<lparr>kind_of = TimedOut, raw_os_error = None\<rparr>), (False, ReadBytes 24 0 9000000)]
        @ (False, ReadBytes 0 0 0) # [])) # []" by simp
  then show ?thesis by (simp only:) (subst tcp_sink_goodput, simp_all add: is_timeout_def MIN_ELAPSED_def)
qed

text \<open>(bounds): a paced sender never exceeds its pace.  With a pace of \<open>pace_us\<close> microseconds and datagrams of
  at most 1400 bytes, the bytes \<open>udp_source\<close> reports are at most one datagram per pace of the time it
  reports, whatever the socket and the scheduler do.\<close>

theorem udp_source_rate:
  assumes "udp_source bound connected secs pace_us clock turns = Returns (Some (SourceStats sent elapsed))"
    and "connected" and "0 < pace_us" and "sorted clock"
    and "list_all (\<lambda>(_, res). case res of Inl _ \<Rightarrow> True | Inr n \<Rightarrow> n \<le> 1400) turns"
  shows "unat sent * (unat pace_us * 1000) \<le> 1400 * elapsed"
proof -
  obtain start now clock1 finish rest where c: "clock = start # now # clock1" "elapsed = finish - start"
    and l: "udp_source_loop start (from_secs secs) (new_pacer pace_us now) 0 clock1 turns = Some (sent, finish # rest)"
    using assms(1,2) by (auto simp: udp_source_def split: if_splits list.splits option.splits prod.splits)
  have "\<forall>t \<in> set (finish # rest). unat sent * (unat pace_us * 1000) + 1400 * now \<le> 1400 * t"
    by (rule udp_source_loop_rate[OF l]) (use assms(3-5) c(1) in \<open>simp_all add: new_pacer_def\<close>)
  moreover have "start \<le> now" using assms(4) c(1) by simp
  ultimately show ?thesis using c(2) by (simp add: diff_mult_distrib2 le_diff_conv2)
qed

text \<open>Two datagrams at 100 microseconds and a full buffer, for a second that \<open>STOP\<close> cuts short.\<close>

theorem udp_source_rate_witness:
  "udp_source True True 1 100 [0, 0, 10, 20, 100000, 100010, 100020, 100030, 250000, 250001, 250002]
      [(False, Inr 1400), (False, Inl \<lparr>kind_of = OtherKind, raw_os_error = Some 105\<rparr>), (False, Inr 1400), (True, Inr 0)]
      = Returns (Some (SourceStats 2800 250002))
    \<and> 2800 * (100 * 1000) \<le> 1400 * (250002 :: nat)"
proof -
  have "udp_source True True 1 100 [0, 0, 10, 20, 100000, 100010, 100020, 100030, 250000, 250001, 250002]
      [(False, Inr 1400), (False, Inl \<lparr>kind_of = OtherKind, raw_os_error = Some 105\<rparr>), (False, Inr 1400), (True, Inr 0)]
      = Returns (Some (SourceStats 2800 250002))"
    by (simp add: udp_source_def new_pacer_def udp_send_turn_def pacer_wait_def advance_deadline_def Let_def
        MAX_LAG_STEPS_def is_transient_udp_send_error_def ENOBUFS_def from_secs_def)
  from this udp_source_rate[OF this] show ?thesis by simp
qed

text \<open>(error): \<open>main\<close> panics exactly on a number it cannot read.  It never indexes past its arguments; it panics
  if and only if the command has its arguments and the port, or the duration of a one-way sender, is not
  a number of its type.\<close>

theorem stress_main_panics_iff:
  "stress_main args = Panics \<longleftrightarrow> 3 \<le> length args \<and>
     (if is_source (args ! 1) then 5 \<le> length args \<and> (parse_u16 (args ! 3) = None \<or> parse_u64 (args ! 4) = None)
      else parse_u16 (args ! 2) = None)"
  by (auto simp: stress_main_def arg_at_def expect_def is_source_def split: option.splits)

text \<open>A pace that is not a number is no pace.\<close>

lemma unreadable_pace_is_unpaced:
  "stress_main [t, ''udp-pump'', ''7'', ''50us''] = Returns (RunCommand (UdpPump 7 0))"
  by (simp add: stress_main_def arg_at_def expect_def is_source_def pace_arg_def parse_u16_def parse_u64_def
      from_str_radix_def to_digit_def)

text \<open>A pump and an echo server: the echo server reads a prefix of what the pump wrote, the drain thread a prefix
  of what it sent back.  What is reported as received is at most what is reported as sent and the one
  chunk that may have been cut.\<close>

lemma pump_recv_bounded:
  assumes "tcp_pump connect clone_ok turns drained start finish = Returns (Some (TcpStats sent recv elapsed))"
    and "tcp_connect_with_retry connect = Some \<lparr>outgoing = [], budget = b\<rparr>"
    and "tcp_pump_loop \<lparr>outgoing = [], budget = b\<rparr> 0 turns = Some (sent', s)" and "length turns * 65536 < 2 ^ 64"
    and "prefix (echoed reads) (outgoing s)" and "outgoing echo = []"
    and "sum_list (map (\<lambda>r. case r of Inl _ \<Rightarrow> 0 | Inr n \<Rightarrow> n) drained) \<le> length (outgoing (echo_tcp_conn reads echo))"
  shows "unat recv \<le> unat sent + 65536"
proof -
  have r: "sent = sent'" "recv = tcp_drain 0 drained" using assms(1-3) by (simp_all add: tcp_pump_def split: if_splits)
  obtain n part where n: "outgoing s = replicate (n * 65536 + part) 0" "unat sent' = n * 65536" "part \<le> 65536"
    using tcp_pump_loop_written[OF assms(3)] assms(4) by auto
  obtain replies where p: "outgoing (echo_tcp_conn reads echo) = replies" "prefix replies (echoed reads)"
    using echo_tcp_conn_prefix[of reads echo] assms(6) by auto
  have "unat recv \<le> length (echoed reads)"
    using tcp_drain_le[of 0 drained] assms(7) p r(2) prefix_length_le[OF p(2)] by simp
  also have "\<dots> \<le> n * 65536 + part" using prefix_length_le[OF assms(5)] n(1) by simp
  finally show ?thesis using n r(1) by simp
qed

end
