(* ===== verification/Repository_Tests.thy ===== *)
theory Repository_Tests
  imports Server_Main Stress_Pacer
begin

text \<open>
  The unit tests of the repository, evaluated on the definitions: what the authors assert of the code holds
  of the model.  A lemma has the name of its test, or of the first of a group, in the file its section
  names.  Left out are tests of clap, of the resolver of the machine, of the file system and of timing.
\<close>

section \<open>\<open>src/session/stream.rs\<close>\<close>

abbreviation make_stream :: StreamState where "make_stream \<equiv> new_stream 0 Terminal"

definition four_sent :: StreamState where
  "four_sent = record_send (record_send (record_send (record_send make_stream 1 [1]) 2 [2]) 3 [3]) 4 [4]"

lemma test_acknowledge_trims_history:
  "send_history (acknowledge_up_to four_sent 2) = [(3, [3]), (4, [4])]"
  "history_bytes (acknowledge_up_to four_sent 2) = 2"
  by code_simp+

lemma test_replay_from: "replay_from four_sent 2 = [(3, [3]), (4, [4])]"
  by code_simp

lemma test_replay_from_zero:
  "replay_from make_stream 0 = []"
  "replay_from (record_send (record_send make_stream 1 [97]) 2 [98]) 0 = [(1, [97]), (2, [98])]"
  by code_simp+

lemma test_acknowledge_up_to_drains_all:
  "send_history (acknowledge_up_to four_sent (- 1)) = []" "history_bytes (acknowledge_up_to four_sent (- 1)) = 0"
  by code_simp+

lemma test_acknowledge_up_to_noop:
  "acknowledge_up_to make_stream 100 = make_stream"
  "acknowledge_up_to (record_send make_stream 1 [120]) 0 = record_send make_stream 1 [120]"
  by code_simp+

lemma test_initial_seq_numbers: "next_out_seq make_stream = 1" "next_in_seq make_stream = 1" "lifecycle make_stream = Open"
  by code_simp+

section \<open>\<open>src/session/mod.rs\<close>\<close>

abbreviation make_state :: SessionState where "make_state \<equiv> new_session (replicate 16 0) ''passkey''"

lemma test_stream_zero_exists: "map_option stream_type (streams make_state 0) = Some Terminal" "streams make_state 42 = None"
  by (simp_all add: new_session_def new_stream_def)

lemma test_open_and_close_stream:
  "map_option lifecycle (streams (fst (open_stream make_state 1 PortForward)) 1) = Some Open"
  "map_option lifecycle (streams (close_stream (fst (open_stream make_state 1 PortForward)) 1) 1) = Some Closed"
  "open_stream (fst (open_stream make_state 2 PortForward)) 2 PortForward = open_stream make_state 2 PortForward"
  "close_stream make_state 99 = make_state"
  by (simp_all add: new_session_def new_stream_def open_stream_def close_stream_def Let_def)

lemma test_last_received_map:
  "last_received_map make_state 0 = Some 0"
  "last_received_map (make_state\<lparr>streams := [0 \<mapsto> make_stream\<lparr>next_in_seq := 6\<rparr>]\<rparr>) 0 = Some 5"
  by (simp_all add: new_session_def new_stream_def last_received_map_def checked_pred_def)

lemma test_collect_replays:
  "collect_replays (make_state\<lparr>streams := [0 \<mapsto> four_sent]\<rparr>) [0 \<mapsto> 2] 0 = Some [(3, [3]), (4, [4])]"
  "collect_replays (make_state\<lparr>streams := [0 \<mapsto> four_sent]\<rparr>) Map.empty 0 = Some (send_history four_sent)"
  "collect_replays make_state Map.empty 0 = None"
  by (simp_all add: new_session_def new_stream_def collect_replays_def replay_from_def four_sent_def record_send_def
      MAX_HISTORY_BYTES_def Let_def)

lemma test_apply_server_acks_unknown_stream_ignored: "streams (apply_server_acks make_state [5 \<mapsto> 100]) 5 = None"
  by (simp add: new_session_def apply_server_acks_def)

section \<open>\<open>src/addrfam.rs\<close>\<close>

lemma from_flags_maps_each_combination:
  "from_flags False False = Auto" "from_flags True False = Ipv4" "from_flags False True = Ipv6" "from_flags True True = Ipv6"
  by simp_all

lemma or_only_substitutes_for_auto: "pref_or Auto Ipv6 = Ipv6" "pref_or Ipv4 Ipv6 = Ipv4" "pref_or Ipv6 Ipv4 = Ipv6"
  by (simp_all add: pref_or_def)

section \<open>\<open>src/forward.rs\<close>\<close>

lemma test_split_ignoring_brackets:
  "split_ignoring_brackets ''a:b:c'' = [''a'', ''b'', ''c'']"
  "split_ignoring_brackets ''8080:[::1]:80'' = [''8080'', ''[::1]'', ''80'']"
  "split_ignoring_brackets ''[::1]:9090:[::1]:80'' = [''[::1]'', ''9090'', ''[::1]'', ''80'']"
  "split_ignoring_brackets ''8080'' = [''8080'']"
  "split_ignoring_brackets [] = [[]]"
  "split_ignoring_brackets ''a:b:'' = [''a'', ''b'', []]"
  by code_simp+

lemmas number_eval = parse_u16_def parse_u64_def from_str_radix_def to_digit_def
lemmas spec_eval = parse_spec_def strip_proto_def strip_suffix_str_def split_ignoring_brackets_def number_eval Let_def

lemma test_parse_basic_tcp:
  "parse_spec ''8080:localhost:80'' = Inr \<lparr>bind_address = None, local_port = 8080, remote_host = ''localhost'',
     remote_port = 80, proto = Tcp\<rparr>"
  "parse_spec ''8080:localhost:80/tcp'' = parse_spec ''8080:localhost:80''"
  by (simp_all add: spec_eval)

lemma test_parse_udp:
  "parse_spec ''5353:192.168.1.1:53/udp'' = Inr \<lparr>bind_address = None, local_port = 5353,
     remote_host = ''192.168.1.1'', remote_port = 53, proto = Udp\<rparr>"
  "parse_spec ''1234:[::1]:5678/udp'' = Inr \<lparr>bind_address = None, local_port = 1234,
     remote_host = ''[::1]'', remote_port = 5678, proto = Udp\<rparr>"
  by (simp_all add: spec_eval)

lemma test_parse_with_bind_address:
  "parse_spec ''127.0.0.1:8080:localhost:80'' = Inr \<lparr>bind_address = Some ''127.0.0.1'', local_port = 8080,
     remote_host = ''localhost'', remote_port = 80, proto = Tcp\<rparr>"
  "parse_spec ''*:8080:localhost:80'' = Inr \<lparr>bind_address = Some ''*'', local_port = 8080,
     remote_host = ''localhost'', remote_port = 80, proto = Tcp\<rparr>"
  by (simp_all add: spec_eval)

lemma test_parse_errors:
  "isl (parse_spec ''8080:localhost'')" "isl (parse_spec ''notaport:localhost:80'')"
  "isl (parse_spec ''8080:localhost:notaport'')" "isl (parse_spec ''8080::80'')"
  by (simp_all add: spec_eval)

lemma test_parse_display:
  "x11_parse '':0'' = Inr (Unix 0)" "display_num (Unix 0) = 0"
  "x11_parse ''unix:10.0'' = Inr (Unix 10)" "display_num (Unix 10) = 10"
  "x11_parse ''localhost:10.0'' = Inr (TcpDisplay ''localhost'' 6010)" "display_num (TcpDisplay ''localhost'' 6010) = 10"
  "x11_parse ''/tmp/launch-123/org.xquartz:0'' = Inr (Path ''/tmp/launch-123/org.xquartz:0'')"
  "display_num (Path ''/tmp/launch-123/org.xquartz:0'') = 0"
  by (simp_all add: x11_parse_def starts_with_def split_ignoring_brackets_def number_eval after_last_def Let_def)

lemma test_get_bind_addresses:
  "map_sum id (\<lambda>s. get_bind_addresses s False) (parse_spec ''8080:localhost:80'') = Inr [''127.0.0.1'', ''[::1]'']"
  "map_sum id (\<lambda>s. get_bind_addresses s True) (parse_spec ''8080:localhost:80'') = Inr [''[::]'']"
  "map_sum id (\<lambda>s. get_bind_addresses s False) (parse_spec ''*:8080:localhost:80'') = Inr [''[::]'']"
  "map_sum id (\<lambda>s. get_bind_addresses s False) (parse_spec ''192.168.1.50:8080:localhost:80'') = Inr [''192.168.1.50'']"
  by (simp_all add: spec_eval get_bind_addresses_def)

section \<open>\<open>src/bin/etr.rs\<close> and \<open>src/bin/etrs.rs\<close>\<close>

lemmas quote_eval = posix_shell_quote.simps quote_plain_def is_ascii_alphanumeric_def strip_prefix_str_def escape_quotes_def

lemma test_posix_shell_quote:
  "posix_shell_quote ''etrs'' = ''etrs''"
  "posix_shell_quote ''/usr/local/bin/etrs'' = ''/usr/local/bin/etrs''"
  "posix_shell_quote ''/path/with spaces/etrs'' = [CHR 0x27] @ ''/path/with spaces/etrs'' @ [CHR 0x27]"
  "posix_shell_quote ''/tmp/log;id'' = [CHR 0x27] @ ''/tmp/log;id'' @ [CHR 0x27]"
  "posix_shell_quote (''/tmp/it'' @ [CHR 0x27] @ ''s.log'') = [CHR 0x27] @ ''/tmp/it'' @
     [CHR 0x27, CHR 0x5C, CHR 0x27, CHR 0x27] @ ''s.log'' @ [CHR 0x27]"
  "posix_shell_quote ''~'' = ''~''" "posix_shell_quote ''~/'' = ''~/''"
  "posix_shell_quote ''~/.local/state/etr/etrs.log'' = ''~/.local/state/etr/etrs.log''"
  "posix_shell_quote ''~/my bin/etrs'' = ''~/'' @ [CHR 0x27] @ ''my bin/etrs'' @ [CHR 0x27]"
  by (simp_all add: quote_eval)

lemma test_bootstrap_line_parsing_covers_every_prefix:
  "parse_bootstrap_line ''KEY=VALUE'' = Env ''KEY=VALUE''"
  "parse_bootstrap_line ''ETRCMD:btop -1'' = Command ''btop -1''"
  "parse_bootstrap_line ''ETRX11:true'' = X11Line"
  "parse_bootstrap_line ''ETRPREFER:4'' = Prefer Ipv4"
  "parse_bootstrap_line ''ETRPREFER:6'' = Prefer Ipv6"
  "parse_bootstrap_line ''ETRPREFER:9'' = Prefer Auto"
  "parse_bootstrap_line ''ETRFUTURE:x'' = Env ''ETRFUTURE:x''"
  by (simp_all add: parse_bootstrap_line_def strip_prefix_str_def starts_with_def from_wire_def trim_def
      trim_front_fixed strip_one_printable printable_def)

lemma test_reconnect_timeout_env_var:
  "resolve_reconnect_timeout None (Some ''7200'') (Some 3600) = 7200"
  "resolve_reconnect_timeout (Some 900) (Some ''7200'') (Some 3600) = 900"
  "resolve_reconnect_timeout None (Some ''not-a-number'') (Some 3600) = 3600"
  "resolve_reconnect_timeout None None None = 1800"
  by (simp_all add: resolve_reconnect_timeout_def number_eval)

lemmas env_eval = is_safe_client_env_var_def has_line_breaker_def eq_ignore_ascii_case_def to_ascii_lowercase_def
  ascii_lower_def BLOCKED_ENV_KEYS_def char_of_def bit_Suc_0_iff

lemma test_is_safe_client_env_var:
  "is_safe_client_env_var ''COLORTERM=truecolor''" "is_safe_client_env_var ''LANG=en_US.UTF-8''"
  "\<not> is_safe_client_env_var ''LD_PRELOAD=/tmp/evil.so''" "\<not> is_safe_client_env_var ''ld_preload=/tmp/evil.so''"
  "\<not> is_safe_client_env_var ''BASH_ENV=/tmp/rc''" "\<not> is_safe_client_env_var ''ENV=/tmp/rc''"
  "\<not> is_safe_client_env_var (''FOO=bar'' @ [newline] @ ''ETRCMD:id'')"
  "\<not> is_safe_client_env_var ''NO_EQUALS''" "\<not> is_safe_client_env_var ''=EMPTY_KEY''"
  by (simp_all add: env_eval)

lemma test_hex_decode:
  "hex_decode ''deadbeef'' = Returns (Some [0xde, 0xad, 0xbe, 0xef])" "hex_decode ''odd'' = Returns None"
  "hex_decode ''zz'' = Returns None"
  by (simp_all add: hex_decode_def is_continuation_def from_str_radix_def to_digit_def)

abbreviation reverse_open :: "string \<Rightarrow> u32 \<Rightarrow> ForwardProto \<Rightarrow> StreamOpen" where
  "reverse_open host port p \<equiv> \<lparr>sto_stream_id = 0, sto_stream_type = stream_type_i32 PortForward, sto_remote_host = host,
     sto_remote_port = port, sto_forward_proto = forward_proto_i32 p\<rparr>"

abbreviation reverse_specs :: "ForwardSpec list" where
  "reverse_specs \<equiv> parsed_reverse_specs [''8080:localhost:80'', ''5353:127.0.0.1:53/udp'']"

lemma reverse_specs_parsed:
  "reverse_specs = [\<lparr>bind_address = None, local_port = 8080, remote_host = ''localhost'', remote_port = 80, proto = Tcp\<rparr>,
     \<lparr>bind_address = None, local_port = 5353, remote_host = ''127.0.0.1'', remote_port = 53, proto = Udp\<rparr>]"
  by (simp add: parsed_reverse_specs_def spec_eval)

lemma test_is_authorized_reverse_stream:
  "is_authorized_reverse_stream (reverse_open ''localhost'' 80 Tcp) False reverse_specs"
  "\<not> is_authorized_reverse_stream (reverse_open ''localhost'' 80 Tcp) False []"
  "\<not> is_authorized_reverse_stream (reverse_open ''10.0.0.1'' 80 Tcp) False reverse_specs"
  "\<not> is_authorized_reverse_stream (reverse_open ''localhost'' 22 Tcp) False reverse_specs"
  "\<not> is_authorized_reverse_stream (reverse_open ''localhost'' 80 Udp) False reverse_specs"
  "is_authorized_reverse_stream ((reverse_open [] 0 Tcp)\<lparr>sto_stream_type := stream_type_i32 X11\<rparr>) x reverse_specs = x"
  unfolding reverse_specs_parsed by (simp_all add: is_authorized_reverse_stream_def forward_proto_try_from_def)

section \<open>\<open>src/tools/stress/src/main.rs\<close>\<close>

lemma pacer_zero_is_unpaced: "pace_step (new_pacer 0 t) = None"
  by (simp add: new_pacer_def)

lemma advance_deadline_splits_coarse_sleep_and_spin_window:
  "advance_deadline t 1000000 t = (t + 1000000, Some 750000)" "advance_deadline t 50000 t = (t + 50000, None)"
  by (simp_all add: advance_deadline_def Let_def SPIN_HORIZON_def)

lemma advance_deadline_clamps_excessive_lag_without_bursting:
  "advance_deadline t 50000 (t + 150000) = (t + 50000, None)"
  "advance_deadline t 50000 (t + 10000000) = (t + 10000000, None)"
  by (simp_all add: advance_deadline_def Let_def MAX_LAG_STEPS_def)

end
