(* ===== verification/Repository_Tests_Wire.thy ===== *)
theory Repository_Tests_Wire
  imports Repository_Tests Udp_Tunnel
begin

text \<open>
  More unit tests of the repository, evaluated on the definitions: preferences and addresses, datagrams,
  the constant-time comparison, the bootstrap, the reset of the terminal and the cookies of X11.
\<close>

section \<open>\<open>src/addrfam.rs\<close>\<close>

lemma from_config_accepts_aliases_and_falls_back_to_auto:
  "from_config (Some ''ipv4'') = Ipv4" "from_config (Some '' V4 '') = Ipv4" "from_config (Some ''inet6'') = Ipv6"
  "from_config (Some ''IPv6'') = Ipv6" "from_config (Some ''auto'') = Auto" "from_config (Some ''ipv46'') = Auto"
  "from_config None = Auto"
  by code_simp+

lemma wire_round_trips_and_ignores_unknown_values:
  "wire Auto = None" "map_option from_wire (wire Ipv4) = Some Ipv4" "map_option from_wire (wire Ipv6) = Some Ipv6"
  "from_wire ''46'' = Auto" "from_wire [] = Auto"
  by code_simp+

lemma ssh_flag_matches_the_preference: "ssh_flag Auto = None" "ssh_flag Ipv4 = Some ''-4''" "ssh_flag Ipv6 = Some ''-6''"
  by simp_all

abbreviation localhost6 :: SocketAddr where "localhost6 \<equiv> SocketAddr (V6 [0, 0, 0, 0, 0, 0, 0, 1]) 22"
abbreviation link_local6 :: SocketAddr where "link_local6 \<equiv> SocketAddr (V6 [0xfe80, 0, 0, 0, 0, 0, 0, 1]) 22"
abbreviation localhost4 :: SocketAddr where "localhost4 \<equiv> SocketAddr (V4 0x7f000001) 22"

lemma order_by_family_puts_the_preferred_family_first:
  "order_by_family [localhost6, localhost4, link_local6] Ipv4 = [localhost4, localhost6, link_local6]"
  "order_by_family [localhost6, localhost4, link_local6] Ipv6 = [localhost6, link_local6, localhost4]"
  by (simp_all add: order_by_family_def is_ipv4_def)

lemma order_by_family_auto_is_identity: "order_by_family [localhost6, localhost4] Auto = [localhost6, localhost4]"
  by (simp add: order_by_family_def)

lemma order_by_family_handles_single_family_and_empty_input:
  "order_by_family [localhost4, SocketAddr (V4 0x0a000001) 22] Ipv6 = [localhost4, SocketAddr (V4 0x0a000001) 22]"
  "order_by_family [] Ipv4 = []"
  by (simp_all add: order_by_family_def)

section \<open>\<open>src/forward.rs\<close>\<close>

text \<open>The parser of addresses on the texts of the tests.\<close>

definition parse_ip_of_tests :: "string \<Rightarrow> IpAddr option" where
  "parse_ip_of_tests s =
     (if s = ''127.0.0.1'' then Some (V4 0x7f000001)
      else if s = ''::1'' then Some (V6 [0, 0, 0, 0, 0, 0, 0, 1]) else None)"

lemma datagram_peer_addr_accepts_both_families:
  "datagram_peer_addr parse_ip_of_tests ''127.0.0.1'' 53 = Some (SocketAddr (V4 0x7f000001) 53)"
  "datagram_peer_addr parse_ip_of_tests ''::1'' 5000 = Some (SocketAddr (V6 [0, 0, 0, 0, 0, 0, 0, 1]) 5000)"
  by (simp_all add: datagram_peer_addr_def parse_ip_of_tests_def)

lemma datagram_peer_addr_rejects_unusable_ports:
  "datagram_peer_addr parse_ip_of_tests ''127.0.0.1'' 0 = None"
  "datagram_peer_addr parse_ip_of_tests ''127.0.0.1'' 65536 = None"
  "datagram_peer_addr parse_ip_of_tests ''127.0.0.1'' 4294967295 = None"
  "(ucast (65536 :: u32) :: u16) = 0"
  by (simp_all add: datagram_peer_addr_def parse_ip_of_tests_def)

lemma datagram_peer_addr_rejects_non_addresses:
  "datagram_peer_addr parse_ip_of_tests [] 53 = None" "datagram_peer_addr parse_ip_of_tests ''localhost'' 53 = None"
  "datagram_peer_addr parse_ip_of_tests ''[::1]'' 53 = None"
  by (simp_all add: datagram_peer_addr_def parse_ip_of_tests_def)

section \<open>\<open>src/quic.rs\<close>\<close>

lemma test_constant_time_eq:
  "constant_time_eq (as_bytes ''secret-passkey-123'') (as_bytes ''secret-passkey-123'')"
  "\<not> constant_time_eq (as_bytes ''secret-passkey-123'') (as_bytes ''secret-passkey-124'')"
  "\<not> constant_time_eq (as_bytes ''secret-passkey-123'') (as_bytes ''Xecret-passkey-123'')"
  "\<not> constant_time_eq (as_bytes ''short'') (as_bytes ''longer'')" "constant_time_eq [] []"
  by code_simp+

lemma window_and_chunk_cap_relationship_is_documented:
  "QUINN_ASSEMBLER_CHUNK_CAP < STREAM_RECEIVE_WINDOW div MIN_EXPECTED_FRAME_PAYLOAD"
  by (simp add: QUINN_ASSEMBLER_CHUNK_CAP_def STREAM_RECEIVE_WINDOW_def MIN_EXPECTED_FRAME_PAYLOAD_def)

section \<open>\<open>src/bin/etr.rs\<close>\<close>

lemma test_validate_bootstrap_inputs_rejects_option_targets_and_newlines:
  "validate_bootstrap_inputs ''user@host'' ''xterm-256color'' [] None = Inr ()"
  "isl (validate_bootstrap_inputs ''-oProxyCommand=sh'' ''xterm-256color'' [] None)"
  "isl (validate_bootstrap_inputs [] ''xterm-256color'' [] None)"
  "isl (validate_bootstrap_inputs ''host'' (''xterm'' @ [newline] @ ''ETRCMD:id'') [] None)"
  "isl (validate_bootstrap_inputs ''host'' ''xterm-256color'' [''FOO=bar'' @ [newline] @ ''ETRCMD:id''] None)"
  "isl (validate_bootstrap_inputs ''host'' ''xterm-256color'' [] (Some (''echo a'' @ [newline] @ ''echo b'')))"
  by (simp_all add: validate_bootstrap_inputs_def starts_with_def has_line_breaker_def)

abbreviation csi :: string where "csi \<equiv> [CHR 0x1B, CHR ''['']"

lemma test_term_reset_modes_covers_critical_modes:
  "list_all (\<lambda>m. sublist (csi @ m) TERM_RESET_MODES) [''?1000l'', ''?1002l'', ''?1003l'', ''?1006l'', ''?2004l'', ''?25h'']"
  "suffix (csi @ ''0m'') TERM_RESET_MODES"
  "list_all (\<lambda>m. \<not> sublist m TERM_RESET_MODES) [csi @ ''?1049l'', csi @ ''r'', [CHR 0x1B, CHR ''c'']]"
  by code_simp+

lemma test_term_reset_screen_leaves_alt_screen:
  "sublist (csi @ ''?1049l'') TERM_RESET_SCREEN" "sublist (csi @ ''r'') TERM_RESET_SCREEN"
  "\<not> sublist [CHR 0x1B, CHR ''c''] TERM_RESET_SCREEN"
  by code_simp+

section \<open>\<open>src/bin/etrs.rs\<close>\<close>

lemma test_etrcmd_line_parsing:
  "read_opts [''KEY=VALUE'', ''ETRCMD:distrobox -- btop'', ''OTHER=foo''] no_opts =
     no_opts\<lparr>bo_env := [''KEY=VALUE'', ''OTHER=foo''], bo_command := Some ''distrobox -- btop''\<rparr>"
  "bo_command (read_opts [''KEY=VALUE''] no_opts) = None"
  by code_simp+

lemma test_etrx11_line_parsing:
  "read_opts [''KEY=VALUE'', ''ETRX11:true'', ''OTHER=foo''] no_opts =
     no_opts\<lparr>bo_env := [''KEY=VALUE'', ''OTHER=foo''], bo_x11 := True\<rparr>"
  by code_simp

lemma test_etrprefer_line_does_not_leak_into_the_environment:
  "read_opts [''KEY=VALUE'', ''ETRPREFER:6'', ''OTHER=foo''] no_opts =
     no_opts\<lparr>bo_env := [''KEY=VALUE'', ''OTHER=foo''], bo_pref := Ipv6\<rparr>"
  "bo_pref (read_opts [''KEY=VALUE'', ''ETRCMD:true''] no_opts) = Auto"
  by code_simp+

definition x11_setup_input :: "bytes \<Rightarrow> bytes" where
  "x11_setup_input cookie = [0x6c, 0, 11, 0, 0, 0, 18, 0, 16, 0, 0, 0] @ as_bytes ''MIT-MAGIC-COOKIE-1'' @ [0, 0] @ cookie"

lemma test_process_x11_setup_empty_real_cookie:
  "process_x11_setup (x11_setup_input (replicate 16 7)) (replicate 16 7) [] =
     Inr ([], [0x6c, 0, 11, 0, 0, 0, 0, 0, 0, 0, 0, 0])"
  by code_simp

lemma test_process_x11_setup_replace_cookie:
  "process_x11_setup (x11_setup_input (replicate 16 7)) (replicate 16 7) (replicate 16 9) =
     Inr ([], x11_setup_input (replicate 16 9))"
  by code_simp

lemma test_process_x11_setup_rejects_empty_fake_cookie:
  "isl (process_x11_setup ([0x6c, 0, 11, 0, 0, 0] @ replicate 6 0) [] [])"
  "isl (process_x11_setup ([0x6c, 0, 11, 0, 0, 0] @ replicate 6 0) [] (replicate 16 9))"
  by code_simp+

lemma test_process_x11_setup_mismatch:
  "isl (process_x11_setup (x11_setup_input (replicate 16 8)) (replicate 16 7) [])"
  by code_simp

end
