(* ===== verification/Spec2Isabelle.thy ===== *)
theory Spec2Isabelle
  imports Recovery Server_Main Client_Resize Windows_Console X11_Tunnel Udp_Tunnel Stress_Tool Repository_Tests_Wire
begin

text \<open>
  A verification development for etr, an eternal terminal: a client (\<open>src/bin/etr.rs\<close>) that
  bootstraps a server (\<open>src/bin/etrs.rs\<close>) over ssh and then talks to it over QUIC, surviving the loss
  of the connection.  Both sides keep a \<open>SessionState\<close>; after a loss the client reconnects, the two
  exchange the last sequence numbers they have received, trim their send histories and replay the rest.
  Paths are relative to the root of the repository.  The theories translate the Rust code function by
  function and keep its names; where one function is a group of concurrent tasks, each task step is a
  definition and an interleaving is a list of steps.

  \<^bold>\<open>Theories and the code they model\<close>

  \<^item> \<open>Etr_Prelude\<close>: bytes, big-endian numbers, parsing of numbers, strings, errors as values of a sum
    type, runs of a step function, the locale \<open>step_invariant\<close> and its extension \<open>step_simulation\<close>.
  \<^item> \<open>Fifo_Spec\<close>: what a stream promises, a queue; \<open>Delivery\<close> and \<open>Duplex\<close> interpret \<open>step_simulation\<close> with it.
  \<^item> \<open>Stream_State\<close> (\<open>src/session/stream.rs\<close>): one stream with its bounded send history.  The locale
    \<open>replay_log\<close> states what a history owes its clients (recording appends and may drop the oldest,
    acknowledging drops a prefix) and proves what survives; \<open>hist\<close> interprets it on \<open>record_send\<close>,
    \<open>acknowledge_up_to\<close> and \<open>replay_from\<close>.
  \<^item> \<open>Session_State\<close> (\<open>src/session/mod.rs\<close>): the streams of a session, watermarks, acknowledgements,
    replays.
  \<^item> \<open>Delivery\<close>: stream 0 from one session to the other as a transition system with losses, heartbeats,
    evictions, aborted readers and reconnects, its invariant, and the abstract queue it refines.
  \<^item> \<open>Protocol\<close> (\<open>src/protocol/mod.rs\<close>) and \<open>Quic_Framing\<close> (\<open>src/quic.rs\<close>): messages, tags, length
    prefixes, PTY chunks, the constant-time comparison.
  \<^item> \<open>Addr_Family\<close> (\<open>src/addrfam.rs\<close>) and \<open>Forward_Spec\<close> (\<open>src/forward.rs\<close>): address preferences, forward
    specifications, connecting to a target.
  \<^item> \<open>Tcp_Forward\<close>, \<open>Udp_Forward\<close>, \<open>X11_Forward\<close>: the forwards of both programs and their helpers in
    \<open>src/forward.rs\<close>: acceptors, headers, authorization, pipes, the relay with its 256 senders, the
    reused frame encoder, the X11 displays and the exchange of cookies.
  \<^item> \<open>Forward_Tunnel\<close>, \<open>Udp_Tunnel\<close> and \<open>X11_Tunnel\<close>: a forwarded TCP connection, a forwarded UDP port and a
    forwarded X11 connection from end to end: the operations of both programs joined by their stream, as
    transition systems with their invariants.
  \<^item> \<open>Hex_Codec\<close> and \<open>Bootstrap\<close>: hex, shell quoting, what the client writes to ssh and the server
    reads from it, the reply, the environment of the shell.
  \<^item> \<open>Config_File\<close> and \<open>Private_Log\<close> (\<open>src/config.rs\<close>): the configuration file and its merge; opening a
    log file along a path of trusted directories.
  \<^item> \<open>Server_Conn\<close> and \<open>Server_Loop\<close> (\<open>src/bin/etrs.rs\<close>): \<open>handle_connection\<close> and the PTY reader as task
    steps on the shared state, the reconnect loop, its exits, \<open>hangup_child\<close> and the detached process.
  \<^item> \<open>Server_Main\<close> (\<open>src/bin/etrs.rs\<close>, \<open>src/login.rs\<close>): \<open>main\<close> and \<open>run_server\<close> with the two results of the
    fork, the calls of libutempter, and the whole bootstrap of client and server.
  \<^item> \<open>Client_Stdin\<close>, \<open>Client_Conn\<close> and \<open>Client_Main\<close> (\<open>src/bin/etr.rs\<close>): the escape machine and the stdin
    task, \<open>run_session\<close>, \<open>run_connection_loop\<close> with the terminal, and \<open>main\<close>.
  \<^item> \<open>Windows_Console\<close> and \<open>Client_Resize\<close> (\<open>src/bin/etr.rs\<close>): the console modes and their restoration; the
    size of the terminal on its way to the PTY.
  \<^item> \<open>Shell_Output\<close>: server and client joined by the PTY stream, for the output of the shell; the client's
    \<open>run_session\<close> begins with an accepted opening and ends with its tasks and the channel between them.
  \<^item> \<open>Duplex\<close>: the same with the stdin task, the stream from client to server and the bytes of the server's
    reply, so that both directions interleave on the shared sessions; \<open>Handshake\<close> and \<open>Recovery\<close>: one reconnect,
    step by step.
  \<^item> \<open>Stress_Pacer\<close> and \<open>Stress_Tool\<close> (\<open>tools/stress/src/main.rs\<close>): the load generator, whose numbers the
    project measures itself by.
  \<^item> \<open>Repository_Tests\<close> and \<open>Repository_Tests_Wire\<close>: unit tests of the repository, evaluated on the definitions.
  \<^item> This theory: the transparency of a session, and the handshake, which joins the client, the server,
    the framing and the histories.

  \<^bold>\<open>What the theorems show\<close>

  Delivery is a subsequence of what was produced under any interleaving, exactly what was produced as
  long as nothing is evicted and no reader is aborted, and every reconnect recovers the rest; in that
  case the link refines a plain queue. In the other direction the client prints the shell's output
  exactly once, in runs of the whole server with the client's receiver and stdout task. Put together, a
  session is step for step two queues, and from every state it can reach one more connection completes both
  directions; with the stdin reader in front, what a user types is what the PTY gets.  These results on whole
  sessions are about the runs that \<open>calm\<close> and \<open>duplex_calm\<close> describe and their texts spell out: one client, whose
  \<open>run_session\<close> prints what it has received before it returns, handshakes that do not race with the PTY reader,
  bounded histories and queues, and no reader aborted between its effects.  For each condition a lemma
  shows what the code does where it fails. The server's output stream is gapless when its handshakes do not race with the PTY reader; the \<open>race\<close> lemmas show what
  happens otherwise. Nothing of a session is given to a client without the credentials, and such clients
  cannot end it. The bootstrap is exact: the remote shell reads the intended words and starts the server with
  them, the server reads the intended values, dangerous environment variables are never set, and the port and certificate the
  client learns are those of the process that serves its session; when there is no such process, the
  client ends with an error, and with which one is determined. Framing, headers, specifications and
  the typed escape round-trip. Reverse forwards reach only what the user allowed. A forwarded connection is
  transparent whatever fails, and delivers as long as nothing fails and no peer closes early; the
  conversations through a forwarded UDP port never mix; an X11 connection reaches the user's display
  exactly when it carries the fake cookie, with only that cookie replaced. The terminal is restored on
  every way out of the client, and on Windows the console, where stdin is one; the PTY follows the size of the
  window as long as no resize comes between the initial size and the listening or finds the queue full. A client reconnects after every loss its readers report, and its exit code follows from the task
  that ended first. The pacer of the load generator never bursts, and its receiver reports exactly what arrived.
  \<open>hangup_child\<close> ends within its bound and every end of a session is recorded.

  Lemmas that document a defect stand beside the definitions they are about: \<open>race_loses_chunk\<close>,
  \<open>race_duplicates_chunk\<close>, \<open>race_reorders_chunks\<close>, \<open>queue_is_prefix\<close>, \<open>aborted_reader_loses_chunk\<close>,
  \<open>aborted_reader_loses_input\<close>, \<open>ended_session_loses_output\<close>, \<open>login_shell_reply_believed\<close>, \<open>slash_in_term_cut\<close>,
  \<open>env_entry_becomes_command\<close>, \<open>overflow_uid_trusted\<close>,
  \<open>stdout_overflow_drops\<close>, \<open>failed_write_exits_cleanly\<close>, \<open>piped_input_not_transparent\<close>,
  \<open>half_close_truncates\<close>, \<open>clean_close_loses_tail\<close>, \<open>strangers_are_heard\<close>, \<open>late_reply_lost\<close>,
  \<open>merge_duplicates_client_header\<close>, \<open>hex_decode_panics\<close>,
  \<open>resize_overflow_stale\<close>, \<open>resize_before_listening_stale\<close>, \<open>redirected_stdin_leaves_vt_output\<close>.

  \<^bold>\<open>Conventions, bounds and parameters\<close>

  Integers keep their width (\<open>u8\<close> to \<open>u64\<close> are words).  A \<open>panic\<close> or a step that is not possible is
  \<open>None\<close>, or \<open>Panics\<close> of \<open>outcome\<close> beside an error value.  Sequence numbers do not wrap as long as
  fewer than \<open>2 ^ 64 - 3\<close> chunks are produced, which the theorems state.  No definition takes fuel: the
  loops recurse on their data, on the list of what happens to them, or on the 20 polls of
  \<open>hangup_child\<close>; where the list ends before the loop does the result is \<open>None\<close>.  A sending stream has a budget after which writes fail; without one it never fails.

  Not under \<open>src/\<close>, and parameters wherever used: the protobuf codec (it decodes what it encoded), the
  resolver and the routes of the kernel, the file system and the process of the log file, \<open>ssh\<close>
  (whose remote shell splits the command line into words as POSIX says) and clap, which reads them, \<open>xauth\<close>, the
  process environment, signals and process groups.  QUIC delivers each stream in order and
  without loss until the connection dies, and then a prefix.

  \<^bold>\<open>Not modelled\<close>

  Parsing of the command lines and shell completions, which are clap's; the random generator (its output is
  a parameter), libutempter, fork, pipes and setsid, of which the results are events or parameters; TLS,
  certificates and their generation beyond the configuration values; progress messages and the formatting
  of the load generator's numbers; timers other than as the event that they fire; the log file on systems
  that are not Unix, which is opened without the checks; the build script and the benchmarks.  What is
  left of the sources is comments, imports and attributes, the duplicates of the hex functions in the two
  binaries, and the \<open>#[cfg(test)]\<close> modules, about a third of their lines: of these, tests with concrete data
  are evaluated in \<open>Repository_Tests\<close> and \<open>Repository_Tests_Wire\<close>; the others test clap, the TOML and protobuf
  codecs, sockets, files, processes and timing.
\<close>

section \<open>Properties\<close>

text \<open>C7 (round trip): a reconnect resumes both directions.  With a client and a server that share the
  credentials, the opening message the client writes is the one the server reads; the server accepts it
  and prepares to replay exactly the chunks of its history above the client's watermark; what the client
  reads from the bytes the server has written to the control stream are the server's watermarks; and with
  these the client writes on the new PTY stream its tag and exactly the encodings of the chunks of its own
  history above the server's watermark.  The histories are well formed and increasing, both sides have a
  terminal stream, no write fails, and the codec of the two envelopes, a parameter, decodes what it
  encoded, within the size limit.\<close>

theorem handshake_resumes_both:
  fixes cs :: SessionState and sv :: server and reverse :: "string list" and gateway forward_x :: bool
    and auth_proto :: string and cookie :: bytes
  defines "so \<equiv> session_open_of (session_id cs) (passkey cs) cs reverse gateway forward_x auth_proto cookie"
    and "sa \<equiv> \<lparr>sa_last_received_seq = last_received_map (sv_session sv)\<rparr>"
  assumes "session_id cs = session_id (sv_session sv)" and "passkey cs = passkey (sv_session sv)"
    and "list_all (\<lambda>e. length (encode e) \<le> MAX_CONTROL_MSG \<and> decode (encode e) = Some e)
      [envelope_of (PSessionOpen so), envelope_of (PSessionAccept sa)]"
    and "streams cs 0 = Some x" and "hist_ok x" and "increasing (send_history x)"
    and "streams (sv_session sv) 0 = Some y" and "hist_ok y" and "increasing (send_history y)"
    and "last_received_map cs 0 = Some got" and "last_received_map (sv_session sv) 0 = Some taken"
  shows "\<exists>ctrl sv' p acks r s. send_session_open encode so (Some \<lparr>outgoing = [], budget = None\<rparr>) = Inr ctrl
    \<and> open_session decode encode conn peer False (Some \<lparr>incoming = outgoing ctrl, ending = e\<rparr>)
        \<lparr>outgoing = [], budget = None\<rparr> sv = (SessionOpened, sv')
    \<and> sv_pending sv' = Some p \<and> pd_replays p = filter (\<lambda>(q, _). got < q) (send_history y)
    \<and> read_session_accept decode \<lparr>incoming = outgoing (pd_ctrl p), ending = e'\<rparr> = Inr (acks, r)
    \<and> acks = last_received_map (sv_session sv)
    \<and> fst (resume_pty acks (Some \<lparr>outgoing = [], budget = None\<rparr>) cs) = Inr s
    \<and> outgoing s = TAG_PTY # concat (map chunk_bytes (filter (\<lambda>(q, _). taken < q) (send_history x)))"
proof -
  have so: "length (encode (envelope_of (PSessionOpen so))) \<le> MAX_CONTROL_MSG"
      "decode (encode (envelope_of (PSessionOpen so))) = Some (envelope_of (PSessionOpen so))"
    and sa: "length (encode (envelope_of (PSessionAccept sa))) \<le> MAX_CONTROL_MSG"
      "decode (encode (envelope_of (PSessionAccept sa))) = Some (envelope_of (PSessionAccept sa))"
    using assms(5) by simp_all
  have acks: "so_last_received_seq so = last_received_map cs" by (simp add: so_def session_open_of_def)
  have auth: "authenticated (sv_session sv) so"
    using assms(3,4) by (simp add: authenticated_iff so_def session_open_of_def)
  have read: "read_session_open decode (Some \<lparr>incoming = TAG_CONTROL # msg_bytes encode (envelope_of (PSessionOpen so)),
      ending = e\<rparr>) = Inr (so, \<lparr>incoming = [], ending = e\<rparr>)"
    using read_session_open_of_msg[where encode = encode and decode = decode, OF so, of "[]" e] by simp
  note opened = open_session_accepts[where encode = encode and decode = decode, OF read auth sa(1)[unfolded sa_def],
      of "\<lparr>outgoing = [], budget = None\<rparr>" conn peer]
  show ?thesis
    using opened resume_pty_unlimited[where acks = "last_received_map (sv_session sv)", OF assms(6,7,8,13)]
      replays_above_watermark[where acks = "last_received_map cs", OF assms(9,10,11,12)]
      send_session_open_unlimited[where encode = encode, OF so(1)]
      read_session_accept_of_msg[where encode = encode and decode = decode, OF sa, of "[]" e']
    by (fastforce simp: acks sa_def)
qed

text \<open>A client that has received nothing and sent one chunk, a server that has received nothing and
  whose shell has printed two, and a codec for the two messages they exchange.\<close>

definition sample_client :: SessionState where
  "sample_client = (new_session [7] ''k'')\<lparr>streams := [0 \<mapsto> record_send (new_stream 0 Terminal) 1 [65]]\<rparr>"

definition sample_server :: server where
  "sample_server = (new_server [7] ''k'' True)\<lparr>sv_session := (new_session [7] ''k'')
     \<lparr>streams := [0 \<mapsto> record_send (record_send (new_stream 0 Terminal) 1 [66]) 2 [67]]\<rparr>\<rparr>"

definition sample_accept :: Envelope where
  "sample_accept = envelope_of (PSessionAccept \<lparr>sa_last_received_seq = last_received_map (sv_session sample_server)\<rparr>)"

definition sample_hello :: SessionOpen where
  "sample_hello = session_open_of (session_id sample_client) (passkey sample_client) sample_client [] False False [] []"

definition sample_encode :: "Envelope \<Rightarrow> bytes" where
  "sample_encode e = (case payload e of Some (PSessionOpen _) \<Rightarrow> [1] | _ \<Rightarrow> [2])"

definition sample_decode :: "bytes \<Rightarrow> Envelope option" where
  "sample_decode b = Some (if b = [1] then envelope_of (PSessionOpen sample_hello) else sample_accept)"

lemmas sample_sessions = sample_client_def sample_server_def new_server_def new_session_def new_stream_def
  record_send_def MAX_HISTORY_BYTES_def Let_def

lemma sample_streams:
  "session_id sample_client = session_id (sv_session sample_server)"
  "passkey sample_client = passkey (sv_session sample_server)"
  "streams sample_client 0 = Some (record_send (new_stream 0 Terminal) 1 [65])"
  "streams (sv_session sample_server) 0 = Some (record_send (record_send (new_stream 0 Terminal) 1 [66]) 2 [67])"
  "last_received_map sample_client 0 = Some 0"
  "last_received_map (sv_session sample_server) 0 = Some 0"
  by (simp_all add: sample_sessions last_received_map_def checked_pred_def)

lemma sample_codec:
  "list_all (\<lambda>e. length (sample_encode e) \<le> MAX_CONTROL_MSG \<and> sample_decode (sample_encode e) = Some e)
    [envelope_of (PSessionOpen sample_hello), sample_accept]"
  by (simp add: sample_encode_def sample_decode_def sample_accept_def envelope_of_def MAX_CONTROL_MSG_def)

lemma sample_histories:
  "send_history (record_send (new_stream 0 Terminal) 1 [65]) = [(1, [65])]"
  "send_history (record_send (record_send (new_stream 0 Terminal) 1 [66]) 2 [67]) = [(1, [66]), (2, [67])]"
  by (simp_all add: new_stream_def record_send_def MAX_HISTORY_BYTES_def Let_def)

lemma sample_hist_ok:
  "hist_ok (record_send (new_stream 0 Terminal) 1 [65])"
  "hist_ok (record_send (record_send (new_stream 0 Terminal) 1 [66]) 2 [67])"
  by (simp_all add: hist_ok_def new_stream_def record_send_def MAX_HISTORY_BYTES_def Let_def vec_ok_def)

theorem handshake_resumes_both_witness:
  "\<exists>sv' p acks r s. sv_pending sv' = Some p \<and> pd_replays p = [(1, [66]), (2, [67])]
    \<and> read_session_accept sample_decode \<lparr>incoming = outgoing (pd_ctrl p), ending = Lost\<rparr> = Inr (acks, r)
    \<and> acks 0 = Some 0
    \<and> outgoing s = TAG_PTY # chunk_bytes (1, [65])
    \<and> fst (resume_pty acks (Some \<lparr>outgoing = [], budget = None\<rparr>) sample_client) = Inr s
    \<and> (SessionOpened, sv') = open_session sample_decode sample_encode 1 ''h'' False
        (Some \<lparr>incoming = TAG_CONTROL # msg_bytes sample_encode (envelope_of (PSessionOpen sample_hello)),
          ending = Finished\<rparr>) \<lparr>outgoing = [], budget = None\<rparr> sample_server"
proof -
  have inc: "increasing [(1, [65])]" "increasing [(1, [66]), (2, [67])]" by (simp_all add: increasing_def)
  note r = handshake_resumes_both[where cs = sample_client and sv = sample_server and encode = sample_encode
      and decode = sample_decode and reverse = "[]" and gateway = False and forward_x = False and auth_proto = "[]"
      and cookie = "[]" and conn = 1 and peer = "''h''" and e = Finished and e' = Lost,
      folded sample_hello_def sample_accept_def, OF sample_streams(1,2) sample_codec sample_streams(3)
      sample_hist_ok(1) _ sample_streams(4) sample_hist_ok(2) _ sample_streams(5,6),
      unfolded sample_histories, OF inc]
  from r obtain ctrl sv' p acks rest s where
    o: "send_session_open sample_encode sample_hello (Some \<lparr>outgoing = [], budget = None\<rparr>) = Inr ctrl"
      "open_session sample_decode sample_encode 1 ''h'' False (Some \<lparr>incoming = outgoing ctrl, ending = Finished\<rparr>)
        \<lparr>outgoing = [], budget = None\<rparr> sample_server = (SessionOpened, sv')"
    and p: "sv_pending sv' = Some p \<and> pd_replays p = [(1, [66]), (2, [67])]
      \<and> read_session_accept sample_decode \<lparr>incoming = outgoing (pd_ctrl p), ending = Lost\<rparr> = Inr (acks, rest)"
    and acks: "acks = last_received_map (sv_session sample_server)"
    and s: "fst (resume_pty acks (Some \<lparr>outgoing = [], budget = None\<rparr>) sample_client) = Inr s \<and>
      outgoing s = TAG_PTY # chunk_bytes (1, [65])"
    by auto
  have "acks 0 = Some 0" using sample_streams(6) by (simp only: acks)
  with o p s send_session_open_unlimited[of sample_encode sample_hello] sample_codec show ?thesis
    by (intro exI[of _ sv'] exI[of _ p] exI[of _ acks] exI[of _ rest] exI[of _ s]) simp
qed

text \<open>C1 (safety): a session is transparent.  Whatever bytes the user means to send, typed with every tilde at the
  start of a line doubled and read from stdin in whatever nonempty pieces, of which the stdin task has recorded
  the first ones: the bytes written to the PTY are the first of those bytes, and the bytes on the client's
  stdout are the first of those the shell has printed, with both directions interleaved and connections
  lost and replaced at any point.  It holds in every state of client and server that a run under the
  conditions of \<open>session_is_two_queues\<close> reaches: one client, which reconnects after its last \<open>run_session\<close>
  has returned, presents its own watermarks and prints what it has received before \<open>run_session\<close> returns;
  handshakes that do not race with the PTY reader and replay at most 1000 chunks; a stdout queue that never
  overflows; in each direction at most 4 MiB unacknowledged and fewer than \<open>2 ^ 64 - 3\<close> chunks; heartbeats
  that acknowledge no more than was received; no PTY reader of the server aborted between its two
  effects; and replies the codec decodes.  Outside of these conditions the code does lose, repeat or reorder
  data, which the lemmas on defects show.\<close>

theorem session_transparent:
  assumes "run_steps (duplex_step decode encode) (new_duplex sid pk fd) es = Some d"
    and "run_allowed (duplex_step decode encode) (duplex_calm decode encode) (new_duplex sid pk fd) es"
    and "[] \<notin> set reads" and "concat reads = type_literally True keys"
    and "prefix (du_typed d) (fst (stdin_reader escape_init reads))"
  shows "prefix (concat (sv_pty_in (du_server d))) keys
    \<and> prefix (concat (jo_printed (du_joint d))) (concat (sv_output (du_server d)))"
proof -
  have ok: "duplex_ok decode d" by (rule duplex.invar_run[OF duplex_ok_new assms(2,1)])
  have "concat (fst (stdin_reader escape_init reads)) = keys"
    using stdin_reader_stream[OF _ assms(3), of escape_init] type_literally_stream[of True keys] assms(4)
    by (auto simp: case_prod_unfold)
  moreover have "prefix (sv_pty_in (du_server d)) (du_typed d)"
    using exact_input[of d] ok by (auto simp: duplex_ok_def intro: take_is_prefix)
  moreover have "prefix (jo_printed (du_joint d)) (sv_output (du_server d))"
    using printed_prefix ok by (simp add: duplex_ok_def)
  ultimately show ?thesis using assms(5) by (metis prefix_concat_mono prefix_order.trans)
qed

text \<open>A user who types \<open>~~b\<close> over the lost connection of \<open>duplex_run\<close>, of which two bytes are sent.\<close>

definition tilde_run :: "duplex_event list" where
  "tilde_run =
     [Joint (open_mark 0), Joint (Server Install), Joint (Server QueueReplays), ClientResume, TypeChunk [126],
      ConnLost, Joint (Server (PtyRead [65])), Joint (Server PtyForward), Joint (Server EndConnection),
      Joint ClientEnds, Joint (open_mark 0), Joint (Server Install), Joint (Server QueueReplays), ClientResume, ServerRecv,
      Joint (Server PtyWrite), Joint ClientRecv, Joint StdoutWrite]"

theorem session_transparent_witness:
  "\<exists>d. run_steps (duplex_step decode_mark encode_mark) (new_duplex [7] ''k'' True) tilde_run = Some d
     \<and> stdin_reader escape_init [[126], [126], [98]] = ([[126], [98]], False)
     \<and> sv_pty_in (du_server d) = [[126]] \<and> jo_printed (du_joint d) = [[65]]
     \<and> prefix (concat (sv_pty_in (du_server d))) [126, 98]"
proof -
  let ?run = "run_steps (duplex_step decode_mark encode_mark) (new_duplex [7] ''k'' True) tilde_run"
  have "case ?run of None \<Rightarrow> False | Some d \<Rightarrow> sv_pty_in (du_server d) = [[126]] \<and> du_typed d = [[126]]
      \<and> jo_printed (du_joint d) = [[65]]"
    by (simp add: duplex_eval tilde_run_def)
  then obtain d where d: "?run = Some d" "sv_pty_in (du_server d) = [[126]]" "du_typed d = [[126]]"
    "jo_printed (du_joint d) = [[65]]"
    by (auto split: option.splits)
  have allowed: "run_allowed (duplex_step decode_mark encode_mark) (duplex_calm decode_mark encode_mark) (new_duplex [7] ''k'' True) tilde_run"
    by (simp add: duplex_eval tilde_run_def)
  have r: "stdin_reader escape_init [[126], [126], [98]] = ([[126], [98]], False)"
    by (simp add: escape_init_def ESCAPE_CHAR_def DOT_def line_end_def)
  have "prefix (concat (sv_pty_in (du_server d))) [126, 98]"
    using session_transparent[OF d(1) allowed, of "[[126], [126], [98]]" "[126, 98]"] r d(3)
    by (simp add: ESCAPE_CHAR_def line_end_def)
  with d r show ?thesis by blast
qed

end
